(* ===== verification/Prelude.thy ===== *)
theory Prelude
  imports Main "HOL-Library.Word"
begin

text \<open>
  Shared vocabulary of the development: bytes and big-endian fields as both C files
  read and write them (\<^verbatim>\<open>get_be32\<close>, \<^verbatim>\<open>put_be32\<close>, \<^verbatim>\<open>put_be16\<close>), the buffer
  operations of \<^verbatim>\<open>memset\<close> on a list, and the hint collections the components use:
  \<open>be_simps\<close> (byte order), \<open>buf_simps\<close> (buffers) and \<open>frame_rules\<close> (what an
  operation leaves alone).
\<close>

unbundle bit_operations_syntax

named_theorems be_simps
named_theorems buf_simps
named_theorems frame_rules

type_synonym byte = "8 word"
type_synonym u16 = "16 word"
type_synonym u32 = "32 word"

section \<open>Byte order\<close>

definition get_be32 :: "byte list \<Rightarrow> u32" where
  "get_be32 p =
     push_bit 24 (ucast (p ! 0)) OR push_bit 16 (ucast (p ! 1)) OR push_bit 8 (ucast (p ! 2))
     OR ucast (p ! 3)"

definition put_be32 :: "u32 \<Rightarrow> byte list" where
  "put_be32 v = [ucast (drop_bit 24 v), ucast (drop_bit 16 v), ucast (drop_bit 8 v), ucast v]"

definition put_be16 :: "u16 \<Rightarrow> byte list" where
  "put_be16 v = [ucast (drop_bit 8 v), ucast v]"

lemma length_put_be32 [simp, be_simps]: "length (put_be32 v) = 4"
  by (simp add: put_be32_def)

lemma length_put_be16 [simp, be_simps]: "length (put_be16 v) = 2"
  by (simp add: put_be16_def)

lemma get_be32_append [be_simps]: "4 \<le> length p \<Longrightarrow> get_be32 (p @ q) = get_be32 p"
  by (cases p) (auto simp: get_be32_def nth_append)

lemma get_put_be32 [simp, be_simps]: "get_be32 (put_be32 v) = v"
proof (rule bit_word_eqI)
  fix n
  assume "n < LENGTH(32)"
  then consider "n < 8" | "8 \<le> n" "n < 16" | "16 \<le> n" "n < 24" | "24 \<le> n" "n < 32"
    by fastforce
  then show "bit (get_be32 (put_be32 v)) n = bit v n"
    by cases (auto simp: get_be32_def put_be32_def bit_simps)
qed

lemma get_put_be32_append [simp, be_simps]: "get_be32 (put_be32 v @ q) = v"
  by (simp add: get_be32_append)

lemma not_bit_byte: "8 \<le> n \<Longrightarrow> \<not> bit (b :: byte) n"
  using bit_imp_le_length [of b n] by auto

lemma put_get_be32:
  assumes "length p = 4"
  shows "put_be32 (get_be32 p) = p"
proof -
  from assms obtain a b c d where p: "p = [a, b, c, d]"
    by (auto simp: length_Suc_conv numeral_eq_Suc)
  show ?thesis
    unfolding p put_be32_def get_be32_def
    by (auto intro!: bit_eqI simp: bit_simps not_bit_byte)
qed

section \<open>Buffers\<close>

text \<open>\<^verbatim>\<open>memset (dst + off, v, n)\<close> on a buffer held as a list.\<close>

definition memset_at :: "'a list \<Rightarrow> nat \<Rightarrow> 'a \<Rightarrow> nat \<Rightarrow> 'a list" where
  "memset_at dst off v n = take off dst @ replicate n v @ drop (off + n) dst"

lemma length_memset_at [simp, buf_simps]:
  "off + n \<le> length dst \<Longrightarrow> length (memset_at dst off v n) = length dst"
  by (simp add: memset_at_def)

lemma nth_memset_at [buf_simps]:
  "off + n \<le> length dst \<Longrightarrow> i < length dst \<Longrightarrow>
   memset_at dst off v n ! i = (if off \<le> i \<and> i < off + n then v else dst ! i)"
  by (auto simp: memset_at_def nth_append)

lemma memset_at_0 [simp, buf_simps]: "memset_at dst off v 0 = dst"
  by (simp add: memset_at_def)

lemma memset_at_all [buf_simps]: "length dst = n \<Longrightarrow> memset_at dst 0 v n = replicate n v"
  by (simp add: memset_at_def)

text \<open>\<^verbatim>\<open>memcpy (buf + off, bs, length bs)\<close>.\<close>

definition poke :: "byte list \<Rightarrow> nat \<Rightarrow> byte list \<Rightarrow> byte list" where
  "poke buf off bs = take off buf @ bs @ drop (off + length bs) buf"

section \<open>Strings\<close>

definition lower :: "char \<Rightarrow> char" where
  "lower c = (if of_char c \<in> {65..90::nat} then char_of (of_char c + 32 :: nat) else c)"

text \<open>\<^verbatim>\<open>strcasecmp (a, b) == 0\<close>.\<close>

definition same_nocase :: "string \<Rightarrow> string \<Rightarrow> bool" where
  "same_nocase a b = (map lower a = map lower b)"

section \<open>Pieces\<close>

text \<open>Cutting a list into pieces of at most \<open>n\<close>: the order of the pieces is the list.\<close>

function pieces :: "nat \<Rightarrow> 'a list \<Rightarrow> 'a list list" where
  "pieces n xs = (if xs = [] \<or> n = 0 then [] else take n xs # pieces n (drop n xs))"
  by pat_completeness auto
termination
  by (relation "measure (\<lambda>(n, xs). length xs)") auto

declare pieces.simps [simp del]

lemma concat_pieces: "0 < n \<Longrightarrow> concat (pieces n xs) = xs"
proof (induction n xs rule: pieces.induct)
  case (1 n xs)
  show ?case
  proof (cases "xs = []")
    case True
    then show ?thesis by (simp add: pieces.simps)
  next
    case False
    with 1 show ?thesis by (subst pieces.simps) simp
  qed
qed

lemma pieces_bounds: "p \<in> set (pieces n xs) \<Longrightarrow> p \<noteq> [] \<and> length p \<le> n"
proof (induction n xs rule: pieces.induct)
  case (1 n xs)
  show ?case
  proof (cases "xs = [] \<or> n = 0")
    case True
    with 1 show ?thesis by (simp add: pieces.simps)
  next
    case False
    with 1 show ?thesis by (auto simp: pieces.simps [of n xs])
  qed
qed

lemma length_concat_rows: "\<forall>row \<in> set rows. length row = k \<Longrightarrow> length (concat rows) = length rows * k"
  by (induction rows) simp_all

section \<open>Invariants of steps\<close>

text \<open>A component whose every step keeps an invariant keeps it over every run. The
  components provide their step relations and discharge the one law.\<close>

locale step_invariant =
  fixes step :: "'s \<Rightarrow> 's \<Rightarrow> bool" and inv :: "'s \<Rightarrow> bool"
  assumes step_inv: "step s t \<Longrightarrow> inv s \<Longrightarrow> inv t"
begin

lemma run_inv: "step\<^sup>*\<^sup>* s t \<Longrightarrow> inv s \<Longrightarrow> inv t"
  by (induction rule: rtranclp_induct) (auto intro: step_inv)

end

end
