(* ===== verification/Transport.thy ===== *)
theory Transport
  imports Prelude
begin

text \<open>
  The USB plumbing of \<^verbatim>\<open>src/pantum.c\<close>: bulk transfers with their retries, the 32-byte
  frame header of the scanner's protocol, and \<^verbatim>\<open>command\<close>, which sends a request and
  finds its acknowledgement behind stale frames.

  libusb, the clock and the allocator are not part of the repository: they are the
  fields of the record \<open>env\<close>, functions over an unknown world \<open>'w\<close>.
\<close>

section \<open>Constants and results\<close>

definition PANTUM_MAGIC :: u32 where "PANTUM_MAGIC = 0x41535001"
definition PANTUM_HEADER_LEN :: nat where "PANTUM_HEADER_LEN = 32"
definition PANTUM_SETTINGS_LEN :: nat where "PANTUM_SETTINGS_LEN = 100"
definition PANTUM_SETTINGS_WORDS :: nat where
  "PANTUM_SETTINGS_WORDS = PANTUM_SETTINGS_LEN div 4"
definition PANTUM_DATA_HEADER_LEN :: nat where "PANTUM_DATA_HEADER_LEN = 24"
definition PANTUM_MAX_PAYLOAD :: u32 where "PANTUM_MAX_PAYLOAD = 64 * 1024 * 1024"

definition CMD_LOCK :: u32 where "CMD_LOCK = 0x00"
definition CMD_UNLOCK :: u32 where "CMD_UNLOCK = 0x01"
definition CMD_START :: u32 where "CMD_START = 0x02"
definition CMD_ABORT :: u32 where "CMD_ABORT = 0x03"
definition CMD_GET_SETTINGS :: u32 where "CMD_GET_SETTINGS = 0x06"
definition CMD_SET_SETTINGS :: u32 where "CMD_SET_SETTINGS = 0x07"
definition CMD_SET_DEFAULTS :: u32 where "CMD_SET_DEFAULTS = 0x08"
definition CMD_ADF_STATUS :: u32 where "CMD_ADF_STATUS = 0x0f"

definition EVT_ABORTED :: u32 where "EVT_ABORTED = 0x04"
definition EVT_DATA :: u32 where "EVT_DATA = 0x05"
definition EVT_SETTINGS :: u32 where "EVT_SETTINGS = 0x09"
definition EVT_JOB_END :: u32 where "EVT_JOB_END = 0x0c"
definition EVT_PAGE_END :: u32 where "EVT_PAGE_END = 0x0e"

definition TIMEOUT_WRITE :: nat where "TIMEOUT_WRITE = 10000"
definition TIMEOUT_READ :: nat where "TIMEOUT_READ = 180000"
definition TIMEOUT_TEARDOWN :: nat where "TIMEOUT_TEARDOWN = 5000"
definition TIMEOUT_POLL :: nat where "TIMEOUT_POLL = 20"
definition EP_OUT :: nat where "EP_OUT = 0x02"
definition EP_IN :: nat where "EP_IN = 0x82"
definition COMMAND_MAX_SKIP :: nat where "COMMAND_MAX_SKIP = 4"

lemmas protocol_sizes =
  PANTUM_HEADER_LEN_def PANTUM_SETTINGS_LEN_def PANTUM_SETTINGS_WORDS_def
  PANTUM_DATA_HEADER_LEN_def

lemmas protocol_codes =
  PANTUM_MAGIC_def PANTUM_MAX_PAYLOAD_def CMD_LOCK_def CMD_UNLOCK_def CMD_START_def
  CMD_ABORT_def CMD_GET_SETTINGS_def CMD_SET_SETTINGS_def CMD_SET_DEFAULTS_def
  CMD_ADF_STATUS_def EVT_ABORTED_def EVT_DATA_def EVT_SETTINGS_def EVT_JOB_END_def
  EVT_PAGE_END_def COMMAND_MAX_SKIP_def

datatype sane_status =
  SANE_STATUS_GOOD | SANE_STATUS_UNSUPPORTED | SANE_STATUS_CANCELLED
| SANE_STATUS_DEVICE_BUSY | SANE_STATUS_INVAL | SANE_STATUS_EOF | SANE_STATUS_JAMMED
| SANE_STATUS_NO_DOCS | SANE_STATUS_COVER_OPEN | SANE_STATUS_IO_ERROR | SANE_STATUS_NO_MEM
| SANE_STATUS_ACCESS_DENIED

datatype libusb_rc =
  LIBUSB_SUCCESS | LIBUSB_ERROR_IO | LIBUSB_ERROR_INVALID_PARAM | LIBUSB_ERROR_ACCESS
| LIBUSB_ERROR_NO_DEVICE | LIBUSB_ERROR_NOT_FOUND | LIBUSB_ERROR_BUSY | LIBUSB_ERROR_TIMEOUT
| LIBUSB_ERROR_OVERFLOW | LIBUSB_ERROR_PIPE | LIBUSB_ERROR_INTERRUPTED | LIBUSB_ERROR_NO_MEM
| LIBUSB_ERROR_NOT_SUPPORTED | LIBUSB_ERROR_OTHER

text \<open>The frame header of \<^verbatim>\<open>src/pantum.h\<close>, unpacked.\<close>

record pantum_frame =
  f_cmd :: u32
  f_arg0 :: u32
  f_status :: u32
  f_plen :: u32

text \<open>Device status codes, as \<^verbatim>\<open>map_status\<close> reads them.\<close>

definition map_status :: "u32 \<Rightarrow> sane_status" where
  "map_status status =
     (if status = 0 then SANE_STATUS_GOOD
      else if status = 2 then SANE_STATUS_DEVICE_BUSY
      else if status = 5 then SANE_STATUS_NO_DOCS
      else if status = 6 \<or> status = 7 then SANE_STATUS_JAMMED
      else if status = 8 then SANE_STATUS_COVER_OPEN
      else SANE_STATUS_IO_ERROR)"

lemma map_status_GOOD_iff [simp]: "map_status s = SANE_STATUS_GOOD \<longleftrightarrow> s = 0"
  by (simp add: map_status_def)

section \<open>The environment\<close>

text \<open>
  \<open>bulk_in n t w\<close> asks for \<open>n\<close> bytes with timeout \<open>t\<close> and answers the return code and
  the bytes transferred; \<open>bulk_out bs t w\<close> answers the return code and how many bytes
  left; \<open>alloc_ok n w\<close> says whether the allocator grants \<open>n\<close> bytes.
\<close>

record 'w env =
  bulk_in :: "nat \<Rightarrow> nat \<Rightarrow> 'w \<Rightarrow> (libusb_rc \<times> byte list) \<times> 'w"
  bulk_out :: "byte list \<Rightarrow> nat \<Rightarrow> 'w \<Rightarrow> (libusb_rc \<times> nat) \<times> 'w"
  clear_halt :: "nat \<Rightarrow> 'w \<Rightarrow> 'w"
  nanosleep :: "nat \<Rightarrow> nat \<Rightarrow> 'w \<Rightarrow> 'w"
  alloc_ok :: "nat \<Rightarrow> 'w \<Rightarrow> bool \<times> 'w"

definition sleep_ms :: "'w env \<Rightarrow> nat \<Rightarrow> 'w \<Rightarrow> 'w" where
  "sleep_ms E ms w = nanosleep E (ms div 1000) ((ms mod 1000) * 1000000) w"

section \<open>Bulk transfers\<close>

text \<open>The three tries of one transfer: an error other than a timeout clears the stall,
  waits 10 ms and tries again.\<close>

primrec out_tries ::
  "'w env \<Rightarrow> nat \<Rightarrow> byte list \<Rightarrow> libusb_rc \<times> nat \<Rightarrow> 'w \<Rightarrow> (libusb_rc \<times> nat) \<times> 'w" where
  "out_tries E 0 buf r w = (r, w)"
| "out_tries E (Suc tries) buf r w =
     (case bulk_out E buf TIMEOUT_WRITE w of ((rc, transferred), w1) \<Rightarrow>
        if rc = LIBUSB_SUCCESS \<or> rc = LIBUSB_ERROR_TIMEOUT then ((rc, transferred), w1)
        else out_tries E tries buf (rc, transferred)
               (sleep_ms E 10 (clear_halt E EP_OUT w1)))"

function usb_write :: "'w env \<Rightarrow> byte list \<Rightarrow> 'w \<Rightarrow> sane_status \<times> 'w" where
  "usb_write E buf w =
     (if buf = [] then (SANE_STATUS_GOOD, w)
      else case out_tries E 3 buf (LIBUSB_ERROR_OTHER, 0) w of ((rc, transferred), w1) \<Rightarrow>
        if rc \<noteq> LIBUSB_SUCCESS \<or> transferred = 0 then (SANE_STATUS_IO_ERROR, w1)
        else usb_write E (drop transferred buf) w1)"
  by pat_completeness auto
termination
  by (relation "measure (\<lambda>(E, buf, w). length buf)") auto

declare usb_write.simps [simp del]

primrec in_tries ::
  "'w env \<Rightarrow> nat \<Rightarrow> nat \<Rightarrow> nat \<Rightarrow> libusb_rc \<times> byte list \<Rightarrow> 'w \<Rightarrow> (libusb_rc \<times> byte list) \<times> 'w"
where
  "in_tries E 0 want timeout r w = (r, w)"
| "in_tries E (Suc tries) want timeout r w =
     (case bulk_in E want timeout w of ((rc, data), w1) \<Rightarrow>
        if rc = LIBUSB_SUCCESS \<or> rc = LIBUSB_ERROR_TIMEOUT then ((rc, data), w1)
        else in_tries E tries want timeout (rc, data)
               (sleep_ms E 10 (clear_halt E EP_IN w1)))"

text \<open>\<open>got\<close> is the part of the buffer filled so far.\<close>

function usb_read_loop ::
  "'w env \<Rightarrow> nat \<Rightarrow> nat \<Rightarrow> byte list \<Rightarrow> 'w \<Rightarrow> (sane_status \<times> byte list) \<times> 'w" where
  "usb_read_loop E len timeout got w =
     (if length got < len then
        (case in_tries E 3 (len - length got) timeout (LIBUSB_ERROR_OTHER, []) w of
           ((rc, data), w1) \<Rightarrow>
             if rc \<noteq> LIBUSB_SUCCESS \<or> data = [] then ((SANE_STATUS_IO_ERROR, got), w1)
             else usb_read_loop E len timeout (got @ data) w1)
      else ((SANE_STATUS_GOOD, got), w))"
  by pat_completeness auto
termination
  by (relation "measure (\<lambda>(E, len, timeout, got, w). len - length got)")
     (auto intro!: diff_less_mono2)

declare usb_read_loop.simps [simp del]

definition usb_read ::
  "'w env \<Rightarrow> nat \<Rightarrow> nat \<Rightarrow> 'w \<Rightarrow> (sane_status \<times> byte list) \<times> 'w" where
  "usb_read E len timeout w = usb_read_loop E len timeout [] w"

text \<open>\<^verbatim>\<open>flush_input\<close>: at most 4096 reads of 4096 bytes, until one comes back empty.\<close>

primrec flush_loop :: "'w env \<Rightarrow> nat \<Rightarrow> 'w \<Rightarrow> 'w" where
  "flush_loop E 0 w = w"
| "flush_loop E (Suc i) w =
     (case bulk_in E 4096 200 w of ((rc, data), w1) \<Rightarrow>
        if rc \<noteq> LIBUSB_SUCCESS \<or> data = [] then w1 else flush_loop E i w1)"

definition flush_input :: "'w env \<Rightarrow> 'w \<Rightarrow> 'w" where
  "flush_input E w = flush_loop E 4096 w"

section \<open>Frames\<close>

definition send_frame :: "'w env \<Rightarrow> u32 \<Rightarrow> byte list \<Rightarrow> 'w \<Rightarrow> sane_status \<times> 'w" where
  "send_frame E cmd payload w =
     (let len = length payload in
      if PANTUM_SETTINGS_LEN < len then (SANE_STATUS_INVAL, w)
      else
        let buf = replicate (PANTUM_HEADER_LEN + PANTUM_SETTINGS_LEN) 0;
            buf = poke buf 0 (put_be32 PANTUM_MAGIC);
            buf = poke buf 4 (put_be32 cmd);
            buf = poke buf 20 (put_be32 (of_nat len));
            buf = poke buf PANTUM_HEADER_LEN payload
        in usb_write E (take (PANTUM_HEADER_LEN + len) buf) w)"

text \<open>What \<^verbatim>\<open>recv_frame\<close> reports: an error status, nothing on the wire (only with
  \<^verbatim>\<open>probe\<close>), or a frame.\<close>

datatype recv_result = Recv_Err sane_status | Recv_Idle | Recv_Frame pantum_frame

definition parse_header :: "byte list \<Rightarrow> recv_result" where
  "parse_header buf =
     (if get_be32 buf \<noteq> PANTUM_MAGIC then Recv_Err SANE_STATUS_IO_ERROR
      else
        let f = \<lparr>f_cmd = get_be32 (drop 4 buf), f_arg0 = get_be32 (drop 8 buf),
                 f_status = get_be32 (drop 16 buf), f_plen = get_be32 (drop 20 buf)\<rparr>
        in if PANTUM_MAX_PAYLOAD < f_plen f then Recv_Err SANE_STATUS_IO_ERROR
           else Recv_Frame f)"

text \<open>The rest of the header once \<open>got\<close> bytes of it are there.\<close>

definition recv_rest :: "'w env \<Rightarrow> nat \<Rightarrow> byte list \<Rightarrow> 'w \<Rightarrow> recv_result \<times> 'w" where
  "recv_rest E timeout got w =
     (if length got < PANTUM_HEADER_LEN then
        (case usb_read E (PANTUM_HEADER_LEN - length got) timeout w of ((st, bs), w1) \<Rightarrow>
           if st \<noteq> SANE_STATUS_GOOD then (Recv_Err st, w1)
           else (parse_header (got @ bs), w1))
      else (parse_header got, w))"

definition recv_frame :: "'w env \<Rightarrow> nat \<Rightarrow> bool \<Rightarrow> 'w \<Rightarrow> recv_result \<times> 'w" where
  "recv_frame E timeout probe w =
     (if probe then
        (case bulk_in E PANTUM_HEADER_LEN TIMEOUT_POLL w of ((rc, data), w1) \<Rightarrow>
           if rc \<noteq> LIBUSB_SUCCESS \<and> rc \<noteq> LIBUSB_ERROR_TIMEOUT
           then (Recv_Err SANE_STATUS_IO_ERROR, w1)
           else if data = [] then (Recv_Idle, w1)
           else recv_rest E timeout data w1)
      else recv_rest E timeout [] w)"

function drain_payload :: "'w env \<Rightarrow> nat \<Rightarrow> nat \<Rightarrow> 'w \<Rightarrow> sane_status \<times> 'w" where
  "drain_payload E plen timeout w =
     (if plen = 0 then (SANE_STATUS_GOOD, w)
      else
        let chunk = (if 512 < plen then 512 else plen) in
        case usb_read E chunk timeout w of ((st, bs), w1) \<Rightarrow>
          if st \<noteq> SANE_STATUS_GOOD then (st, w1)
          else drain_payload E (plen - chunk) timeout w1)"
  by pat_completeness auto
termination
  by (relation "measure (\<lambda>(E, plen, timeout, w). plen)") (auto split: if_splits)

declare drain_payload.simps [simp del]

section \<open>Commands\<close>

text \<open>The loop of \<^verbatim>\<open>command\<close> that steps over stale frames: \<open>Inl\<close> is an error return.\<close>

function await_ack ::
  "'w env \<Rightarrow> u32 \<Rightarrow> nat \<Rightarrow> nat \<Rightarrow> 'w \<Rightarrow> (sane_status + pantum_frame) \<times> 'w" where
  "await_ack E cmd timeout skipped w =
     (case recv_frame E timeout False w of
        (Recv_Err st, w1) \<Rightarrow> (Inl st, w1)
      | (Recv_Idle, w1) \<Rightarrow> (Inl SANE_STATUS_IO_ERROR, w1)
      | (Recv_Frame f, w1) \<Rightarrow>
          if f_cmd f = cmd then (Inr f, w1)
          else
            (case drain_payload E (unat (f_plen f)) TIMEOUT_TEARDOWN w1 of (st, w2) \<Rightarrow>
               if st \<noteq> SANE_STATUS_GOOD then (Inl st, w2)
               else if COMMAND_MAX_SKIP \<le> skipped + 1 then (Inl SANE_STATUS_IO_ERROR, w2)
               else await_ack E cmd TIMEOUT_TEARDOWN (skipped + 1) w2))"
  by pat_completeness auto
termination
  by (relation "measure (\<lambda>(E, cmd, timeout, skipped, w). COMMAND_MAX_SKIP - skipped)") auto

declare await_ack.simps [simp del]

record command_result =
  c_status :: sane_status
  c_ack :: "pantum_frame option"
  c_reply :: "byte list"

definition command_fails :: "sane_status \<Rightarrow> command_result" where
  "command_fails st = \<lparr>c_status = st, c_ack = None, c_reply = []\<rparr>"

definition command_done :: "pantum_frame \<Rightarrow> byte list \<Rightarrow> command_result" where
  "command_done f reply =
     \<lparr>c_status = (if f_status f \<noteq> 0 then map_status (f_status f) else SANE_STATUS_GOOD),
      c_ack = Some f, c_reply = reply\<rparr>"

text \<open>\<open>reply_len\<close> is \<open>None\<close> for a null \<^verbatim>\<open>reply\<close>. The acknowledgement frame is handed
  out only where the code assigns \<^verbatim>\<open>*ack\<close>.\<close>

definition command ::
  "'w env \<Rightarrow> u32 \<Rightarrow> byte list \<Rightarrow> nat option \<Rightarrow> 'w \<Rightarrow> command_result \<times> 'w" where
  "command E cmd payload reply_len w =
     (case send_frame E cmd payload w of (st, w1) \<Rightarrow>
        if st \<noteq> SANE_STATUS_GOOD then (command_fails st, w1)
        else case await_ack E cmd TIMEOUT_READ 0 w1 of
          (Inl st, w2) \<Rightarrow> (command_fails st, w2)
        | (Inr f, w2) \<Rightarrow>
            let plen = unat (f_plen f) in
            if plen \<noteq> 0 then
              (case reply_len of
                 None \<Rightarrow>
                   (case drain_payload E plen TIMEOUT_READ w2 of (st, w3) \<Rightarrow>
                      if st \<noteq> SANE_STATUS_GOOD then (command_fails st, w3)
                      else (command_done f [], w3))
               | Some n \<Rightarrow>
                   if plen \<noteq> n then
                     (command_fails SANE_STATUS_IO_ERROR,
                      snd (drain_payload E plen TIMEOUT_READ w2))
                   else
                     (case usb_read E n TIMEOUT_READ w2 of ((st, reply), w3) \<Rightarrow>
                        if st \<noteq> SANE_STATUS_GOOD then (command_fails st, w3)
                        else (command_done f reply, w3)))
            else
              (case reply_len of
                 Some n \<Rightarrow> (command_fails SANE_STATUS_IO_ERROR, w2)
               | None \<Rightarrow> (command_done f [], w2)))"

end
