(* ===== verification/Handle.thy ===== *)
theory Handle
  imports Transport "HOL-Library.Signed_Division"
begin

text \<open>
  The data of the scanner backend: \<^verbatim>\<open>Pantum_Handle\<close>, the option table and
  \<^verbatim>\<open>SANE_Parameters\<close> of \<^verbatim>\<open>src/pantum.h\<close> and the constants of \<^verbatim>\<open>src/pantum.c\<close> they
  are filled from. A field \<open>h_f\<close> of the record is \<^verbatim>\<open>h->f\<close>. The C pair
  \<^verbatim>\<open>out\<close>/\<^verbatim>\<open>out_len\<close> is the list \<open>h_out\<close>, which holds the first \<^verbatim>\<open>out_len\<close> bytes.

  Two fields are not in the C structure: \<open>h_out_alloc\<close>, the size of the block the
  allocator really gave for \<^verbatim>\<open>out\<close>, and \<open>h_overrun\<close>, set when a row is written past it.

  SANE's fixed-point numbers are 16.16; the doubles of the source are exact rationals
  here. Where a double is truncated to an integer the source's double expression and the
  rational one agree for every 32-bit input (the quotients that are not whole numbers
  keep a distance from the next whole number that is far above the rounding error).
\<close>

section \<open>Options\<close>

datatype pantum_option =
  OPT_NUM_OPTS | OPT_MODE_GROUP | OPT_MODE | OPT_RESOLUTION | OPT_SOURCE | OPT_PREVIEW
| OPT_THRESHOLD | OPT_GEOMETRY_GROUP | OPT_TL_X | OPT_TL_Y | OPT_BR_X | OPT_BR_Y

definition option_table :: "pantum_option list" where
  "option_table =
     [OPT_NUM_OPTS, OPT_MODE_GROUP, OPT_MODE, OPT_RESOLUTION, OPT_SOURCE, OPT_PREVIEW,
      OPT_THRESHOLD, OPT_GEOMETRY_GROUP, OPT_TL_X, OPT_TL_Y, OPT_BR_X, OPT_BR_Y]"

definition NUM_OPTIONS :: int where "NUM_OPTIONS = 12"

text \<open>An option number of the frontend, checked as every entry point checks it.\<close>

definition option_at :: "int \<Rightarrow> pantum_option option" where
  "option_at i = (if i < 0 \<or> NUM_OPTIONS \<le> i then None else Some (option_table ! nat i))"

datatype sane_type = SANE_TYPE_BOOL | SANE_TYPE_INT | SANE_TYPE_FIXED | SANE_TYPE_STRING
  | SANE_TYPE_GROUP

datatype sane_unit = SANE_UNIT_NONE | SANE_UNIT_DPI | SANE_UNIT_PERCENT | SANE_UNIT_MM

datatype sane_cap = SANE_CAP_SOFT_SELECT | SANE_CAP_SOFT_DETECT | SANE_CAP_INACTIVE

record sane_range =
  r_min :: int
  r_max :: int
  r_quant :: int

text \<open>A word list carries its length in front, as in C.\<close>

datatype sane_constraint =
  CONSTRAINT_NONE
| CONSTRAINT_RANGE sane_range
| CONSTRAINT_WORD_LIST "int list"
| CONSTRAINT_STRING_LIST "string list"

text \<open>The descriptor, without the three texts it shows to the user.\<close>

record option_descriptor =
  o_type :: sane_type
  o_unit :: sane_unit
  o_size :: nat
  o_cap :: "sane_cap set"
  o_constraint :: sane_constraint

section \<open>Parameters and the handle\<close>

datatype sane_frame = SANE_FRAME_GRAY | SANE_FRAME_RGB

record sane_parameters =
  p_format :: sane_frame
  p_last_frame :: bool
  p_bytes_per_line :: int
  p_pixels_per_line :: int
  p_lines :: int
  p_depth :: int

text \<open>\<^verbatim>\<open>Option_Value\<close> is a union; which member an option uses is fixed by its type, so
  the words and the strings are two tables.\<close>

record pantum_handle =
  h_opt :: "pantum_option \<Rightarrow> option_descriptor"
  h_val_w :: "pantum_option \<Rightarrow> int"
  h_val_s :: "pantum_option \<Rightarrow> string option"
  h_params :: sane_parameters
  h_scanning :: bool
  h_locked :: bool
  h_cancelled :: bool
  h_eof :: bool
  h_non_blocking :: bool
  h_has_adf :: bool
  h_feeding :: bool
  h_next_row :: int
  h_threshold :: int
  h_halftone :: bool
  h_white_top :: int
  h_white_bottom :: int
  h_white_left :: int
  h_white_right :: int
  h_gamma :: "byte list"
  h_out :: "byte list"
  h_out_pos :: nat
  h_out_cap :: nat
  h_raw :: "byte list"
  h_raw_cap :: nat
  h_out_alloc :: nat
  h_overrun :: bool

section \<open>Constants\<close>

definition SCAN_MODE_LINEART :: string where "SCAN_MODE_LINEART = ''Lineart''"
definition SCAN_MODE_HALFTONE :: string where "SCAN_MODE_HALFTONE = ''Halftone''"
definition SCAN_MODE_GRAY :: string where "SCAN_MODE_GRAY = ''Gray''"
definition SCAN_MODE_COLOR :: string where "SCAN_MODE_COLOR = ''Color''"
definition SOURCE_NAME_FLATBED :: string where "SOURCE_NAME_FLATBED = ''Flatbed''"
definition SOURCE_NAME_ADF :: string where "SOURCE_NAME_ADF = ''ADF''"
definition SOURCE_NAME_ADF_DUPLEX :: string where "SOURCE_NAME_ADF_DUPLEX = ''ADF Duplex''"

lemmas name_defs =
  SCAN_MODE_LINEART_def SCAN_MODE_HALFTONE_def SCAN_MODE_GRAY_def SCAN_MODE_COLOR_def
  SOURCE_NAME_FLATBED_def SOURCE_NAME_ADF_def SOURCE_NAME_ADF_DUPLEX_def

definition SOURCE_FLATBED :: u32 where "SOURCE_FLATBED = 0x100"
definition SOURCE_ADF :: u32 where "SOURCE_ADF = 0x200"
definition SOURCE_ADF_DUPLEX :: u32 where "SOURCE_ADF_DUPLEX = 0x400"

lemmas source_defs = SOURCE_FLATBED_def SOURCE_ADF_def SOURCE_ADF_DUPLEX_def

definition PANTUM_MAX_X :: int where "PANTUM_MAX_X = 850"
definition PANTUM_MAX_Y :: int where "PANTUM_MAX_Y = 1169"
definition PANTUM_MAX_Y_ADF :: int where "PANTUM_MAX_Y_ADF = 1400"
definition PANTUM_MIN_WINDOW :: int where "PANTUM_MIN_WINDOW = 15"

lemmas window_defs =
  PANTUM_MAX_X_def PANTUM_MAX_Y_def PANTUM_MAX_Y_ADF_def PANTUM_MIN_WINDOW_def

definition mode_list :: "string list" where
  "mode_list = [SCAN_MODE_LINEART, SCAN_MODE_HALFTONE, SCAN_MODE_GRAY, SCAN_MODE_COLOR]"

definition source_list_flatbed :: "string list" where
  "source_list_flatbed = [SOURCE_NAME_FLATBED]"

definition source_list_adf :: "string list" where
  "source_list_adf = [SOURCE_NAME_FLATBED, SOURCE_NAME_ADF, SOURCE_NAME_ADF_DUPLEX]"

definition resolution_list :: "int list" where
  "resolution_list = [5, 75, 150, 300, 600, 1200]"

definition resolution_list_adf :: "int list" where
  "resolution_list_adf = [4, 75, 150, 300, 600]"

text \<open>\<^verbatim>\<open>SANE_FIX (n / d)\<close>: 16.16 fixed point, truncated.\<close>

definition SANE_FIX :: "int \<Rightarrow> int \<Rightarrow> int" where
  "SANE_FIX n d = (n * 65536) sdiv d"

definition threshold_range :: sane_range where
  "threshold_range = \<lparr>r_min = SANE_FIX 0 1, r_max = SANE_FIX 100 1, r_quant = SANE_FIX 1 1\<rparr>"

definition x_range :: sane_range where
  "x_range = \<lparr>r_min = SANE_FIX 0 1, r_max = SANE_FIX (PANTUM_MAX_X * 254) 1000,
              r_quant = SANE_FIX 0 1\<rparr>"

definition y_range :: sane_range where
  "y_range = \<lparr>r_min = SANE_FIX 0 1, r_max = SANE_FIX (PANTUM_MAX_Y * 254) 1000,
              r_quant = SANE_FIX 0 1\<rparr>"

definition y_range_adf :: sane_range where
  "y_range_adf = \<lparr>r_min = SANE_FIX 0 1, r_max = SANE_FIX (PANTUM_MAX_Y_ADF * 254) 1000,
                  r_quant = SANE_FIX 0 1\<rparr>"

lemma SANE_FIX_values [simp]:
  "SANE_FIX 0 1 = 0" "SANE_FIX 1 1 = 65536" "SANE_FIX 50 1 = 3276800" "SANE_FIX 100 1 = 6553600"
  by (simp_all add: SANE_FIX_def signed_divide_int_def)

lemma range_values:
  "threshold_range = \<lparr>r_min = 0, r_max = 6553600, r_quant = 65536\<rparr>"
  "x_range = \<lparr>r_min = 0, r_max = 14149222, r_quant = 0\<rparr>"
  "y_range = \<lparr>r_min = 0, r_max = 19459342, r_quant = 0\<rparr>"
  "y_range_adf = \<lparr>r_min = 0, r_max = 23304601, r_quant = 0\<rparr>"
  by (simp_all add: threshold_range_def x_range_def y_range_def y_range_adf_def window_defs
      SANE_FIX_def signed_divide_int_def)

text \<open>A fresh handle: \<^verbatim>\<open>calloc\<close> has zeroed it. Reading an option table that
  \<^verbatim>\<open>init_options\<close> has not filled yet gives the zero of every field.\<close>

definition zero_descriptor :: option_descriptor where
  "zero_descriptor = \<lparr>o_type = SANE_TYPE_BOOL, o_unit = SANE_UNIT_NONE, o_size = 0, o_cap = {},
     o_constraint = CONSTRAINT_NONE\<rparr>"

definition calloc_handle :: pantum_handle where
  "calloc_handle =
     \<lparr>h_opt = (\<lambda>_. zero_descriptor), h_val_w = (\<lambda>_. 0), h_val_s = (\<lambda>_. None),
      h_params = \<lparr>p_format = SANE_FRAME_GRAY, p_last_frame = False, p_bytes_per_line = 0,
        p_pixels_per_line = 0, p_lines = 0, p_depth = 0\<rparr>,
      h_scanning = False, h_locked = False, h_cancelled = False, h_eof = False,
      h_non_blocking = False, h_has_adf = False, h_feeding = False, h_next_row = 0,
      h_threshold = 0, h_halftone = False, h_white_top = 0, h_white_bottom = 0,
      h_white_left = 0, h_white_right = 0, h_gamma = replicate 256 0,
      h_out = [], h_out_pos = 0, h_out_cap = 0, h_raw = [], h_raw_cap = 0,
      h_out_alloc = 0, h_overrun = False\<rparr>"

end
