(* ===== verification/Options.thy ===== *)
theory Options
  imports Handle
begin

text \<open>
  The option table and the geometry of a scan: \<^verbatim>\<open>init_options\<close>, the accessors
  \<^verbatim>\<open>mode_is\<close>, \<^verbatim>\<open>source_code\<close> and \<^verbatim>\<open>effective_resolution\<close>, \<^verbatim>\<open>compute_window\<close> and
  \<^verbatim>\<open>compute_parameters\<close>, and the frontend's \<^verbatim>\<open>sane_control_option\<close> with the constraint
  it snaps words to.
\<close>

section \<open>Filling the table\<close>

definition pantum_strdup :: "'w env \<Rightarrow> string option \<Rightarrow> 'w \<Rightarrow> string option \<times> 'w" where
  "pantum_strdup E s w =
     (case s of
        None \<Rightarrow> (None, w)
      | Some s \<Rightarrow>
          (case alloc_ok E (length s + 1) w of (ok, w1) \<Rightarrow> (if ok then Some s else None, w1)))"

definition base_descriptor :: option_descriptor where
  "base_descriptor = \<lparr>o_type = SANE_TYPE_INT, o_unit = SANE_UNIT_NONE, o_size = 4,
     o_cap = {SANE_CAP_SOFT_SELECT, SANE_CAP_SOFT_DETECT}, o_constraint = CONSTRAINT_NONE\<rparr>"

fun init_descriptor :: "bool \<Rightarrow> pantum_option \<Rightarrow> option_descriptor" where
  "init_descriptor adf OPT_NUM_OPTS = base_descriptor\<lparr>o_cap := {SANE_CAP_SOFT_DETECT}\<rparr>"
| "init_descriptor adf OPT_MODE_GROUP =
     base_descriptor\<lparr>o_type := SANE_TYPE_GROUP, o_size := 0, o_cap := {}\<rparr>"
| "init_descriptor adf OPT_MODE =
     base_descriptor\<lparr>o_type := SANE_TYPE_STRING, o_size := 16,
       o_constraint := CONSTRAINT_STRING_LIST mode_list\<rparr>"
| "init_descriptor adf OPT_RESOLUTION =
     base_descriptor\<lparr>o_type := SANE_TYPE_INT, o_unit := SANE_UNIT_DPI,
       o_constraint := CONSTRAINT_WORD_LIST resolution_list\<rparr>"
| "init_descriptor adf OPT_SOURCE =
     base_descriptor\<lparr>o_type := SANE_TYPE_STRING, o_size := 16,
       o_constraint := CONSTRAINT_STRING_LIST
         (if adf then source_list_adf else source_list_flatbed)\<rparr>"
| "init_descriptor adf OPT_PREVIEW = base_descriptor\<lparr>o_type := SANE_TYPE_BOOL\<rparr>"
| "init_descriptor adf OPT_THRESHOLD =
     base_descriptor\<lparr>o_type := SANE_TYPE_FIXED, o_unit := SANE_UNIT_PERCENT,
       o_constraint := CONSTRAINT_RANGE threshold_range,
       o_cap := insert SANE_CAP_INACTIVE (o_cap base_descriptor)\<rparr>"
| "init_descriptor adf OPT_GEOMETRY_GROUP =
     base_descriptor\<lparr>o_type := SANE_TYPE_GROUP, o_size := 0, o_cap := {}\<rparr>"
| "init_descriptor adf OPT_TL_X =
     base_descriptor\<lparr>o_type := SANE_TYPE_FIXED, o_unit := SANE_UNIT_MM,
       o_constraint := CONSTRAINT_RANGE x_range\<rparr>"
| "init_descriptor adf OPT_TL_Y =
     base_descriptor\<lparr>o_type := SANE_TYPE_FIXED, o_unit := SANE_UNIT_MM,
       o_constraint := CONSTRAINT_RANGE y_range\<rparr>"
| "init_descriptor adf OPT_BR_X =
     base_descriptor\<lparr>o_type := SANE_TYPE_FIXED, o_unit := SANE_UNIT_MM,
       o_constraint := CONSTRAINT_RANGE x_range\<rparr>"
| "init_descriptor adf OPT_BR_Y =
     base_descriptor\<lparr>o_type := SANE_TYPE_FIXED, o_unit := SANE_UNIT_MM,
       o_constraint := CONSTRAINT_RANGE y_range\<rparr>"

fun init_word :: "pantum_option \<Rightarrow> int" where
  "init_word OPT_NUM_OPTS = NUM_OPTIONS"
| "init_word OPT_RESOLUTION = 300"
| "init_word OPT_THRESHOLD = SANE_FIX 50 1"
| "init_word OPT_TL_X = SANE_FIX 0 1"
| "init_word OPT_TL_Y = SANE_FIX 0 1"
| "init_word OPT_BR_X = r_max x_range"
| "init_word OPT_BR_Y = r_max y_range"
| "init_word _ = 0"

definition init_options :: "'w env \<Rightarrow> pantum_handle \<Rightarrow> 'w \<Rightarrow> pantum_handle \<times> 'w" where
  "init_options E h w =
     (case pantum_strdup E (Some SCAN_MODE_GRAY) w of (mode, w1) \<Rightarrow>
      case pantum_strdup E (Some SOURCE_NAME_FLATBED) w1 of (source, w2) \<Rightarrow>
        (h\<lparr>h_opt := init_descriptor (h_has_adf h),
           h_val_w := init_word,
           h_val_s := ((\<lambda>_. None)(OPT_MODE := mode, OPT_SOURCE := source))\<rparr>, w2))"

section \<open>Reading the options\<close>

definition mode_is :: "pantum_handle \<Rightarrow> string \<Rightarrow> bool" where
  "mode_is h name = (h_val_s h OPT_MODE = Some name)"

definition source_code :: "pantum_handle \<Rightarrow> u32" where
  "source_code h =
     (if h_val_s h OPT_SOURCE = Some SOURCE_NAME_ADF then SOURCE_ADF
      else if h_val_s h OPT_SOURCE = Some SOURCE_NAME_ADF_DUPLEX then SOURCE_ADF_DUPLEX
      else SOURCE_FLATBED)"

definition source_is_adf :: "pantum_handle \<Rightarrow> bool" where
  "source_is_adf h = (source_code h \<noteq> SOURCE_FLATBED)"

definition effective_resolution :: "pantum_handle \<Rightarrow> int" where
  "effective_resolution h =
     (if h_val_w h OPT_PREVIEW \<noteq> 0 then 75
      else
        let dpi = h_val_w h OPT_RESOLUTION in
        if 600 < dpi \<and> source_is_adf h then 600 else dpi)"

section \<open>Geometry\<close>

text \<open>\<^verbatim>\<open>(int)(mm / 0.254 + 0.5)\<close> for \<^verbatim>\<open>mm = fixed_mm / 65536\<close>, over one denominator.\<close>

definition mm_to_units :: "int \<Rightarrow> int" where
  "mm_to_units fixed_mm =
     (let units = (2000 * fixed_mm + 254 * 65536) sdiv (2 * 254 * 65536)
      in if units < 0 then 0 else units)"

definition compute_window :: "pantum_handle \<Rightarrow> int \<times> int \<times> int \<times> int" where
  "compute_window h =
     (let max_y = (if source_is_adf h then PANTUM_MAX_Y_ADF else PANTUM_MAX_Y);
          l = mm_to_units (h_val_w h OPT_TL_X);
          t = mm_to_units (h_val_w h OPT_TL_Y);
          r = mm_to_units (h_val_w h OPT_BR_X);
          b = mm_to_units (h_val_w h OPT_BR_Y);
          (l, r) = (if r < l then (r, l) else (l, r));
          (t, b) = (if b < t then (b, t) else (t, b));
          r = (if PANTUM_MAX_X < r then PANTUM_MAX_X else r);
          b = (if max_y < b then max_y else b);
          l = (if r - l < PANTUM_MIN_WINDOW then r - PANTUM_MIN_WINDOW else l);
          t = (if b - t < PANTUM_MIN_WINDOW then b - PANTUM_MIN_WINDOW else t);
          l = (if l < 0 then 0 else l);
          t = (if t < 0 then 0 else t)
      in (l, t, r, b))"

definition compute_parameters :: "pantum_handle \<Rightarrow> sane_parameters" where
  "compute_parameters h =
     (let dpi = effective_resolution h;
          (left, top, right, bottom) = compute_window h;
          pixels = (right - left) * dpi sdiv 100;
          lines = (bottom - top) * dpi sdiv 100;
          pixels = (if pixels < 1 then 1 else pixels);
          lines = (if lines < 1 then 1 else lines)
      in if mode_is h SCAN_MODE_COLOR then
           \<lparr>p_format = SANE_FRAME_RGB, p_last_frame = True, p_bytes_per_line = pixels * 3,
            p_pixels_per_line = pixels, p_lines = lines, p_depth = 8\<rparr>
         else if mode_is h SCAN_MODE_LINEART \<or> mode_is h SCAN_MODE_HALFTONE then
           \<lparr>p_format = SANE_FRAME_GRAY, p_last_frame = True,
            p_bytes_per_line = (pixels + 7) sdiv 8,
            p_pixels_per_line = pixels, p_lines = lines, p_depth = 1\<rparr>
         else
           \<lparr>p_format = SANE_FRAME_GRAY, p_last_frame = True, p_bytes_per_line = pixels,
            p_pixels_per_line = pixels, p_lines = lines, p_depth = 8\<rparr>)"

section \<open>Setting options\<close>

text \<open>What depends on the mode and the source: the threshold's activity, the range of
  the vertical corners, the resolutions; values out of the new range are pulled back.\<close>

definition update_option_state :: "pantum_handle \<Rightarrow> pantum_handle" where
  "update_option_state h =
     (let adf = source_is_adf h;
          yr = (if adf then y_range_adf else y_range);
          cap = o_cap (h_opt h OPT_THRESHOLD);
          cap = (if mode_is h SCAN_MODE_LINEART then cap - {SANE_CAP_INACTIVE}
                 else insert SANE_CAP_INACTIVE cap);
          opt = (h_opt h)(OPT_THRESHOLD := (h_opt h OPT_THRESHOLD)\<lparr>o_cap := cap\<rparr>);
          opt = opt(OPT_TL_Y := (opt OPT_TL_Y)\<lparr>o_constraint := CONSTRAINT_RANGE yr\<rparr>);
          opt = opt(OPT_BR_Y := (opt OPT_BR_Y)\<lparr>o_constraint := CONSTRAINT_RANGE yr\<rparr>);
          val = h_val_w h;
          val = (if r_max yr < val OPT_TL_Y then val(OPT_TL_Y := r_max yr) else val);
          val = (if r_max yr < val OPT_BR_Y then val(OPT_BR_Y := r_max yr) else val);
          opt = opt(OPT_RESOLUTION := (opt OPT_RESOLUTION)\<lparr>o_constraint :=
                  CONSTRAINT_WORD_LIST (if adf then resolution_list_adf else resolution_list)\<rparr>);
          val = (if adf \<and> 600 < val OPT_RESOLUTION then val(OPT_RESOLUTION := 600) else val)
      in h\<lparr>h_opt := opt, h_val_w := val\<rparr>)"

text \<open>A difference of two words, as 32-bit two's complement.\<close>

definition wrap32 :: "int \<Rightarrow> int" where
  "wrap32 i = (i + 2 ^ 31) mod 2 ^ 32 - 2 ^ 31"

definition word_distance :: "int \<Rightarrow> int \<Rightarrow> int" where
  "word_distance a v = (if v < a then wrap32 (a - v) else wrap32 (v - a))"

fun nearest_loop :: "int \<Rightarrow> int list \<Rightarrow> int \<Rightarrow> int" where
  "nearest_loop v [] best = best"
| "nearest_loop v (x # xs) best =
     (let d1 = word_distance x v; d2 = word_distance best v
      in nearest_loop v xs (if d1 < d2 then x else best))"

definition constrain_range :: "sane_range \<Rightarrow> int \<Rightarrow> int" where
  "constrain_range r v =
     (let out = v;
          out = (if out < r_min r then r_min r else out);
          out = (if r_max r < out then r_max r else out)
      in if r_quant r \<noteq> 0 then
           let steps = (out - r_min r + r_quant r sdiv 2) sdiv r_quant r;
               out = r_min r + steps * r_quant r
           in if r_max r < out then r_max r else out
         else out)"

text \<open>The loop runs over the elements 1 to \<^verbatim>\<open>list[0]\<close>.\<close>

definition constrain_list :: "int list \<Rightarrow> int \<Rightarrow> int" where
  "constrain_list list v = nearest_loop v (take (nat (list ! 0)) (tl list)) (list ! 1)"

text \<open>The second component is what the caller's \<^verbatim>\<open>*inexact\<close> becomes when it was false.\<close>

definition constrain_word :: "option_descriptor \<Rightarrow> int \<Rightarrow> int \<times> bool" where
  "constrain_word d v =
     (let out = (case o_constraint d of
                   CONSTRAINT_RANGE r \<Rightarrow> constrain_range r v
                 | CONSTRAINT_WORD_LIST list \<Rightarrow> constrain_list list v
                 | _ \<Rightarrow> v)
      in (out, out \<noteq> v))"

datatype sane_action = SANE_ACTION_GET_VALUE | SANE_ACTION_SET_VALUE | SANE_ACTION_SET_AUTO

datatype sane_info = SANE_INFO_INEXACT | SANE_INFO_RELOAD_OPTIONS | SANE_INFO_RELOAD_PARAMS

text \<open>The frontend's buffer behind \<^verbatim>\<open>void *value\<close>, which the backend reads or writes as a
  word or as a string; \<open>None\<close> is a null pointer.\<close>

record value_buffer =
  vb_word :: int
  vb_string :: string

text \<open>What a call leaves behind: the status, the buffer, and \<^verbatim>\<open>*info\<close> (\<open>None\<close>: not
  written).\<close>

record control_result =
  r_status :: sane_status
  r_value :: "value_buffer option"
  r_info :: "sane_info set option"

definition get_value ::
  "pantum_handle \<Rightarrow> pantum_option \<Rightarrow> value_buffer \<Rightarrow> sane_status \<times> value_buffer" where
  "get_value h opt value =
     (let d = h_opt h opt in
      if o_type d = SANE_TYPE_GROUP then (SANE_STATUS_INVAL, value)
      else if o_type d = SANE_TYPE_STRING then
        (SANE_STATUS_GOOD, value\<lparr>vb_string := (case h_val_s h opt of None \<Rightarrow> [] | Some s \<Rightarrow> s)\<rparr>)
      else (SANE_STATUS_GOOD, value\<lparr>vb_word := h_val_w h opt\<rparr>))"

definition set_string ::
  "'w env \<Rightarrow> pantum_handle \<Rightarrow> pantum_option \<Rightarrow> string \<Rightarrow> 'w
   \<Rightarrow> (sane_status \<times> sane_info set) \<times> pantum_handle \<times> 'w" where
  "set_string E h opt want w =
     (case o_constraint (h_opt h opt) of
        CONSTRAINT_STRING_LIST list \<Rightarrow>
          (case find (\<lambda>x. same_nocase x want) list of
             None \<Rightarrow> ((SANE_STATUS_INVAL, {}), h, w)
           | Some x \<Rightarrow>
               (case pantum_strdup E (Some x) w of (s, w1) \<Rightarrow>
                  let h1 = h\<lparr>h_val_s := (h_val_s h)(opt := s)\<rparr> in
                  if s = None then ((SANE_STATUS_NO_MEM, {}), h1, w1)
                  else if opt = OPT_MODE \<or> opt = OPT_SOURCE then
                    ((SANE_STATUS_GOOD, {SANE_INFO_RELOAD_OPTIONS, SANE_INFO_RELOAD_PARAMS}),
                     update_option_state h1, w1)
                  else ((SANE_STATUS_GOOD, {}), h1, w1)))
      | _ \<Rightarrow> ((SANE_STATUS_INVAL, {}), h, w))"

definition set_word ::
  "pantum_handle \<Rightarrow> pantum_option \<Rightarrow> value_buffer \<Rightarrow> value_buffer \<times> sane_info set \<times> pantum_handle"
where
  "set_word h opt value =
     (let d = h_opt h opt;
          v = vb_word value;
          (v, inexact) = (if o_type d = SANE_TYPE_BOOL then (if v \<noteq> 0 then 1 else 0, False)
                          else constrain_word d v);
          value = (if inexact then value\<lparr>vb_word := v\<rparr> else value);
          info = (if inexact then {SANE_INFO_INEXACT} else {});
          info = (if opt \<in> {OPT_RESOLUTION, OPT_PREVIEW, OPT_TL_X, OPT_TL_Y, OPT_BR_X, OPT_BR_Y}
                  then insert SANE_INFO_RELOAD_PARAMS info else info)
      in (value, info, h\<lparr>h_val_w := (h_val_w h)(opt := v)\<rparr>))"

text \<open>\<^verbatim>\<open>sane_control_option\<close> on a handle the backend knows. \<open>r_info\<close> is what a non-null
  \<^verbatim>\<open>info\<close> receives.\<close>

definition control_option ::
  "'w env \<Rightarrow> pantum_handle \<Rightarrow> int \<Rightarrow> sane_action \<Rightarrow> value_buffer option \<Rightarrow> 'w
   \<Rightarrow> control_result \<times> pantum_handle \<times> 'w" where
  "control_option E h option action value w =
     (case option_at option of
        None \<Rightarrow> (\<lparr>r_status = SANE_STATUS_INVAL, r_value = value, r_info = None\<rparr>, h, w)
      | Some opt \<Rightarrow>
        if h_scanning h then
          (\<lparr>r_status = SANE_STATUS_DEVICE_BUSY, r_value = value, r_info = None\<rparr>, h, w)
        else if SANE_CAP_INACTIVE \<in> o_cap (h_opt h opt) then
          (\<lparr>r_status = SANE_STATUS_INVAL, r_value = value, r_info = Some {}\<rparr>, h, w)
        else
          (case action of
             SANE_ACTION_GET_VALUE \<Rightarrow>
               (case value of
                  None \<Rightarrow> (\<lparr>r_status = SANE_STATUS_INVAL, r_value = None, r_info = Some {}\<rparr>, h, w)
                | Some v \<Rightarrow>
                    (case get_value h opt v of (st, v1) \<Rightarrow>
                       (\<lparr>r_status = st, r_value = Some v1, r_info = Some {}\<rparr>, h, w)))
           | SANE_ACTION_SET_VALUE \<Rightarrow>
               (case value of
                  None \<Rightarrow> (\<lparr>r_status = SANE_STATUS_INVAL, r_value = None, r_info = Some {}\<rparr>, h, w)
                | Some v \<Rightarrow>
                    if SANE_CAP_SOFT_SELECT \<notin> o_cap (h_opt h opt) then
                      (\<lparr>r_status = SANE_STATUS_INVAL, r_value = value, r_info = Some {}\<rparr>, h, w)
                    else if o_type (h_opt h opt) = SANE_TYPE_STRING then
                      (case set_string E h opt (vb_string v) w of ((st, info), h1, w1) \<Rightarrow>
                         (\<lparr>r_status = st, r_value = value, r_info = Some info\<rparr>, h1, w1))
                    else
                      (case set_word h opt v of (v1, info, h1) \<Rightarrow>
                         (\<lparr>r_status = SANE_STATUS_GOOD, r_value = Some v1, r_info = Some info\<rparr>,
                          h1, w)))
           | SANE_ACTION_SET_AUTO \<Rightarrow>
               (\<lparr>r_status = SANE_STATUS_UNSUPPORTED, r_value = value, r_info = Some {}\<rparr>, h, w)))"

end
