(* ===== verification/Config.thy ===== *)
theory Config
  imports Options
begin

text \<open>
  The configuration file of the scanner backend (\<^verbatim>\<open>add_id\<close>,
  \<^verbatim>\<open>parse_config_line\<close>, \<^verbatim>\<open>read_config_file\<close>, \<^verbatim>\<open>read_config\<close>), with
  the C library functions it rests on: \<^verbatim>\<open>isspace\<close>, \<^verbatim>\<open>sscanf\<close> with
  \<^verbatim>\<open>%i\<close>, \<^verbatim>\<open>fgets\<close> and \<^verbatim>\<open>strtok_r\<close>. A C string is the list of the
  characters in front of its zero byte.
\<close>

section \<open>The C library\<close>

definition isspace :: "char \<Rightarrow> bool" where
  "isspace c \<longleftrightarrow> (of_char c :: nat) \<in> {9..13} \<or> (of_char c :: nat) = 32"

definition digit_value :: "char \<Rightarrow> nat option" where
  "digit_value c =
     (let n = of_char c :: nat in
      if 48 \<le> n \<and> n \<le> 57 then Some (n - 48)
      else if 97 \<le> n \<and> n \<le> 102 then Some (n - 87)
      else if 65 \<le> n \<and> n \<le> 70 then Some (n - 55) else None)"

text \<open>The digits of a number in some base, and what follows them.\<close>

fun scan_digits :: "nat \<Rightarrow> nat \<Rightarrow> string \<Rightarrow> nat \<times> string" where
  "scan_digits base n [] = (n, [])"
| "scan_digits base n (c # cs) =
     (case digit_value c of
        Some d \<Rightarrow> if d < base then scan_digits base (n * base + d) cs else (n, c # cs)
      | None \<Rightarrow> (n, c # cs))"

definition starts_digit :: "nat \<Rightarrow> string \<Rightarrow> bool" where
  "starts_digit base s = (case s of [] \<Rightarrow> False | c # cs \<Rightarrow>
     (case digit_value c of Some d \<Rightarrow> d < base | None \<Rightarrow> False))"

text \<open>The number behind sign and white space: 0x is hexadecimal, 0 octal, else decimal.\<close>

definition scan_number :: "string \<Rightarrow> (nat \<times> string) option" where
  "scan_number s =
     (if take 2 s = ''0x'' \<or> take 2 s = ''0X''
      then (if starts_digit 16 (drop 2 s) then Some (scan_digits 16 0 (drop 2 s)) else None)
      else if take 1 s = ''0'' then Some (scan_digits 8 0 s)
      else if starts_digit 10 s then Some (scan_digits 10 0 s) else None)"

text \<open>One \<^verbatim>\<open>%i\<close>. As in glibc the number saturates as a \<^verbatim>\<open>long\<close> and its low 32 bits are
  stored.\<close>

definition scan_int :: "string \<Rightarrow> (int \<times> string) option" where
  "scan_int s =
     (let s = dropWhile isspace s;
          neg = (take 1 s = ''-'');
          s = (if take 1 s = ''-'' \<or> take 1 s = ''+'' then drop 1 s else s)
      in case scan_number s of
           None \<Rightarrow> None
         | Some (n, rest) \<Rightarrow>
             let v = (if neg then max (- (2 ^ 63)) (- int n) else min (2 ^ 63 - 1) (int n))
             in Some (signed_take_bit 31 v, rest))"

text \<open>\<^verbatim>\<open>fgets\<close> with a buffer of \<open>n\<close> bytes: up to the end of the line, and at most
  \<open>n - 1\<close> characters.\<close>

definition fgets :: "nat \<Rightarrow> string \<Rightarrow> string" where
  "fgets n s =
     (let l = takeWhile (\<lambda>c. c \<noteq> CHR 0x0A) s;
          l = (if length l < length s then l @ [CHR 0x0A] else l)
      in take (n - 1) l)"

lemma fgets_progress: "2 \<le> n \<Longrightarrow> s \<noteq> [] \<Longrightarrow> fgets n s \<noteq> []"
  by (cases s) (auto simp: fgets_def Let_def)

function file_lines :: "string \<Rightarrow> string list" where
  "file_lines s = (if s = [] then [] else fgets 512 s # file_lines (drop (length (fgets 512 s)) s))"
  by pat_completeness auto
termination
  by (relation "measure length") (auto simp: fgets_progress)

declare file_lines.simps [simp del]

text \<open>\<^verbatim>\<open>strtok_r\<close> with one separator: the pieces between separators that are not empty.\<close>

fun tokens_from :: "char \<Rightarrow> string \<Rightarrow> string \<Rightarrow> string list" where
  "tokens_from sep tok [] = (if tok = [] then [] else [tok])"
| "tokens_from sep tok (c # cs) =
     (if c = sep then (if tok = [] then [] else [tok]) @ tokens_from sep [] cs
      else tokens_from sep (tok @ [c]) cs)"

definition strtok :: "char \<Rightarrow> string \<Rightarrow> string list" where
  "strtok sep s = tokens_from sep [] s"

section \<open>The id list\<close>

text \<open>\<open>id_model\<close> is \<open>None\<close> when \<^verbatim>\<open>pantum_strdup\<close> found no memory.\<close>

record usb_id =
  id_vid :: u16
  id_pid :: u16
  id_model :: "string option"

text \<open>What the process sees of the system: its environment variables and the files it can
  read; \<open>sizeof\<close> gives the size of a structure by its name.\<close>

record sys_env =
  getenv :: "string \<Rightarrow> string option"
  fopen :: "string \<Rightarrow> string option"
  sizeof :: "string \<Rightarrow> nat"

definition add_id ::
  "sys_env \<Rightarrow> 'w env \<Rightarrow> u16 \<Rightarrow> u16 \<Rightarrow> string \<Rightarrow> usb_id list \<Rightarrow> 'w \<Rightarrow> usb_id list \<times> 'w" where
  "add_id S E vid pid model ids w =
     (case alloc_ok E (sizeof S ''Pantum_Id'') w of (ok, w) \<Rightarrow>
        if \<not> ok then (ids, w)
        else case pantum_strdup E (Some (if model \<noteq> [] then model else ''M6500 series'')) w of (name, w) \<Rightarrow>
          (\<lparr>id_vid = vid, id_pid = pid, id_model = name\<rparr> # ids, w))"

definition skip_word :: "string \<Rightarrow> string" where
  "skip_word p = dropWhile (\<lambda>c. \<not> isspace c) (dropWhile isspace p)"

definition parse_config_line ::
  "sys_env \<Rightarrow> 'w env \<Rightarrow> string \<Rightarrow> usb_id list \<Rightarrow> 'w \<Rightarrow> usb_id list \<times> 'w" where
  "parse_config_line S E line ids w =
     (let p = dropWhile isspace line in
      if take 1 p = ''#'' \<or> p = [] then (ids, w)
      else if take 3 p \<noteq> ''usb'' then (ids, w)
      else
        let p = drop 3 p in
        case scan_int p of
          None \<Rightarrow> (ids, w)
        | Some (vid, rest) \<Rightarrow>
            (case scan_int rest of
               None \<Rightarrow> (ids, w)
             | Some (pid, _) \<Rightarrow>
                 if vid < 0 \<or> 0xffff < vid \<or> pid < 0 \<or> 0xffff < pid then (ids, w)
                 else
                   let p = dropWhile isspace (skip_word (skip_word p));
                       model = rev (dropWhile isspace (rev p))
                   in add_id S E (word_of_int vid) (word_of_int pid) model ids w))"

fun parse_config_lines ::
  "sys_env \<Rightarrow> 'w env \<Rightarrow> string list \<Rightarrow> usb_id list \<Rightarrow> 'w \<Rightarrow> usb_id list \<times> 'w" where
  "parse_config_lines S E [] ids w = (ids, w)"
| "parse_config_lines S E (line # lines) ids w =
     (case parse_config_line S E (takeWhile (\<lambda>c. c \<noteq> CHR 0x00) line) ids w of
        (ids, w) \<Rightarrow> parse_config_lines S E lines ids w)"

definition PANTUM_CONFIG_FILE :: string where "PANTUM_CONFIG_FILE = ''pantum.conf''"
definition PANTUM_CONFIG_DIR :: string where "PANTUM_CONFIG_DIR = ''/etc/sane.d''"

definition read_config_file ::
  "sys_env \<Rightarrow> 'w env \<Rightarrow> string \<Rightarrow> usb_id list \<Rightarrow> 'w \<Rightarrow> bool \<times> usb_id list \<times> 'w" where
  "read_config_file S E dir ids w =
     (let path = dir @ ''/'' @ PANTUM_CONFIG_FILE in
      if 1024 \<le> length path then (False, ids, w)
      else case fopen S path of
        None \<Rightarrow> (False, ids, w)
      | Some text \<Rightarrow>
          (case parse_config_lines S E (file_lines text) ids w of (ids, w) \<Rightarrow> (True, ids, w)))"

text \<open>Every directory of the search path is read.\<close>

fun read_config_dirs ::
  "sys_env \<Rightarrow> 'w env \<Rightarrow> string list \<Rightarrow> bool \<Rightarrow> usb_id list \<Rightarrow> 'w \<Rightarrow> bool \<times> usb_id list \<times> 'w" where
  "read_config_dirs S E [] found ids w = (found, ids, w)"
| "read_config_dirs S E (dir # dirs) found ids w =
     (case read_config_file S E dir ids w of (ok, ids, w) \<Rightarrow>
        read_config_dirs S E dirs (found \<or> ok) ids w)"

definition read_config :: "sys_env \<Rightarrow> 'w env \<Rightarrow> usb_id list \<Rightarrow> 'w \<Rightarrow> usb_id list \<times> 'w" where
  "read_config S E ids w =
     (case (case getenv S ''SANE_CONFIG_DIR'' of
              Some env \<Rightarrow>
                if env \<noteq> [] then
                  (case pantum_strdup E (Some env) w of
                     (None, w) \<Rightarrow> (False, ids, w)
                   | (Some copy, w) \<Rightarrow> read_config_dirs S E (strtok (CHR '':'') copy) False ids w)
                else (False, ids, w)
            | None \<Rightarrow> (False, ids, w)) of (found, ids, w) \<Rightarrow>
      case (if \<not> found then read_config_file S E PANTUM_CONFIG_DIR ids w else (found, ids, w)) of
        (found, ids, w) \<Rightarrow>
          if \<not> found then add_id S E 0x232b 0x0e20 ''M6500 series'' ids w else (ids, w))"

end
