(* ===== verification/Dither.thy ===== *)
theory Dither
  imports Transport
begin

text \<open>
  The blue-noise threshold mask of halftone mode (\<^verbatim>\<open>build_dither_mask\<close>). The arithmetic
  of C \<^verbatim>\<open>float\<close> is a parameter: nothing proved here depends on what the energies are,
  only on the search always finding a cell.
\<close>

unbundle bit_operations_syntax

section \<open>The code\<close>

definition DITHER_SIZE :: nat where "DITHER_SIZE = 128"
definition DITHER_CELLS :: nat where "DITHER_CELLS = DITHER_SIZE * DITHER_SIZE"
definition DITHER_RADIUS :: int where "DITHER_RADIUS = 8"
definition DITHER_KERNEL :: int where "DITHER_KERNEL = 2 * DITHER_RADIUS + 1"
definition DITHER_SEED :: u32 where "DITHER_SEED = 0x9e3779b9"

text \<open>\<open>f_gauss r\<close> is \<^verbatim>\<open>(float)exp (-(double)r / (2.0 * DITHER_SIGMA * DITHER_SIGMA))\<close>.\<close>

record 'f float_ops =
  f_zero :: 'f
  f_add :: "'f \<Rightarrow> 'f \<Rightarrow> 'f"
  f_sub :: "'f \<Rightarrow> 'f \<Rightarrow> 'f"
  f_less :: "'f \<Rightarrow> 'f \<Rightarrow> bool"
  f_gauss :: "int \<Rightarrow> 'f"

record 'f dither_state =
  d_pattern :: "byte list"
  d_energy :: "'f list"

definition dither_kernel :: "'f float_ops \<Rightarrow> 'f list" where
  "dither_kernel F =
     concat (map (\<lambda>dy. map (\<lambda>dx. f_gauss F (dx * dx + dy * dy)) [- DITHER_RADIUS .. DITHER_RADIUS])
       [- DITHER_RADIUS .. DITHER_RADIUS])"

definition dither_toggle ::
  "'f float_ops \<Rightarrow> 'f list \<Rightarrow> nat \<Rightarrow> bool \<Rightarrow> 'f dither_state \<Rightarrow> 'f dither_state" where
  "dither_toggle F kern cell on s =
     (let cx = int (cell mod DITHER_SIZE);
          cy = int (cell div DITHER_SIZE);
          energy = fold (\<lambda>dy.
            let row = nat ((cy + dy) mod int DITHER_SIZE) * DITHER_SIZE;
                k = nat ((dy + DITHER_RADIUS) * DITHER_KERNEL + DITHER_RADIUS)
            in fold (\<lambda>dx energy.
                 let col = nat ((cx + dx) mod int DITHER_SIZE);
                     kv = kern ! nat (int k + dx);
                     e = energy ! (row + col)
                 in energy[row + col := (if on then f_add F e kv else f_sub F e kv)])
               [- DITHER_RADIUS .. DITHER_RADIUS])
            [- DITHER_RADIUS .. DITHER_RADIUS] (d_energy s)
      in s\<lparr>d_pattern := (d_pattern s)[cell := (if on then 1 else 0)], d_energy := energy\<rparr>)"

text \<open>The first cell of the wanted colour with the extreme energy, or -1.\<close>

definition dither_extreme :: "'f float_ops \<Rightarrow> 'f dither_state \<Rightarrow> byte \<Rightarrow> bool \<Rightarrow> int" where
  "dither_extreme F s want biggest =
     fst (fold (\<lambda>i (best, best_e).
       if d_pattern s ! i \<noteq> want then (best, best_e)
       else if best < 0 \<or> (if biggest then f_less F best_e (d_energy s ! i)
                            else f_less F (d_energy s ! i) best_e)
            then (int i, d_energy s ! i) else (best, best_e))
       [0..<DITHER_CELLS] (- 1, f_zero F))"

text \<open>One round of the xorshift generator.\<close>

definition xorshift :: "u32 \<Rightarrow> u32" where
  "xorshift rnd =
     (let rnd = rnd XOR push_bit 13 rnd; rnd = rnd XOR drop_bit 17 rnd
      in rnd XOR push_bit 5 rnd)"

text \<open>Placing the starting points; a cell that is taken costs a round.\<close>

partial_function (option) dither_seed ::
  "'f float_ops \<Rightarrow> 'f list \<Rightarrow> nat \<Rightarrow> nat \<Rightarrow> u32 \<Rightarrow> 'f dither_state \<Rightarrow> 'f dither_state option" where
  "dither_seed F kern ones placed rnd s =
     (if placed < ones then
        let rnd = xorshift rnd; cell = unat (rnd mod of_nat DITHER_CELLS)
        in if d_pattern s ! cell \<noteq> 0 then dither_seed F kern ones placed rnd s
           else dither_seed F kern ones (placed + 1) rnd (dither_toggle F kern cell True s)
      else Some s)"

text \<open>Moving points from the tightest cluster to the largest void until they are one.\<close>

partial_function (option) dither_prototype ::
  "'f float_ops \<Rightarrow> 'f list \<Rightarrow> 'f dither_state \<Rightarrow> 'f dither_state option" where
  "dither_prototype F kern s =
     (let cluster = dither_extreme F s 1 True in
      if cluster < 0 then Some s
      else
        let s1 = dither_toggle F kern (nat cluster) False s;
            hole = dither_extreme F s1 0 False
        in if hole < 0 then Some (dither_toggle F kern (nat cluster) True s1)
           else
             let s2 = dither_toggle F kern (nat hole) True s1
             in if hole = cluster then Some s2 else dither_prototype F kern s2)"

text \<open>The two ranking loops: thinning \<open>i\<close> points from rank \<open>i - 1\<close> down, filling the ranks
  of the list.\<close>

primrec dither_thin ::
  "'f float_ops \<Rightarrow> 'f list \<Rightarrow> nat \<Rightarrow> 'f dither_state \<Rightarrow> u16 list \<Rightarrow> 'f dither_state \<times> u16 list" where
  "dither_thin F kern 0 s rank = (s, rank)"
| "dither_thin F kern (Suc i) s rank =
     (let cluster = dither_extreme F s 1 True in
      if cluster < 0 then (s, rank)
      else dither_thin F kern i (dither_toggle F kern (nat cluster) False s)
             (rank[nat cluster := of_nat i]))"

primrec dither_fill ::
  "'f float_ops \<Rightarrow> 'f list \<Rightarrow> nat list \<Rightarrow> 'f dither_state \<Rightarrow> u16 list \<Rightarrow> 'f dither_state \<times> u16 list" where
  "dither_fill F kern [] s rank = (s, rank)"
| "dither_fill F kern (i # is) s rank =
     (let hole = dither_extreme F s 0 False in
      if hole < 0 then (s, rank)
      else dither_fill F kern is (dither_toggle F kern (nat hole) True s)
             (rank[nat hole := of_nat i]))"

text \<open>From the prototype pattern to the mask: thin, rebuild, fill, spread the ranks.\<close>

definition clear_state :: "'f float_ops \<Rightarrow> 'f dither_state" where
  "clear_state F = \<lparr>d_pattern = replicate DITHER_CELLS 0, d_energy = replicate DITHER_CELLS (f_zero F)\<rparr>"

definition dither_ranks ::
  "'f float_ops \<Rightarrow> 'f list \<Rightarrow> nat \<Rightarrow> 'f dither_state \<Rightarrow> u16 list" where
  "dither_ranks F kern ones s =
     (let proto = d_pattern s;
          (s, rank) = dither_thin F kern ones s (replicate DITHER_CELLS 0);
          s = clear_state F;
          s = fold (\<lambda>i s. if proto ! i \<noteq> 0 then dither_toggle F kern i True s else s) [0..<DITHER_CELLS] s
      in snd (dither_fill F kern [ones..<DITHER_CELLS] s rank))"

definition spread_ranks :: "u16 list \<Rightarrow> byte list" where
  "spread_ranks rank = map (\<lambda>r. ucast (1 + ((ucast r :: u32) * 255) div of_nat DITHER_CELLS)) rank"

text \<open>The four allocations are made before any is checked. \<open>mask\<close> is the process-wide
  mask once it is built.\<close>

definition build_dither_mask ::
  "'f float_ops \<Rightarrow> 'w env \<Rightarrow> byte list option \<Rightarrow> 'w \<Rightarrow> ((sane_status \<times> byte list option) \<times> 'w) option" where
  "build_dither_mask F E dmask w =
     (case dmask of Some m \<Rightarrow> Some ((SANE_STATUS_GOOD, Some m), w)
      | None \<Rightarrow>
        let (a, w1) = alloc_ok E DITHER_CELLS w;
            (b, w2) = alloc_ok E (4 * DITHER_CELLS) w1;
            (c, w3) = alloc_ok E DITHER_CELLS w2;
            (d, w4) = alloc_ok E (2 * DITHER_CELLS) w3
        in if \<not> (a \<and> b \<and> c \<and> d) then Some ((SANE_STATUS_NO_MEM, None), w4)
           else
             let kern = dither_kernel F; ones = DITHER_CELLS div 10
             in case dither_seed F kern ones 0 DITHER_SEED (clear_state F) of
                  None \<Rightarrow> None
                | Some s \<Rightarrow>
                   (case dither_prototype F kern s of
                      None \<Rightarrow> None
                    | Some s \<Rightarrow>
                        Some ((SANE_STATUS_GOOD, Some (spread_ranks (dither_ranks F kern ones s))), w4)))"


section \<open>The mask uses every threshold evenly\<close>

lemma toggle_pattern [simp]:
  "d_pattern (dither_toggle F kern c b s) = (d_pattern s)[c := (if b then 1 else 0)]"
  by (simp add: dither_toggle_def Let_def)

text \<open>The search finds a cell of the wanted colour whenever there is one.\<close>

lemma dither_extreme_finds:
  assumes "r = dither_extreme F s want biggest"
  shows "r < 0 \<Longrightarrow> i < DITHER_CELLS \<Longrightarrow> d_pattern s ! i \<noteq> want"
    "\<not> r < 0 \<Longrightarrow> nat r < DITHER_CELLS \<and> d_pattern s ! nat r = want"
proof -
  define step where "step = (\<lambda>i (best :: int, best_e).
       if d_pattern s ! i \<noteq> want then (best, best_e)
       else if best < 0 \<or> (if biggest then f_less F best_e (d_energy s ! i)
                            else f_less F (d_energy s ! i) best_e)
            then (int i, d_energy s ! i) else (best, best_e))"
  have inv: "fst (fold step [0..<n] (- 1, f_zero F)) < 0 \<and> (\<forall>i < n. d_pattern s ! i \<noteq> want)
      \<or> 0 \<le> fst (fold step [0..<n] (- 1, f_zero F)) \<and> nat (fst (fold step [0..<n] (- 1, f_zero F))) < n
        \<and> d_pattern s ! nat (fst (fold step [0..<n] (- 1, f_zero F))) = want" for n
  proof (induction n)
    case 0
    then show ?case by simp
  next
    case (Suc n)
    obtain b e where p: "fold step [0..<n] (- 1, f_zero F) = (b, e)" by (metis surj_pair)
    show ?case
      using Suc unfolding upt_Suc_append [OF le0] fold_append fold_simps o_apply p
      by (auto simp: step_def less_Suc_eq)
  qed
  have "r = fst (fold step [0..<DITHER_CELLS] (- 1, f_zero F))"
    unfolding assms by (simp add: dither_extreme_def step_def)
  with inv [of DITHER_CELLS] show "r < 0 \<Longrightarrow> i < DITHER_CELLS \<Longrightarrow> d_pattern s ! i \<noteq> want"
    "\<not> r < 0 \<Longrightarrow> nat r < DITHER_CELLS \<and> d_pattern s ! nat r = want"
    by auto
qed

definition cells_of :: "byte \<Rightarrow> byte list \<Rightarrow> nat set" where
  "cells_of v pat = {i. i < DITHER_CELLS \<and> pat ! i = v}"

lemma finite_cells_of [simp]: "finite (cells_of v pat)"
  by (simp add: cells_of_def)

lemma cells_of_toggle:
  assumes "length pat = DITHER_CELLS" "c \<in> cells_of v pat" "v \<noteq> u"
  shows "cells_of v (pat[c := u]) = cells_of v pat - {c}"
  using assms by (auto simp: cells_of_def nth_list_update)

lemma extreme_in_cells:
  assumes "cells_of want (d_pattern s) \<noteq> {}"
  shows "\<not> dither_extreme F s want big < 0" "nat (dither_extreme F s want big) \<in> cells_of want (d_pattern s)"
proof -
  show "\<not> dither_extreme F s want big < 0"
    using assms dither_extreme_finds(1) [OF refl, of F s want big] by (auto simp: cells_of_def)
  then show "nat (dither_extreme F s want big) \<in> cells_of want (d_pattern s)"
    using dither_extreme_finds(2) [OF refl, of F s want big] by (simp add: cells_of_def)
qed

text \<open>Ranks handed out to a set of cells: one each, from \<open>a\<close> up to \<open>b\<close>, the others untouched.\<close>

definition ranked :: "nat set \<Rightarrow> nat set \<Rightarrow> u16 list \<Rightarrow> u16 list \<Rightarrow> bool" where
  "ranked S R rank rank' \<longleftrightarrow> length rank' = length rank
     \<and> bij_betw (\<lambda>c. unat (rank' ! c)) S R \<and> (\<forall>c. c \<notin> S \<longrightarrow> rank' ! c = rank ! c)"

lemma ranked_empty: "ranked {} {} rank rank"
  by (simp add: ranked_def bij_betw_def)

lemma ranked_insert:
  assumes "ranked (S - {c}) R (rank[c := of_nat i]) rank'" "c \<in> S" "c < length rank" "i < 2 ^ 16" "i \<notin> R"
  shows "ranked S (insert i R) rank rank'"
proof -
  from assms(1) have 1: "length rank' = length rank" "bij_betw (\<lambda>c. unat (rank' ! c)) (S - {c}) R"
    "\<forall>d. d \<notin> S - {c} \<longrightarrow> rank' ! d = rank[c := of_nat i] ! d"
    by (auto simp: ranked_def)
  have c: "unat (rank' ! c) = i"
    using 1(3) assms(3,4) by (simp add: unsigned_of_nat take_bit_nat_eq_self)
  have "bij_betw (\<lambda>c. unat (rank' ! c)) ((S - {c}) \<union> {c}) (R \<union> {unat (rank' ! c)})"
    by (rule notIn_Un_bij_betw) (use 1(2) c assms(5) in simp_all)
  moreover have "(S - {c}) \<union> {c} = S" using assms(2) by auto
  ultimately have "bij_betw (\<lambda>c. unat (rank' ! c)) S (insert i R)" using c by simp
  moreover have "\<forall>d. d \<notin> S \<longrightarrow> rank' ! d = rank ! d"
    using 1(3) assms(2) by (metis DiffD1 nth_list_update_neq)
  ultimately show ?thesis using 1(1) by (simp add: ranked_def)
qed

lemma dither_thin_ranks:
  "length (d_pattern s) = DITHER_CELLS \<Longrightarrow> length rank = DITHER_CELLS \<Longrightarrow>
   card (cells_of 1 (d_pattern s)) = n \<Longrightarrow> n \<le> 2 ^ 16 \<Longrightarrow> dither_thin F kern n s rank = (s', rank') \<Longrightarrow>
   ranked (cells_of 1 (d_pattern s)) {..<n} rank rank'"
proof (induction n arbitrary: s rank)
  case 0
  then show ?case by (simp add: ranked_empty)
next
  case (Suc n)
  define c where "c = nat (dither_extreme F s 1 True)"
  have "cells_of 1 (d_pattern s) \<noteq> {}" using Suc.prems(3) by auto
  note e = extreme_in_cells [OF this, of F True, folded c_def]
  note t = cells_of_toggle [OF Suc.prems(1) e(2), of 0, simplified]
  have d: "dither_thin F kern n (dither_toggle F kern c False s) (rank[c := of_nat n]) = (s', rank')"
    using Suc.prems(5) e(1) by (simp add: Let_def c_def)
  have "ranked (cells_of 1 (d_pattern s) - {c}) {..<n} (rank[c := of_nat n]) rank'"
    using Suc.IH [OF _ _ _ _ d] Suc.prems(1,2,3,4) e(2) by (simp add: t)
  then have "ranked (cells_of 1 (d_pattern s)) (insert n {..<n}) rank rank'"
    by (rule ranked_insert) (use e(2) Suc.prems(2,4) in \<open>auto simp: cells_of_def\<close>)
  then show ?case by (simp add: lessThan_Suc)
qed

lemma dither_fill_ranks:
  "length (d_pattern s) = DITHER_CELLS \<Longrightarrow> length rank = DITHER_CELLS \<Longrightarrow>
   card (cells_of 0 (d_pattern s)) = n \<Longrightarrow> i + n \<le> 2 ^ 16 \<Longrightarrow>
   dither_fill F kern [i..<i + n] s rank = (s', rank') \<Longrightarrow>
   ranked (cells_of 0 (d_pattern s)) {i..<i + n} rank rank'"
proof (induction n arbitrary: i s rank)
  case 0
  then show ?case by (simp add: ranked_empty)
next
  case (Suc n)
  define c where "c = nat (dither_extreme F s 0 False)"
  have "cells_of 0 (d_pattern s) \<noteq> {}" using Suc.prems(3) by auto
  note e = extreme_in_cells [OF this, of F False, folded c_def]
  note t = cells_of_toggle [OF Suc.prems(1) e(2), of 1, simplified]
  have d: "dither_fill F kern [Suc i..<Suc i + n] (dither_toggle F kern c True s) (rank[c := of_nat i]) = (s', rank')"
  proof -
    have "[i..<i + Suc n] = i # [Suc i..<Suc i + n]" by (simp add: upt_conv_Cons)
    from Suc.prems(5) [unfolded this] e(1) show ?thesis by (simp add: Let_def c_def)
  qed
  have "ranked (cells_of 0 (d_pattern s) - {c}) {Suc i..<Suc i + n} (rank[c := of_nat i]) rank'"
    using Suc.IH [OF _ _ _ _ d] Suc.prems(1,2,3,4) e(2) by (simp add: t)
  then have "ranked (cells_of 0 (d_pattern s)) (insert i {Suc i..<Suc i + n}) rank rank'"
    by (rule ranked_insert) (use e(2) Suc.prems(2,4) in \<open>auto simp: cells_of_def\<close>)
  moreover have "insert i {Suc i..<Suc i + n} = {i..<i + Suc n}" by auto
  ultimately show ?case by simp
qed

lemma pattern_cell: "set pat \<subseteq> {0, 1} \<Longrightarrow> i < length pat \<Longrightarrow> pat ! i = (0 :: byte) \<or> pat ! i = 1"
  by (meson insertE nth_mem singletonD subsetD)

lemma rebuild_pattern:
  assumes "set proto \<subseteq> {0, 1}" "length proto = DITHER_CELLS"
  shows "d_pattern (fold (\<lambda>i s. if proto ! i \<noteq> 0 then dither_toggle F kern i True s else s)
    [0..<DITHER_CELLS] (clear_state F)) = proto"
proof -
  have "d_pattern (fold (\<lambda>i s. if proto ! i \<noteq> 0 then dither_toggle F kern i True s else s)
      [0..<n] (clear_state F)) = take n proto @ replicate (DITHER_CELLS - n) 0"
    if "n \<le> DITHER_CELLS" for n
    using that
  proof (induction n)
    case 0
    then show ?case by (simp add: clear_state_def)
  next
    case (Suc n)
    have "proto ! n = 0 \<or> proto ! n = 1"
      using pattern_cell [OF assms(1)] assms(2) Suc.prems by simp
    moreover have "take (Suc n) proto = take n proto @ [proto ! n]"
      using assms(2) Suc.prems by (simp add: take_Suc_conv_app_nth)
    moreover have "replicate (DITHER_CELLS - n) (0 :: byte) = 0 # replicate (DITHER_CELLS - Suc n) 0"
      using Suc.prems by (simp add: Suc_diff_Suc flip: replicate_Suc)
    ultimately show ?case
      using Suc assms(2) by (auto simp: list_update_append)
  qed
  from this [of DITHER_CELLS] assms(2) show ?thesis by simp
qed

lemma dither_ranks_permute:
  assumes "set (d_pattern s) \<subseteq> {0, 1}" "length (d_pattern s) = DITHER_CELLS"
    "card (cells_of 1 (d_pattern s)) = ones"
  shows "length (dither_ranks F kern ones s) = DITHER_CELLS"
    "bij_betw (\<lambda>c. unat (dither_ranks F kern ones s ! c)) {..<DITHER_CELLS} {..<DITHER_CELLS}"
proof -
  let ?A = "cells_of 1 (d_pattern s)" and ?B = "cells_of 0 (d_pattern s)"
  have AB: "?A \<union> ?B = {..<DITHER_CELLS}" "?A \<inter> ?B = {}"
    using pattern_cell [OF assms(1)] assms(2) by (auto simp: cells_of_def)
  then have cB: "card ?A + card ?B = DITHER_CELLS"
    by (metis card_Un_disjoint card_lessThan finite_cells_of)
  obtain s1 rank1 where t: "dither_thin F kern ones s (replicate DITHER_CELLS 0) = (s1, rank1)"
    by (metis surj_pair)
  define s2 where "s2 = fold (\<lambda>i s'. if d_pattern s ! i \<noteq> 0 then dither_toggle F kern i True s' else s')
    [0..<DITHER_CELLS] (clear_state F)"
  obtain s3 rank2 where f: "dither_fill F kern [ones..<DITHER_CELLS] s2 rank1 = (s3, rank2)"
    by (metis surj_pair)
  have p2: "d_pattern s2 = d_pattern s" unfolding s2_def by (rule rebuild_pattern [OF assms(1,2)])
  have small: "DITHER_CELLS \<le> 2 ^ 16" by (simp add: DITHER_CELLS_def DITHER_SIZE_def)
  have r1: "ranked ?A {..<ones} (replicate DITHER_CELLS 0) rank1"
    by (rule dither_thin_ranks [OF assms(2) _ assms(3) _ t]) (use cB assms(3) small in simp_all)
  have B: "ones + card ?B = DITHER_CELLS" using cB assms(3) by simp
  have "ranked ?B {ones..<ones + card ?B} rank1 rank2"
    using dither_fill_ranks [of s2 rank1 "card ?B" ones F kern s3 rank2] f r1 assms(2) small B
    by (simp add: p2 ranked_def)
  then have r2: "ranked ?B {ones..<DITHER_CELLS} rank1 rank2" by (simp add: B)
  have r: "dither_ranks F kern ones s = rank2"
    using t f by (simp add: dither_ranks_def Let_def s2_def)
  show "length (dither_ranks F kern ones s) = DITHER_CELLS"
    using r1 r2 by (simp add: r ranked_def)
  have "bij_betw (\<lambda>c. unat (rank2 ! c)) ?A {..<ones}"
  proof (rule bij_betw_cong [THEN iffD1])
    show "bij_betw (\<lambda>c. unat (rank1 ! c)) ?A {..<ones}" using r1 by (simp add: ranked_def)
    fix c assume "c \<in> ?A"
    with r2 AB(2) show "unat (rank1 ! c) = unat (rank2 ! c)" by (auto simp: ranked_def)
  qed
  moreover have "bij_betw (\<lambda>c. unat (rank2 ! c)) ?B {ones..<DITHER_CELLS}"
    using r2 by (simp add: ranked_def)
  moreover have "{..<ones} \<inter> {ones..<DITHER_CELLS} = {}" by auto
  ultimately have "bij_betw (\<lambda>c. unat (rank2 ! c)) (?A \<union> ?B) ({..<ones} \<union> {ones..<DITHER_CELLS})"
    by (rule bij_betw_combine)
  moreover have "{..<ones} \<union> {ones..<DITHER_CELLS} = {..<DITHER_CELLS}" using B by auto
  ultimately show "bij_betw (\<lambda>c. unat (dither_ranks F kern ones s ! c)) {..<DITHER_CELLS} {..<DITHER_CELLS}"
    using AB(1) by (simp add: r)
qed


section \<open>The histogram of the thresholds\<close>

text \<open>The ranks that one threshold takes are an interval of 64 or 65.\<close>

lemma ceil_le: "(x + 254) div 255 \<le> r \<longleftrightarrow> x \<le> 255 * r" for x r :: nat
proof -
  have "(x + 254) div 255 \<le> r \<longleftrightarrow> (x + 254) div 255 < r + 1" by auto
  also have "\<dots> \<longleftrightarrow> x + 254 < (r + 1) * 255" by (rule div_less_iff_less_mult) simp
  finally show ?thesis by auto
qed

lemma ranks_of_threshold:
  fixes u :: nat
  assumes "u \<le> 254"
  shows "card {r. r < 16384 \<and> r * 255 div 16384 = u} \<in> {64, 65}"
proof -
  define a b where "a = (u * 16384 + 254) div 255" and "b = ((u + 1) * 16384 + 254) div 255"
  have "{r. r < 16384 \<and> r * 255 div 16384 = u} = {a..<b}"
  proof (rule set_eqI)
    fix r
    have "b \<le> 16384" using assms by (simp add: b_def flip: less_Suc_eq_le)
    moreover have "r * 255 div 16384 = u \<longleftrightarrow> u * 16384 \<le> r * 255 \<and> r * 255 < (u + 1) * 16384"
      by (metis div_less_iff_less_mult less_eq_div_iff_mult_less_eq add.commute less_Suc_eq_le
          plus_1_eq_Suc zero_less_numeral antisym le_refl)
    moreover have "u * 16384 \<le> r * 255 \<longleftrightarrow> a \<le> r" unfolding a_def ceil_le by (simp add: mult.commute)
    moreover have "r * 255 < (u + 1) * 16384 \<longleftrightarrow> r < b"
      using ceil_le [of "(u + 1) * 16384" r, folded b_def] by (auto simp: mult.commute)
    ultimately show "r \<in> {r. r < 16384 \<and> r * 255 div 16384 = u} \<longleftrightarrow> r \<in> {a..<b}" by auto
  qed
  moreover have "b - a = 64 \<or> b - a = 65"
  proof -
    have step: "b - a = 64 \<or> b - a = 65"
      if "255 * a + m = x + 254" "255 * b + m' = x + 16638" "m < 255" "m' < 255" for m m' x :: nat
      using that by linarith
    show ?thesis
    proof (rule step)
      show "255 * a + (u * 16384 + 254) mod 255 = u * 16384 + 254" by (simp add: a_def)
      show "255 * b + ((u + 1) * 16384 + 254) mod 255 = u * 16384 + 16638" by (simp add: b_def)
    qed simp_all
  qed
  ultimately show ?thesis by simp
qed

lemma unat_spread:
  fixes r :: u16
  assumes "unat r < 16384"
  shows "unat (ucast (1 + ((ucast r :: u32) * 255) div of_nat DITHER_CELLS) :: byte) = 1 + unat r * 255 div 16384"
proof -
  have r: "unat (ucast r :: u32) = unat r"
    using unsigned_less [of r, where ?'a = nat] by (simp add: unsigned_ucast_eq take_bit_nat_eq_self)
  have m: "unat ((ucast r :: u32) * 255) = unat r * 255"
    using assms by (subst unat_mult_lem [THEN iffD1]) (simp_all add: r)
  have c: "(of_nat DITHER_CELLS :: u32) = 16384" by (simp add: DITHER_CELLS_def DITHER_SIZE_def)
  have d: "unat ((ucast r :: u32) * 255 div 16384) = unat r * 255 div 16384"
    by (simp add: unat_div_distrib m)
  have b: "unat r * 255 div 16384 \<le> 254" using assms by linarith
  have e: "unat (1 + (ucast r :: u32) * 255 div 16384) = 1 + unat r * 255 div 16384"
    using b by (subst unat_add_lem [THEN iffD1]) (simp_all add: d)
  show ?thesis unfolding c using b by (simp add: unsigned_ucast_eq e take_bit_nat_eq_self)
qed

text \<open>
  C36. Every threshold of the halftone mask is used evenly. From any prototype pattern of
  as many points as the generator starts with, and whatever the floating-point energies
  are, the two ranking loops give every cell of the 128 by 128 mask its own rank, and the
  mask has each threshold from 1 to 255 in 64 or 65 cells and no threshold 0: a pixel of
  0 is always black and one of 255 always white.
\<close>

theorem dither_mask_uniform:
  assumes "set (d_pattern s) \<subseteq> {0, 1}" "length (d_pattern s) = DITHER_CELLS"
    "card (cells_of 1 (d_pattern s)) = ones"
  shows "length (spread_ranks (dither_ranks F kern ones s)) = DITHER_CELLS
    \<and> 0 \<notin> set (spread_ranks (dither_ranks F kern ones s))
    \<and> (\<forall>t \<in> {1..255}. card {c. c < DITHER_CELLS \<and> unat (spread_ranks (dither_ranks F kern ones s) ! c) = t} \<in> {64, 65})"
proof -
  define rank where "rank = dither_ranks F kern ones s"
  have N: "DITHER_CELLS = 16384" by (simp add: DITHER_CELLS_def DITHER_SIZE_def)
  note p = dither_ranks_permute [OF assms, of F kern, folded rank_def]
  have lt: "unat (rank ! c) < 16384" if "c < DITHER_CELLS" for c
    using bij_betwE [OF p(2)] that N by auto
  have th: "unat (spread_ranks rank ! c) = 1 + unat (rank ! c) * 255 div 16384" if "c < DITHER_CELLS" for c
    using that p(1) lt [OF that] by (simp add: spread_ranks_def unat_spread)
  have "card {c. c < DITHER_CELLS \<and> unat (spread_ranks rank ! c) = t} \<in> {64, 65}" if t: "t \<in> {1..255}" for t
  proof -
    let ?R = "{r. r < 16384 \<and> r * 255 div 16384 = t - 1}"
    have "bij_betw (\<lambda>c. unat (rank ! c)) {c. c < DITHER_CELLS \<and> unat (spread_ranks rank ! c) = t} ?R"
    proof (rule bij_betw_imageI)
      show "inj_on (\<lambda>c. unat (rank ! c)) {c. c < DITHER_CELLS \<and> unat (spread_ranks rank ! c) = t}"
        using bij_betw_imp_inj_on [OF p(2)] by (rule inj_on_subset) auto
      show "(\<lambda>c. unat (rank ! c)) ` {c. c < DITHER_CELLS \<and> unat (spread_ranks rank ! c) = t} = ?R" (is "?L = _")
      proof
        show "?L \<subseteq> ?R" using th lt t by auto
        show "?R \<subseteq> ?L"
        proof
          fix r assume r: "r \<in> ?R"
          with p(2) N obtain c where "c < DITHER_CELLS" "unat (rank ! c) = r"
            unfolding bij_betw_def by (metis (mono_tags, lifting) imageE lessThan_iff mem_Collect_eq)
          with r th t show "r \<in> ?L" by force
        qed
      qed
    qed
    then have "card {c. c < DITHER_CELLS \<and> unat (spread_ranks rank ! c) = t} = card ?R"
      by (rule bij_betw_same_card)
    moreover have "card ?R \<in> {64, 65}" using t by (intro ranks_of_threshold) auto
    ultimately show ?thesis by simp
  qed
  moreover have len: "length (spread_ranks rank) = DITHER_CELLS" by (simp add: spread_ranks_def p(1))
  moreover have "0 \<notin> set (spread_ranks rank)"
  proof
    assume "0 \<in> set (spread_ranks rank)"
    then obtain c where "c < DITHER_CELLS" "spread_ranks rank ! c = 0"
      unfolding in_set_conv_nth len by auto
    with th [of c] show False by simp
  qed
  ultimately show ?thesis by (simp add: rank_def)
qed

text \<open>With a comparison that never holds, and the points in the first cells.\<close>

theorem dither_mask_uniform_witness:
  "card {c. c < DITHER_CELLS \<and> unat (spread_ranks (dither_ranks
      \<lparr>f_zero = (), f_add = \<lambda>_ _. (), f_sub = \<lambda>_ _. (), f_less = \<lambda>_ _. False, f_gauss = \<lambda>_. ()\<rparr>
      [] 1638 \<lparr>d_pattern = replicate 1638 1 @ replicate 14746 0, d_energy = []\<rparr>) ! c) = 255} \<in> {64, 65}"
proof -
  have "cells_of 1 (replicate 1638 1 @ replicate 14746 0) = {..<1638}"
    by (auto simp: cells_of_def nth_append DITHER_CELLS_def DITHER_SIZE_def)
  then show ?thesis
    using dither_mask_uniform [of "\<lparr>d_pattern = replicate 1638 1 @ replicate 14746 0, d_energy = []\<rparr>" 1638
        "\<lparr>f_zero = (), f_add = \<lambda>_ _. (), f_sub = \<lambda>_ _. (), f_less = \<lambda>_ _. False, f_gauss = \<lambda>_. ()\<rparr>" "[]"]
    by (simp add: DITHER_CELLS_def DITHER_SIZE_def)
qed

end
