(* ===== verification/Image.thy ===== *)
theory Image
  imports Options Dither
begin

text \<open>
  The image path of the scanner backend: the output queue (\<^verbatim>\<open>out_reserve\<close>), the
  conversion of one scanner row into a frontend row (\<^verbatim>\<open>convert_row\<close>), white rows for
  gaps and margins, and \<^verbatim>\<open>handle_data_block\<close>, which checks a block of the device's
  numbers before it indexes anything with them.
\<close>

section \<open>The output queue\<close>

function grow_cap :: "nat \<Rightarrow> nat \<Rightarrow> nat" where
  "grow_cap cap need =
     (if cap < need then grow_cap (if cap \<noteq> 0 then cap * 2 else 65536) need else cap)"
  by pat_completeness auto
termination
  by (relation "measure (\<lambda>(cap, need). need - cap)") auto

declare grow_cap.simps [simp del]

lemma grow_cap_ge: "need \<le> grow_cap cap need"
  by (induction cap need rule: grow_cap.induct) (subst grow_cap.simps, simp)

text \<open>\<^verbatim>\<open>out_cap\<close> is raised before the allocator is asked, and stays raised when it
  refuses; \<open>h_out_alloc\<close> follows the allocator.\<close>

definition out_reserve ::
  "'w env \<Rightarrow> nat \<Rightarrow> pantum_handle \<Rightarrow> 'w \<Rightarrow> sane_status \<times> pantum_handle \<times> 'w" where
  "out_reserve E extra h w =
     (let h1 = (if h_out_pos h \<noteq> 0 \<and> h_out_pos h = length (h_out h)
                then h\<lparr>h_out := [], h_out_pos := 0\<rparr> else h)
      in if length (h_out h1) + extra \<le> h_out_cap h1 then (SANE_STATUS_GOOD, h1, w)
         else
           let h2 = (if h_out_pos h1 \<noteq> 0
                     then h1\<lparr>h_out := drop (h_out_pos h1) (h_out h1), h_out_pos := 0\<rparr> else h1);
               need = length (h_out h2) + extra
           in if h_out_pos h1 \<noteq> 0 \<and> need \<le> h_out_cap h2 then (SANE_STATUS_GOOD, h2, w)
              else
                let h3 = h2\<lparr>h_out_cap := grow_cap (h_out_cap h2) need\<rparr> in
                (case alloc_ok E (h_out_cap h3) w of (ok, w1) \<Rightarrow>
                   if \<not> ok then (SANE_STATUS_NO_MEM, h3, w1)
                   else (SANE_STATUS_GOOD, h3\<lparr>h_out_alloc := h_out_cap h3\<rparr>, w1)))"

text \<open>Writing one row behind the queue and counting it in.\<close>

definition out_put :: "byte list \<Rightarrow> pantum_handle \<Rightarrow> pantum_handle" where
  "out_put bs h =
     h\<lparr>h_out := h_out h @ bs,
       h_overrun := (h_overrun h \<or> h_out_alloc h < length (h_out h) + length bs)\<rparr>"

section \<open>One row\<close>


definition lut :: "pantum_handle \<Rightarrow> byte \<Rightarrow> byte" where
  "lut h b = h_gamma h ! unat b"

text \<open>\<^verbatim>\<open>dst[i >> 3] |= 0x80 >> (i & 7)\<close> where the pixel is darker than its threshold.\<close>

definition set_bit_at :: "nat \<Rightarrow> byte list \<Rightarrow> byte list" where
  "set_bit_at i dst = dst[i div 8 := dst ! (i div 8) OR drop_bit (i mod 8) 0x80]"

definition pack_dark :: "(nat \<Rightarrow> bool) \<Rightarrow> nat \<Rightarrow> nat \<Rightarrow> byte list \<Rightarrow> byte list" where
  "pack_dark dark lead n dst =
     fold (\<lambda>i dst. if dark i then set_bit_at i dst else dst) [lead..<n] dst"

text \<open>\<open>dst\<close> is the memory behind the queue as it was.\<close>

definition convert_row ::
  "byte list \<Rightarrow> pantum_handle \<Rightarrow> byte list \<Rightarrow> int \<Rightarrow> int \<Rightarrow> byte list \<Rightarrow> byte list" where
  "convert_row dither_mask h src avail row dst =
     (let p = h_params h;
          pixels = p_pixels_per_line p;
          lead = (if h_white_left h < pixels then h_white_left h else pixels);
          tail = pixels - (if h_white_right h < pixels then h_white_right h else pixels);
          n = (if avail < pixels then avail else pixels)
      in if row < h_white_top h \<or> (h_white_bottom h \<noteq> 0 \<and> p_lines p - h_white_bottom h \<le> row)
         then memset_at dst 0 (if p_depth p = 1 then 0x00 else 0xff) (nat (p_bytes_per_line p))
         else if p_format p = SANE_FRAME_RGB then
           let dst = fold (\<lambda>i dst. dst[3 * i := lut h (src ! (3 * i + 2)),
                                       3 * i + 1 := lut h (src ! (3 * i + 1)),
                                       3 * i + 2 := lut h (src ! (3 * i))]) [0..<nat n] dst;
               dst = memset_at dst (nat (3 * n)) 0xff (nat ((pixels - n) * 3));
               dst = memset_at dst 0 0xff (nat (lead * 3))
           in memset_at dst (nat (3 * tail)) 0xff (nat ((pixels - tail) * 3))
         else if p_depth p = 1 then
           let dst = memset_at dst 0 0 (nat (p_bytes_per_line p));
               n = (if tail < n then tail else n)
           in if h_halftone h then
                let cell = drop (nat (row mod int DITHER_SIZE) * DITHER_SIZE) dither_mask
                in pack_dark (\<lambda>i. lut h (src ! i) < cell ! (i mod DITHER_SIZE)) (nat lead) (nat n) dst
              else
                pack_dark (\<lambda>i. uint (lut h (src ! i)) < h_threshold h) (nat lead) (nat n) dst
         else
           let dst = fold (\<lambda>i dst. dst[i := lut h (src ! i)]) [0..<nat n] dst;
               dst = memset_at dst (nat n) 0xff (nat (pixels - n));
               dst = memset_at dst 0 0xff (nat lead)
           in memset_at dst (nat tail) 0xff (nat (pixels - tail)))"

section \<open>White rows\<close>

lemma out_reserve_frame [frame_rules]:
  assumes "out_reserve E n h w = (st, h', w')"
  shows "h_params h' = h_params h" "h_next_row h' = h_next_row h" "h_overrun h' = h_overrun h"
    "h_raw h' = h_raw h" "h_raw_cap h' = h_raw_cap h" "h_eof h' = h_eof h"
    "h_scanning h' = h_scanning h" "h_locked h' = h_locked h" "h_feeding h' = h_feeding h"
  using assms by (auto simp: out_reserve_def Let_def split: if_splits prod.splits)

definition white_row :: "sane_parameters \<Rightarrow> byte list" where
  "white_row p = replicate (nat (p_bytes_per_line p)) (if p_depth p = 1 then 0x00 else 0xff)"

function emit_white_rows ::
  "'w env \<Rightarrow> int \<Rightarrow> pantum_handle \<Rightarrow> 'w \<Rightarrow> sane_status \<times> pantum_handle \<times> 'w" where
  "emit_white_rows E until h w =
     (if h_next_row h < until \<and> h_next_row h < p_lines (h_params h) then
        (case out_reserve E (nat (p_bytes_per_line (h_params h))) h w of (st, h1, w1) \<Rightarrow>
           if st \<noteq> SANE_STATUS_GOOD then (st, h1, w1)
           else
             let h2 = out_put (white_row (h_params h1)) h1
             in emit_white_rows E until (h2\<lparr>h_next_row := h_next_row h2 + 1\<rparr>) w1)
      else (SANE_STATUS_GOOD, h, w))"
  by pat_completeness auto
termination
  by (relation "measure (\<lambda>(E, until, h, w). nat (until - h_next_row h))")
     (auto simp: out_put_def dest!: out_reserve_frame(2) [OF sym])

declare emit_white_rows.simps [simp del]

section \<open>Data blocks\<close>

definition DATA_JPEG :: u32 where "DATA_JPEG = 0x0f"

text \<open>The loop over the rows of a block, \<open>i\<close> from the list. A row index that wrapped, was
  handed out before, or lies beyond the page is skipped.\<close>

fun data_rows ::
  "'w env \<Rightarrow> byte list \<Rightarrow> u32 \<Rightarrow> nat \<Rightarrow> u32 \<Rightarrow> nat list \<Rightarrow> pantum_handle \<Rightarrow> 'w
   \<Rightarrow> sane_status \<times> pantum_handle \<times> 'w" where
  "data_rows E dither_mask first stride avail [] h w = (SANE_STATUS_GOOD, h, w)"
| "data_rows E dither_mask first stride avail (i # is) h w =
     (let row = first + of_nat i;
          bpl = nat (p_bytes_per_line (h_params h))
      in if row < first \<or> row < word_of_int (h_next_row h)
            \<or> word_of_int (p_lines (h_params h)) \<le> row
         then data_rows E dither_mask first stride avail is h w
         else
           (case out_reserve E bpl h w of (st, h1, w1) \<Rightarrow>
              if st \<noteq> SANE_STATUS_GOOD then (st, h1, w1)
              else
                let bs = convert_row dither_mask h1 (drop (i * stride) (h_raw h1)) (sint avail)
                           (sint row) (replicate bpl 0);
                    h2 = out_put bs h1
                in data_rows E dither_mask first stride avail is
                     (h2\<lparr>h_next_row := sint row + 1\<rparr>) w1))"

text \<open>Storing the body of a block and emitting its rows, once the sub-header is accepted.\<close>

definition store_block ::
  "'w env \<Rightarrow> byte list \<Rightarrow> u32 \<Rightarrow> u32 \<Rightarrow> nat \<Rightarrow> u32 \<Rightarrow> nat \<Rightarrow> pantum_handle \<Rightarrow> 'w
   \<Rightarrow> sane_status \<times> pantum_handle \<times> 'w" where
  "store_block E dither_mask first rows stride avail body h w =
     (case (if h_raw_cap h < body then
              (case alloc_ok E body w of (ok, w1) \<Rightarrow>
                 if ok then (True, h\<lparr>h_raw_cap := body\<rparr>, w1) else (False, h, w1))
            else (True, h, w)) of
        (ok, h1, w1) \<Rightarrow>
          if \<not> ok then (SANE_STATUS_NO_MEM, h1, snd (drain_payload E body TIMEOUT_READ w1))
          else
            (case usb_read E body TIMEOUT_READ w1 of ((st, bs), w2) \<Rightarrow>
               let h2 = h1\<lparr>h_raw := bs\<rparr> in
               if st \<noteq> SANE_STATUS_GOOD then (st, h2, w2)
               else
                 (case emit_white_rows E
                         (if first < word_of_int (p_lines (h_params h2)) then sint first
                          else p_lines (h_params h2)) h2 w2 of
                    (st, h3, w3) \<Rightarrow>
                      if st \<noteq> SANE_STATUS_GOOD then (st, h3, w3)
                      else data_rows E dither_mask first stride avail [0..<unat rows] h3 w3)))"

definition handle_data_block ::
  "'w env \<Rightarrow> byte list \<Rightarrow> u32 \<Rightarrow> pantum_handle \<Rightarrow> 'w \<Rightarrow> sane_status \<times> pantum_handle \<times> 'w" where
  "handle_data_block E dither_mask plen h w =
     (if unat plen < PANTUM_DATA_HEADER_LEN then
        (SANE_STATUS_IO_ERROR, h, snd (drain_payload E (unat plen) TIMEOUT_READ w))
      else
        (case usb_read E PANTUM_DATA_HEADER_LEN TIMEOUT_READ w of ((st, head), w1) \<Rightarrow>
           if st \<noteq> SANE_STATUS_GOOD then (st, h, w1)
           else
             let ty = get_be32 head;
                 first = get_be32 (drop 4 head);
                 rows = get_be32 (drop 8 head);
                 planes = get_be32 (drop 12 head);
                 pixels = get_be32 (drop 16 head);
                 body = unat plen - PANTUM_DATA_HEADER_LEN
             in if ty = DATA_JPEG then
                  (SANE_STATUS_UNSUPPORTED, h, snd (drain_payload E body TIMEOUT_READ w1))
                else if rows = 0 \<or> planes = 0 \<or> body div unat rows < unat planes then
                  (SANE_STATUS_IO_ERROR, h, snd (drain_payload E body TIMEOUT_READ w1))
                else
                  let stride = body div unat rows;
                      avail = of_nat (stride div unat planes);
                      avail = (if pixels < avail then pixels else avail);
                      want_planes = (if p_format (h_params h) = SANE_FRAME_RGB then 3 else 1)
                  in if planes \<noteq> want_planes then
                       (SANE_STATUS_IO_ERROR, h, snd (drain_payload E body TIMEOUT_READ w1))
                     else store_block E dither_mask first rows stride avail body h w1))"

end
