(* ===== verification/Tone.thy ===== *)
theory Tone
  imports Prelude Complex_Main
begin

text \<open>
  The tone curve of \<^verbatim>\<open>build_gamma\<close>, over the reals: \<^verbatim>\<open>double\<close> arithmetic is taken as
  exact, which changes none of the 512 entries (every value before truncation or rounding
  keeps a distance from the next whole or half number that is far above the rounding
  error). An integer form of the same table makes it computable.
\<close>

section \<open>The code\<close>

definition PANTUM_GAMMA :: real where "PANTUM_GAMMA = 1.8"

text \<open>\<^verbatim>\<open>(int)v\<close>: truncation towards zero.\<close>

definition truncate :: "real \<Rightarrow> int" where
  "truncate v = (if 0 \<le> v then \<lfloor>v\<rfloor> else \<lceil>v\<rceil>)"

definition clamp_byte :: "real \<Rightarrow> byte" where
  "clamp_byte v = (let i = truncate v in if i < 0 then 0 else if 255 < i then 255 else word_of_int i)"

definition tone_curve :: "bool \<Rightarrow> nat \<Rightarrow> real" where
  "tone_curve colour i =
     (let x = real i; x2 = x * x; x3 = x2 * x in
      if colour then
        if i < 50 then (x * 326.56441) / (x + 223.04027)
        else if i < 160 then x * 1.3679907 + 1.3433091 - x2 * 0.0028273626 + x3 * 0.0000091069919
        else 382.17813 - x * 0.2533356 - 3965432.2 / x2
      else
        if i < 80 then x * 1.8279807 + 0.56917985 - x2 * 0.015226293 + x3 * 0.00013340606
        else x * 1.4804465 + 2.4442346 - x2 * 0.0024925889 + x3 * 0.0000056432708)"

definition gamma_pass :: "byte \<Rightarrow> byte" where
  "gamma_pass t =
     (let scale = 255 powr (- 1 / PANTUM_GAMMA);
          v = real (unat t) powr (1 / PANTUM_GAMMA) * scale * 255
      in if 255 < v then 255 else word_of_int \<lfloor>v + 0.5\<rfloor>)"

definition build_gamma :: "bool \<Rightarrow> byte list" where
  "build_gamma colour = map gamma_pass (map (\<lambda>i. clamp_byte (tone_curve colour i)) [0..<256])"

lemma length_build_gamma [simp]: "length (build_gamma colour) = 256"
  by (simp add: build_gamma_def)

section \<open>The same table in whole numbers\<close>

text \<open>The curve as a fraction.\<close>

definition tone_num :: "bool \<Rightarrow> int \<Rightarrow> int" where
  "tone_num colour x =
     (if colour then
        if x < 50 then x * 32656441
        else if x < 160 then
          x * 13679907000000 + 13433091000000 - x * x * 28273626000 + x * x * x * 91069919
        else 3821781300 * (x * x) - x * x * x * 2533356 - 39654322000000
      else
        if x < 80 then x * 182798070000 + 56917985000 - x * x * 1522629300 + x * x * x * 13340606
        else x * 14804465000000 + 24442346000000 - x * x * 24925889000 + x * x * x * 56432708)"

definition tone_den :: "bool \<Rightarrow> int \<Rightarrow> int" where
  "tone_den colour x =
     (if colour then
        if x < 50 then x * 100000 + 22304027 else if x < 160 then 10000000000000
        else 10000000 * (x * x)
      else if x < 80 then 100000000000 else 10000000000000)"

lemma tone_curve_fraction:
  "tone_curve colour i = real_of_int (tone_num colour (int i)) / real_of_int (tone_den colour (int i))"
proof -
  consider "i < 50" | "50 \<le> i" "i < 80" | "80 \<le> i" "i < 160" | "160 \<le> i" by linarith
  then show ?thesis
    by cases (simp_all add: tone_curve_def tone_num_def tone_den_def Let_def field_simps)
qed

text \<open>The second pass, checked by ninth powers.\<close>

definition gamma_fits :: "int \<Rightarrow> int \<Rightarrow> bool" where
  "gamma_fits b k \<longleftrightarrow> 0 \<le> k \<and> k \<le> 255
     \<and> (k = 0 \<or> (2 * k - 1) ^ 9 \<le> 512 * 4228250625 * b ^ 5) \<and> 512 * 4228250625 * b ^ 5 < (2 * k + 1) ^ 9"


lemma ninth_root_le: "0 \<le> y \<Longrightarrow> x ^ 9 \<le> y ^ 9 \<Longrightarrow> x \<le> y" for x y :: real
  using power_le_imp_le_base [of x 8 y] by simp

lemma gamma_pass_fits:
  assumes "0 \<le> b" "b \<le> 255" "gamma_fits b k"
  shows "gamma_pass (word_of_int b) = word_of_int k"
proof -
  define v where "v = real_of_int b powr (5 / 9) * 255 powr (- 5 / 9) * 255"
  have v0: "0 \<le> v" by (simp add: v_def)
  have v9: "v ^ 9 = 4228250625 * real_of_int b ^ 5"
  proof (cases "b = 0")
    case True
    then show ?thesis by (simp add: v_def)
  next
    case False
    with assms(1) have b: "0 < real_of_int b" by simp
    have "(real_of_int b powr (5 / 9)) ^ 9 = real_of_int b powr (5 / 9 * 9)"
      using b by (simp add: powr_power)
    also have "\<dots> = real_of_int b ^ 5" using b by (simp add: powr_numeral)
    finally have 1: "(real_of_int b powr (5 / 9)) ^ 9 = real_of_int b ^ 5" .
    have "((255 :: real) powr (- 5 / 9)) ^ 9 = 255 powr (- 5)"
      by (simp add: powr_power)
    also have "\<dots> = 1 / 255 ^ 5"
    proof -
      have "(255 :: real) powr 5 = 255 ^ 5" by (rule powr_numeral) simp
      then show ?thesis by (simp only: powr_minus divide_inverse mult_1_left)
    qed
    finally have 2: "((255 :: real) powr (- 5 / 9)) ^ 9 = 1 / 255 ^ 5" .
    show ?thesis unfolding v_def power_mult_distrib 1 2 by simp
  qed
  have v2: "(2 * v) ^ 9 = real_of_int (512 * 4228250625 * b ^ 5)"
    by (simp add: power_mult_distrib v9)
  have k: "0 \<le> k" "k \<le> 255" using assms(3) by (simp_all add: gamma_fits_def)
  have lo: "real_of_int (2 * k - 1) \<le> 2 * v"
  proof (cases "k = 0")
    case True
    then show ?thesis using v0 by simp
  next
    case False
    with assms(3) have "real_of_int ((2 * k - 1) ^ 9) \<le> (2 * v) ^ 9"
      unfolding v2 of_int_le_iff by (simp add: gamma_fits_def)
    then have "real_of_int (2 * k - 1) ^ 9 \<le> (2 * v) ^ 9" by simp
    from this show ?thesis by (rule ninth_root_le [rotated]) (use v0 in simp)
  qed
  have hi: "2 * v < real_of_int (2 * k + 1)"
  proof -
    from assms(3) have "(2 * v) ^ 9 < real_of_int ((2 * k + 1) ^ 9)"
      unfolding v2 of_int_less_iff by (simp add: gamma_fits_def)
    then have "(2 * v) ^ 9 < real_of_int (2 * k + 1) ^ 9" by simp
    then show ?thesis by (rule power_less_imp_less_base) (use k in simp)
  qed
  have fl: "\<lfloor>v + 0.5\<rfloor> = k" using lo hi by (simp add: floor_eq_iff)
  have le: "v \<le> 255"
  proof -
    have "real_of_int b ^ 5 \<le> 255 ^ 5" using assms(1,2) by (intro power_mono) simp_all
    then have "v ^ 9 \<le> 255 ^ 9" unfolding v9 by simp
    then show ?thesis by (rule ninth_root_le [rotated]) simp
  qed
  have u: "real (unat (word_of_int b :: byte)) = real_of_int b"
    using assms(1,2) by (simp add: unat_eq_nat_uint uint_word_of_int mod_pos_pos_trivial)
  have "gamma_pass (word_of_int b) = (if 255 < v then 255 else word_of_int \<lfloor>v + 0.5\<rfloor>)"
  proof -
    have "real (unat (word_of_int b :: byte)) powr (1 / PANTUM_GAMMA) * 255 powr (- 1 / PANTUM_GAMMA) * 255 = v"
      unfolding u v_def by (simp add: PANTUM_GAMMA_def)
    then show ?thesis unfolding gamma_pass_def Let_def by simp
  qed
  with le fl show ?thesis by simp
qed

definition tone_base :: "bool \<Rightarrow> int \<Rightarrow> int" where
  "tone_base colour x = (let v = tone_num colour x div tone_den colour x in if 255 < v then 255 else v)"

lemma tone_fraction_positive:
  "\<forall>x \<in> set [0..255]. 0 \<le> tone_num c x \<and> 0 < tone_den c x"
proof (cases c)
  case True
  have "list_all (\<lambda>x. 0 \<le> tone_num True x \<and> 0 < tone_den True x) [0..255]" by code_simp
  with True show ?thesis by (simp add: list_all_iff)
next
  case False
  have "list_all (\<lambda>x. 0 \<le> tone_num False x \<and> 0 < tone_den False x) [0..255]" by code_simp
  with False show ?thesis by (simp add: list_all_iff)
qed

lemma clamp_byte_base:
  assumes "i < 256"
  shows "clamp_byte (tone_curve c i) = word_of_int (tone_base c (int i))" "0 \<le> tone_base c (int i)"
    "tone_base c (int i) \<le> 255"
proof -
  have p: "0 \<le> tone_num c (int i)" "0 < tone_den c (int i)"
    using tone_fraction_positive [of c] assms by auto
  have "truncate (tone_curve c i) = tone_num c (int i) div tone_den c (int i)"
    using p by (simp add: truncate_def tone_curve_fraction floor_divide_of_int_eq)
  moreover have "0 \<le> tone_num c (int i) div tone_den c (int i)"
    using p by (simp add: pos_imp_zdiv_nonneg_iff)
  ultimately show "clamp_byte (tone_curve c i) = word_of_int (tone_base c (int i))"
    "0 \<le> tone_base c (int i)" "tone_base c (int i) \<le> 255"
    by (auto simp: clamp_byte_def tone_base_def Let_def)
qed

definition colour_tones :: "int list" where
  "colour_tones =
   [0, 12, 17, 25, 29, 35, 37, 40, 44, 47, 51, 53, 55, 57, 60, 62, 64, 67, 69, 70, 72, 75,
    76, 78, 79, 80, 83, 85, 86, 87, 89, 90, 91, 94, 95, 96, 97, 98, 100, 101, 102, 103,
    104, 105, 107, 108, 109, 110, 111, 112, 117, 118, 120, 121, 122, 123, 124, 125, 126,
    128, 129, 130, 131, 132, 133, 134, 135, 137, 138, 139, 139, 140, 141, 142, 143, 144,
    145, 146, 147, 148, 149, 150, 151, 152, 152, 153, 154, 155, 157, 157, 158, 159, 160,
    161, 161, 162, 163, 164, 165, 165, 166, 168, 169, 169, 170, 171, 172, 172, 173, 174,
    175, 175, 176, 177, 178, 179, 180, 181, 181, 182, 183, 183, 184, 185, 186, 186, 188,
    188, 189, 190, 191, 191, 192, 193, 193, 194, 195, 196, 197, 198, 198, 199, 200, 200,
    201, 202, 203, 204, 204, 205, 206, 206, 207, 208, 209, 209, 210, 211, 211, 212, 214,
    215, 217, 217, 218, 219, 220, 221, 222, 223, 223, 225, 225, 226, 227, 228, 228, 229,
    230, 231, 231, 232, 233, 233, 234, 234, 235, 236, 236, 237, 237, 238, 238, 238, 239,
    240, 240, 241, 241, 241, 242, 243, 243, 243, 244, 244, 244, 245, 245, 245, 246, 246,
    247, 247, 247, 247, 248, 248, 248, 249, 249, 249, 249, 249, 250, 250, 251, 251, 251,
    251, 251, 252, 252, 252, 252, 252, 253, 253, 253, 253, 253, 253, 254, 254, 254, 254,
    254, 254, 254, 255, 255, 255, 255, 255, 255, 255]"

definition grey_tones :: "int list" where
  "grey_tones =
   [0, 17, 25, 29, 35, 40, 44, 47, 51, 53, 57, 60, 62, 65, 67, 70, 72, 73, 76, 78, 80, 82,
    83, 86, 87, 89, 91, 92, 94, 96, 97, 98, 100, 102, 103, 104, 105, 108, 109, 110, 111,
    113, 114, 115, 116, 118, 119, 120, 121, 123, 124, 125, 127, 128, 129, 131, 132, 133,
    135, 136, 138, 139, 140, 141, 143, 144, 146, 146, 148, 150, 151, 152, 154, 155, 157,
    158, 160, 161, 162, 164, 157, 159, 160, 161, 161, 162, 163, 165, 165, 166, 167, 168,
    169, 170, 171, 172, 172, 173, 174, 175, 176, 177, 178, 178, 179, 180, 181, 182, 183,
    183, 184, 185, 186, 187, 188, 188, 189, 190, 191, 191, 192, 193, 194, 195, 195, 196,
    197, 198, 198, 200, 200, 201, 202, 202, 203, 204, 204, 205, 206, 207, 208, 208, 209,
    209, 210, 211, 212, 213, 213, 214, 215, 215, 216, 217, 217, 218, 219, 220, 220, 221,
    222, 222, 223, 223, 225, 225, 226, 226, 227, 228, 228, 229, 230, 231, 231, 232, 233,
    233, 234, 234, 236, 236, 237, 237, 238, 238, 239, 240, 241, 241, 242, 243, 243, 244,
    245, 245, 246, 247, 247, 248, 248, 249, 250, 251, 251, 252, 252, 253, 254, 254, 255,
    255, 255, 255, 255, 255, 255, 255, 255, 255, 255, 255, 255, 255, 255, 255, 255, 255,
    255, 255, 255, 255, 255, 255, 255, 255, 255, 255, 255, 255, 255, 255, 255, 255, 255,
    255, 255, 255, 255, 255, 255, 255, 255, 255, 255, 255]"

definition tone_table :: "bool \<Rightarrow> int list" where
  "tone_table c = (if c then colour_tones else grey_tones)"

lemma colour_tones_fit: "list_all2 (\<lambda>x. gamma_fits (tone_base True x)) [0..255] colour_tones"
  by code_simp

lemma grey_tones_fit: "list_all2 (\<lambda>x. gamma_fits (tone_base False x)) [0..255] grey_tones"
  by code_simp

lemma tone_table_fit: "list_all2 (\<lambda>x. gamma_fits (tone_base c x)) [0..255] (tone_table c)"
  using colour_tones_fit grey_tones_fit by (simp add: tone_table_def)

lemma build_gamma_table: "build_gamma c = map word_of_int (tone_table c)"
proof (rule nth_equalityI)
  show len: "length (build_gamma c) = length (map word_of_int (tone_table c))"
    using list_all2_lengthD [OF tone_table_fit [of c]] by (simp add: build_gamma_def)
  fix i assume "i < length (build_gamma c)"
  then have i: "i < 256" by (simp add: build_gamma_def)
  have "gamma_fits (tone_base c ([0..255] ! i)) (tone_table c ! i)"
    using tone_table_fit by (rule list_all2_nthD) (use i in simp)
  with i len show "build_gamma c ! i = map word_of_int (tone_table c) ! i"
    by (simp add: build_gamma_def clamp_byte_base gamma_pass_fits)
qed

text \<open>Everything below is read off these lists.\<close>

fun rising :: "int list \<Rightarrow> bool" where
  "rising (x # y # zs) \<longleftrightarrow> x \<le> y \<and> rising (y # zs)"
| "rising _ \<longleftrightarrow> True"

lemma rising_sorted: "rising xs \<Longrightarrow> sorted xs"
  by (induction xs rule: rising.induct) auto

lemma tones_rise: "rising colour_tones" "rising (take 80 grey_tones)" "rising (drop 80 grey_tones)"
  by code_simp+

lemma tones_byte: "list_all (\<lambda>v. 0 \<le> v \<and> v \<le> 255) colour_tones" "list_all (\<lambda>v. 0 \<le> v \<and> v \<le> 255) grey_tones"
  by code_simp+

lemma tones_ends:
  "colour_tones ! 0 = 0" "colour_tones ! 255 = 255" "grey_tones ! 0 = 0" "grey_tones ! 255 = 255"
  "grey_tones ! 79 = 164" "grey_tones ! 80 = 157"
  by code_simp+

lemma uint_build_gamma: "map uint (build_gamma c) = tone_table c"
proof -
  have "list_all (\<lambda>v. 0 \<le> v \<and> v \<le> 255) (tone_table c)"
    using tones_byte by (simp add: tone_table_def)
  then show ?thesis
    by (auto simp: build_gamma_table list_all_iff uint_word_of_int intro!: map_idI)
qed

text \<open>
  C35. The tone curve keeps black and white: in both modes entry 0 of the table is 0 and
  entry 255 is 255, so the white padding of a row stays white, as \<^verbatim>\<open>convert_row\<close> relies
  on. For colour the table never decreases; for grey it does so exactly once, where the
  two fitted pieces meet: entry 79 is 164 and entry 80 is 157.
\<close>

theorem tone_curve_shape:
  "build_gamma c ! 0 = 0 \<and> build_gamma c ! 255 = 255
   \<and> sorted (map uint (build_gamma True))
   \<and> sorted (take 80 (map uint (build_gamma False))) \<and> sorted (drop 80 (map uint (build_gamma False)))
   \<and> build_gamma False ! 79 = 164 \<and> build_gamma False ! 80 = 157"
proof -
  have n: "tone_table c ! i = uint (build_gamma c ! i)" if "i < 256" for c i
    using that by (simp flip: uint_build_gamma)
  have "build_gamma c ! 0 = 0" "build_gamma c ! 255 = 255"
    using n [of 0 c] n [of 255 c] by (auto simp: tone_table_def tones_ends word_uint_eq_iff split: if_splits)
  moreover have "build_gamma False ! 79 = 164" "build_gamma False ! 80 = 157"
    using n [of 79 False] n [of 80 False] by (simp_all add: tone_table_def tones_ends word_uint_eq_iff)
  ultimately show ?thesis
    using tones_rise by (simp add: uint_build_gamma tone_table_def rising_sorted)
qed

end
