(* ===== verification/Session.thy ===== *)
theory Session
  imports Image Tone
begin

text \<open>
  A scan session: the lock, the job that is set up under it, the pump that takes one
  frame after another off the wire, and the operations of the SANE interface that drive
  them (\<^verbatim>\<open>sane_start\<close>, \<^verbatim>\<open>sane_read\<close>, \<^verbatim>\<open>sane_cancel\<close>, \<^verbatim>\<open>sane_get_parameters\<close>,
  \<^verbatim>\<open>sane_set_io_mode\<close>). The loops that wait for the device have no bound of their own:
  \<open>None\<close> is a wait that never ends.
\<close>

section \<open>Giving the lock back\<close>

definition unlock_device :: "'w env \<Rightarrow> pantum_handle \<Rightarrow> 'w \<Rightarrow> pantum_handle \<times> 'w" where
  "unlock_device E h w =
     (let h = h\<lparr>h_feeding := False\<rparr> in
      if \<not> h_locked h then (h, w)
      else
        let h = h\<lparr>h_locked := False\<rparr> in
        case send_frame E CMD_UNLOCK [] w of (st, w1) \<Rightarrow>
          if st \<noteq> SANE_STATUS_GOOD then (h, w1)
          else case recv_frame E TIMEOUT_TEARDOWN False w1 of
            (Recv_Frame f, w2) \<Rightarrow> (h, snd (drain_payload E (unat (f_plen f)) TIMEOUT_TEARDOWN w2))
          | (_, w2) \<Rightarrow> (h, w2))"

section \<open>The pump\<close>

text \<open>The words only reach the debug log, so reading them changes the stream alone.\<close>

definition log_settings_echo :: "'w env \<Rightarrow> int \<Rightarrow> u32 \<Rightarrow> 'w \<Rightarrow> sane_status \<times> 'w" where
  "log_settings_echo E dbg_level plen w =
     (if plen \<noteq> of_nat PANTUM_SETTINGS_LEN \<or> dbg_level < 2
      then drain_payload E (unat plen) TIMEOUT_READ w
      else
        (case usb_read E PANTUM_SETTINGS_LEN TIMEOUT_READ w of ((st, settings), w1) \<Rightarrow>
           if st \<noteq> SANE_STATUS_GOOD then (SANE_STATUS_IO_ERROR, w1) else (SANE_STATUS_GOOD, w1)))"

text \<open>The out-parameters of \<^verbatim>\<open>pump_frame\<close>: \<open>pr_aborted\<close> is \<^verbatim>\<open>*abort_status\<close> once
  \<^verbatim>\<open>*aborted\<close> is set. \<open>want_abort\<close> says whether the caller passed \<^verbatim>\<open>aborted\<close> at all.\<close>

record pump_result =
  pr_status :: sane_status
  pr_idle :: bool
  pr_aborted :: "u32 option"

definition pumped :: "sane_status \<Rightarrow> pump_result" where
  "pumped st = \<lparr>pr_status = st, pr_idle = False, pr_aborted = None\<rparr>"

definition pump_frame ::
  "'w env \<Rightarrow> byte list \<Rightarrow> int \<Rightarrow> bool \<Rightarrow> bool \<Rightarrow> pantum_handle \<Rightarrow> 'w
   \<Rightarrow> pump_result \<times> pantum_handle \<times> 'w" where
  "pump_frame E dither_mask dbg_level probe want_abort h w =
     (case recv_frame E TIMEOUT_READ probe w of
        (Recv_Err st, w1) \<Rightarrow> (pumped st, h, w1)
      | (Recv_Idle, w1) \<Rightarrow> ((pumped SANE_STATUS_GOOD)\<lparr>pr_idle := True\<rparr>, h, w1)
      | (Recv_Frame f, w1) \<Rightarrow>
          if f_cmd f = EVT_DATA then
            (case handle_data_block E dither_mask (f_plen f) h w1 of (st, h1, w2) \<Rightarrow> (pumped st, h1, w2))
          else if f_cmd f = EVT_ABORTED then
            (case drain_payload E (unat (f_plen f)) TIMEOUT_READ w1 of (_, w2) \<Rightarrow>
             case unlock_device E (h\<lparr>h_scanning := False\<rparr>) w2 of (h1, w3) \<Rightarrow>
               if want_abort
               then ((pumped SANE_STATUS_GOOD)\<lparr>pr_aborted := Some (f_status f)\<rparr>, h1, w3)
               else (pumped (if f_status f \<noteq> 0 then map_status (f_status f) else SANE_STATUS_IO_ERROR),
                     h1, w3))
          else if f_cmd f = EVT_JOB_END then
            (case drain_payload E (unat (f_plen f)) TIMEOUT_READ w1 of (_, w2) \<Rightarrow>
             case emit_white_rows E (p_lines (h_params h)) h w2 of (st, h1, w3) \<Rightarrow>
             case unlock_device E (h1\<lparr>h_eof := True, h_scanning := False\<rparr>) w3 of (h2, w4) \<Rightarrow>
               (pumped st, h2, w4))
          else if f_cmd f = EVT_PAGE_END then
            (case drain_payload E (unat (f_plen f)) TIMEOUT_READ w1 of (_, w2) \<Rightarrow>
               if \<not> source_is_adf h then (pumped SANE_STATUS_GOOD, h, w2)
               else
                 (case emit_white_rows E (p_lines (h_params h)) h w2 of (st, h1, w3) \<Rightarrow>
                    (pumped st, h1\<lparr>h_eof := True, h_feeding := True\<rparr>, w3)))
          else if f_cmd f = EVT_SETTINGS then
            (case log_settings_echo E dbg_level (f_plen f) w1 of (st, w2) \<Rightarrow> (pumped st, h, w2))
          else
            (case drain_payload E (unat (f_plen f)) TIMEOUT_READ w1 of (st, w2) \<Rightarrow> (pumped st, h, w2)))"

section \<open>Setting a job up\<close>

text \<open>The five tries of \<^verbatim>\<open>lock_device\<close>: only a reply that says "busy" is worth another.\<close>

primrec lock_tries :: "'w env \<Rightarrow> nat \<Rightarrow> pantum_handle \<Rightarrow> 'w \<Rightarrow> sane_status \<times> pantum_handle \<times> 'w" where
  "lock_tries E 0 h w =
     (case unlock_device E h w of (h1, w1) \<Rightarrow> (SANE_STATUS_DEVICE_BUSY, h1, w1))"
| "lock_tries E (Suc tries) h w =
     (let h = h\<lparr>h_locked := True\<rparr> in
      case command E CMD_LOCK [] None w of (r, w1) \<Rightarrow>
        if c_status r = SANE_STATUS_GOOD then (SANE_STATUS_GOOD, h, w1)
        else if (case c_ack r of None \<Rightarrow> 0 | Some ack \<Rightarrow> f_status ack) \<noteq> 2 then
          (case unlock_device E h w1 of (h1, w2) \<Rightarrow> (c_status r, h1, w2))
        else lock_tries E tries h (sleep_ms E 2000 w1))"

definition lock_device :: "'w env \<Rightarrow> pantum_handle \<Rightarrow> 'w \<Rightarrow> sane_status \<times> pantum_handle \<times> 'w" where
  "lock_device E h w = lock_tries E 5 h w"

text \<open>The answer is \<^verbatim>\<open>*present\<close> and \<^verbatim>\<open>*loaded\<close>.\<close>

definition check_adf :: "'w env \<Rightarrow> 'w \<Rightarrow> (sane_status \<times> bool \<times> bool) \<times> 'w" where
  "check_adf E w =
     (case send_frame E CMD_ADF_STATUS [] w of (st, w1) \<Rightarrow>
        if st \<noteq> SANE_STATUS_GOOD then ((st, False, False), w1)
        else case recv_frame E TIMEOUT_READ False w1 of
          (Recv_Err st, w2) \<Rightarrow> ((st, False, False), w2)
        | (Recv_Idle, w2) \<Rightarrow> ((SANE_STATUS_GOOD, False, False), w2)
        | (Recv_Frame f, w2) \<Rightarrow>
            let w3 = (if f_plen f \<noteq> 0 then snd (drain_payload E (unat (f_plen f)) TIMEOUT_READ w2) else w2)
            in if f_cmd f \<noteq> CMD_ADF_STATUS then ((SANE_STATUS_IO_ERROR, False, False), w3)
               else ((SANE_STATUS_GOOD, f_status f = 0, f_status f = 0 \<and> f_arg0 f = 1), w3))"

definition probe_adf :: "'w env \<Rightarrow> pantum_handle \<Rightarrow> 'w \<Rightarrow> pantum_handle \<times> 'w" where
  "probe_adf E h w =
     (let h = h\<lparr>h_has_adf := False, h_locked := True\<rparr> in
      case command E CMD_LOCK [] None w of (r, w1) \<Rightarrow>
        if c_status r \<noteq> SANE_STATUS_GOOD then unlock_device E h w1
        else case check_adf E w1 of ((st, present, loaded), w2) \<Rightarrow>
          unlock_device E (if st = SANE_STATUS_GOOD then h\<lparr>h_has_adf := present\<rparr> else h) w2)"

definition SET_RESOLUTION :: nat where "SET_RESOLUTION = 3"
definition SET_ZERO :: nat where "SET_ZERO = 13"
definition SET_SOURCE :: nat where "SET_SOURCE = 14"
definition SET_TOP :: nat where "SET_TOP = 16"
definition SET_LEFT :: nat where "SET_LEFT = 17"
definition SET_BOTTOM :: nat where "SET_BOTTOM = 18"
definition SET_RIGHT :: nat where "SET_RIGHT = 19"
definition SET_COLOUR :: nat where "SET_COLOUR = 24"

lemmas set_words =
  SET_RESOLUTION_def SET_ZERO_def SET_SOURCE_def SET_TOP_def SET_LEFT_def SET_BOTTOM_def
  SET_RIGHT_def SET_COLOUR_def

text \<open>The settings block with the job's fields written over the device's.\<close>

definition job_settings :: "pantum_handle \<Rightarrow> byte list \<Rightarrow> byte list" where
  "job_settings h settings =
     (let words = map (\<lambda>i. get_be32 (drop (4 * i) settings)) [0..<PANTUM_SETTINGS_WORDS];
          (left, top, right, bottom) = compute_window h;
          words = words[SET_RESOLUTION := word_of_int (effective_resolution h),
                        SET_ZERO := 0,
                        SET_SOURCE := source_code h,
                        SET_TOP := word_of_int top,
                        SET_LEFT := word_of_int left,
                        SET_BOTTOM := word_of_int bottom,
                        SET_RIGHT := word_of_int right,
                        SET_COLOUR := (if mode_is h SCAN_MODE_COLOR then 1 else 0)]
      in concat (map put_be32 words))"

definition setup_job :: "'w env \<Rightarrow> pantum_handle \<Rightarrow> 'w \<Rightarrow> sane_status \<times> 'w" where
  "setup_job E h w =
     (case command E CMD_SET_DEFAULTS [] None w of (r1, w1) \<Rightarrow>
        if c_status r1 \<noteq> SANE_STATUS_GOOD then (c_status r1, w1)
        else case command E CMD_GET_SETTINGS [] (Some PANTUM_SETTINGS_LEN) w1 of (r2, w2) \<Rightarrow>
          if c_status r2 \<noteq> SANE_STATUS_GOOD then (c_status r2, w2)
          else case command E CMD_SET_SETTINGS (job_settings h (c_reply r2)) None w2 of (r3, w3) \<Rightarrow>
            if c_status r3 \<noteq> SANE_STATUS_GOOD then (c_status r3, w3)
            else case command E CMD_START [] None w3 of (r4, w4) \<Rightarrow> (c_status r4, w4))"

section \<open>Running a job\<close>

partial_function (option) await_first_rows ::
  "'w env \<Rightarrow> byte list \<Rightarrow> int \<Rightarrow> u32 option \<Rightarrow> pantum_handle \<Rightarrow> 'w
   \<Rightarrow> ((sane_status \<times> u32 option) \<times> pantum_handle \<times> 'w) option" where
  "await_first_rows E dither_mask dbg_level aborted h w =
     (if h_scanning h \<and> h_out h = [] \<and> aborted = None \<and> \<not> h_eof h then
        (case pump_frame E dither_mask dbg_level False True h w of (r, h1, w1) \<Rightarrow>
           if pr_status r \<noteq> SANE_STATUS_GOOD then
             (case unlock_device E (h1\<lparr>h_scanning := False\<rparr>) w1 of (h2, w2) \<Rightarrow>
                Some ((pr_status r, pr_aborted r), h2, w2))
           else await_first_rows E dither_mask dbg_level (pr_aborted r) h1 w1)
      else Some ((SANE_STATUS_GOOD, aborted), h, w))"

definition run_job ::
  "'w env \<Rightarrow> byte list \<Rightarrow> int \<Rightarrow> pantum_handle \<Rightarrow> 'w
   \<Rightarrow> ((sane_status \<times> u32 option) \<times> pantum_handle \<times> 'w) option" where
  "run_job E dither_mask dbg_level h w =
     (let fails = (\<lambda>st h w. case unlock_device E h w of (h1, w1) \<Rightarrow> Some ((st, None), h1, w1));
          h = h\<lparr>h_next_row := 0, h_out := [], h_out_pos := 0, h_eof := False\<rparr>
      in case lock_device E h w of (st, h1, w1) \<Rightarrow>
         if st \<noteq> SANE_STATUS_GOOD then Some ((st, None), h1, w1)
         else
           let adf = source_is_adf h1;
               ((st, present, loaded), w2) =
                 (if adf then check_adf E w1 else ((SANE_STATUS_GOOD, False, False), w1))
           in if adf \<and> st \<noteq> SANE_STATUS_GOOD then fails st h1 w2
              else if adf \<and> (\<not> present \<or> \<not> loaded) then
                fails (if present then SANE_STATUS_NO_DOCS else SANE_STATUS_UNSUPPORTED) h1 w2
              else
                (case setup_job E h1 w2 of (st, w3) \<Rightarrow>
                   if st \<noteq> SANE_STATUS_GOOD then fails st h1 w3
                   else await_first_rows E dither_mask dbg_level None (h1\<lparr>h_scanning := True\<rparr>) w3))"

definition resume_job ::
  "'w env \<Rightarrow> byte list \<Rightarrow> int \<Rightarrow> pantum_handle \<Rightarrow> 'w \<Rightarrow> (sane_status \<times> pantum_handle \<times> 'w) option" where
  "resume_job E dither_mask dbg_level h w =
     (let h = h\<lparr>h_next_row := 0, h_out := [], h_out_pos := 0, h_eof := False, h_feeding := False\<rparr>
      in case await_first_rows E dither_mask dbg_level None h w of
           None \<Rightarrow> None
         | Some ((st, aborted), h1, w1) \<Rightarrow>
             Some (if st \<noteq> SANE_STATUS_GOOD then st
                   else (case aborted of
                           Some s \<Rightarrow> (if s \<noteq> 0 then map_status s else SANE_STATUS_NO_DOCS)
                         | None \<Rightarrow> (if h_out h1 = [] then SANE_STATUS_NO_DOCS else SANE_STATUS_GOOD)),
                   h1, w1))"

section \<open>Ending a job\<close>

primrec abort_loop :: "'w env \<Rightarrow> nat \<Rightarrow> 'w \<Rightarrow> 'w" where
  "abort_loop E 0 w = w"
| "abort_loop E (Suc frames) w =
     (case recv_frame E TIMEOUT_TEARDOWN False w of
        (Recv_Err st, w1) \<Rightarrow> w1
      | (Recv_Idle, w1) \<Rightarrow> w1
      | (Recv_Frame f, w1) \<Rightarrow>
          (case drain_payload E (unat (f_plen f)) TIMEOUT_TEARDOWN w1 of (st, w2) \<Rightarrow>
             if st \<noteq> SANE_STATUS_GOOD then w2
             else if f_cmd f = EVT_JOB_END \<or> f_cmd f = EVT_ABORTED then w2
             else abort_loop E frames w2))"

definition end_scan :: "'w env \<Rightarrow> pantum_handle \<Rightarrow> 'w \<Rightarrow> pantum_handle \<times> 'w" where
  "end_scan E h w =
     (if h_scanning h then
        (case send_frame E CMD_ABORT [] w of (_, w1) \<Rightarrow>
           unlock_device E (h\<lparr>h_scanning := False\<rparr>) (abort_loop E 4096 w1))
      else unlock_device E h w)"

section \<open>The SANE operations on one handle\<close>

text \<open>The part of \<^verbatim>\<open>sane_open\<close> after the device is claimed: whatever is queued is thrown
  away, the feeder is looked for, the option table is built for what was found.\<close>

definition open_handle :: "'w env \<Rightarrow> 'w \<Rightarrow> pantum_handle \<times> 'w" where
  "open_handle E w =
     (let w = flush_input E w in
      case probe_adf E calloc_handle w of (h, w) \<Rightarrow>
      case init_options E h w of (h, w) \<Rightarrow>
        (h\<lparr>h_params := compute_parameters h\<rparr>, w))"

text \<open>\<open>SANE_UNFIX (w) * 255.0 / 100.0\<close>, truncated and clamped.\<close>

definition job_threshold :: "int \<Rightarrow> int" where
  "job_threshold v =
     (let t = (v * 255) sdiv (65536 * 100);
          t = (if t < 0 then 0 else t)
      in if 255 < t then 255 else t)"

text \<open>The strips painted white: \<^verbatim>\<open>dpi * 1.5 / 25.4\<close> and so on, truncated.\<close>

definition set_margins :: "pantum_handle \<Rightarrow> pantum_handle" where
  "set_margins h =
     (let dpi = effective_resolution h;
          (left, top, right, bottom) = compute_window h;
          edge = (dpi * 15) sdiv 254
      in if source_is_adf h then
           h\<lparr>h_white_top := (dpi * 25) sdiv 254, h_white_bottom := edge, h_white_left := edge,
             h_white_right := edge\<rparr>
         else
           h\<lparr>h_white_top := (if top = 0 then (dpi * 20) sdiv 254 else 0), h_white_bottom := 0,
             h_white_left := (if left = 0 then edge else 0), h_white_right := 0\<rparr>)"

text \<open>Up to four attempts; a job the device refused because it was busy is tried again.\<close>

primrec start_tries ::
  "'w env \<Rightarrow> byte list \<Rightarrow> int \<Rightarrow> nat \<Rightarrow> pantum_handle \<Rightarrow> 'w
   \<Rightarrow> (sane_status \<times> pantum_handle \<times> 'w) option" where
  "start_tries E dither_mask dbg_level 0 h w = Some (SANE_STATUS_DEVICE_BUSY, h, w)"
| "start_tries E dither_mask dbg_level (Suc attempt) h w =
     (case run_job E dither_mask dbg_level h w of
        None \<Rightarrow> None
      | Some ((st, aborted), h1, w1) \<Rightarrow>
          if st \<noteq> SANE_STATUS_GOOD then Some (st, h1, w1)
          else (case aborted of
                  None \<Rightarrow> Some (SANE_STATUS_GOOD, h1, w1)
                | Some s \<Rightarrow>
                    if s \<noteq> 0 \<and> s \<noteq> 2 then Some (map_status s, h1, w1)
                    else start_tries E dither_mask dbg_level attempt h1 (sleep_ms E 2000 w1)))"

text \<open>The process-wide mask: a zeroed array until it is built.\<close>

definition mask_bytes :: "byte list option \<Rightarrow> byte list" where
  "mask_bytes dmask = (case dmask of None \<Rightarrow> replicate DITHER_CELLS 0 | Some m \<Rightarrow> m)"

text \<open>What a new job takes from the options, before the margins and the tone curve.\<close>

definition prepare_job :: "pantum_handle \<Rightarrow> pantum_handle" where
  "prepare_job h =
     h\<lparr>h_cancelled := False, h_eof := False, h_params := compute_parameters h,
       h_threshold := job_threshold (h_val_w h OPT_THRESHOLD),
       h_halftone := mode_is h SCAN_MODE_HALFTONE\<rparr>"

definition start_new_job ::
  "'f float_ops \<Rightarrow> 'w env \<Rightarrow> int \<Rightarrow> byte list option \<Rightarrow> pantum_handle \<Rightarrow> 'w
   \<Rightarrow> ((sane_status \<times> byte list option) \<times> pantum_handle \<times> 'w) option" where
  "start_new_job F E dbg_level dmask h w =
     (let h = prepare_job h in
      case (if h_halftone h then build_dither_mask F E dmask w
            else Some ((SANE_STATUS_GOOD, dmask), w)) of
        None \<Rightarrow> None
      | Some ((st, dmask), w) \<Rightarrow>
          if st \<noteq> SANE_STATUS_GOOD then Some ((st, dmask), h, w)
          else
            let h = set_margins (h\<lparr>h_gamma := build_gamma (p_format (h_params h) = SANE_FRAME_RGB)\<rparr>)
            in case start_tries E (mask_bytes dmask) dbg_level 4 h w of
                 None \<Rightarrow> None
               | Some (st, h1, w1) \<Rightarrow> Some ((st, dmask), h1, w1))"

definition sane_start ::
  "'f float_ops \<Rightarrow> 'w env \<Rightarrow> int \<Rightarrow> byte list option \<Rightarrow> pantum_handle \<Rightarrow> 'w
   \<Rightarrow> ((sane_status \<times> byte list option) \<times> pantum_handle \<times> 'w) option" where
  "sane_start F E dbg_level dmask h w =
     (case (if h_cancelled h then end_scan E h w else (h, w)) of (h, w) \<Rightarrow>
      if h_feeding h then
        (case resume_job E (mask_bytes dmask) dbg_level h w of
           None \<Rightarrow> None | Some (st, h1, w1) \<Rightarrow> Some ((st, dmask), h1, w1))
      else if h_scanning h then Some ((SANE_STATUS_DEVICE_BUSY, dmask), h, w)
      else start_new_job F E dbg_level dmask h w)"

text \<open>The loop of \<^verbatim>\<open>sane_read\<close>; \<open>Some st\<close> is an early return with no data.\<close>

partial_function (option) read_pump ::
  "'w env \<Rightarrow> byte list \<Rightarrow> int \<Rightarrow> pantum_handle \<Rightarrow> 'w
   \<Rightarrow> (sane_status option \<times> pantum_handle \<times> 'w) option" where
  "read_pump E dither_mask dbg_level h w =
     (if h_out_pos h = length (h_out h) \<and> \<not> h_eof h then
        (if \<not> h_scanning h then Some (None, h\<lparr>h_eof := True\<rparr>, w)
         else
           (case pump_frame E dither_mask dbg_level (h_non_blocking h) False h w of (r, h1, w1) \<Rightarrow>
              if pr_status r \<noteq> SANE_STATUS_GOOD then
                (case unlock_device E (h1\<lparr>h_scanning := False\<rparr>) w1 of (h2, w2) \<Rightarrow>
                   Some (Some (pr_status r), h2, w2))
              else if pr_idle r then Some (Some SANE_STATUS_GOOD, h1, w1)
              else read_pump E dither_mask dbg_level h1 w1))
      else Some (None, h, w))"

text \<open>The bytes are what lands in the caller's buffer, \<^verbatim>\<open>*length\<close> of them.\<close>

definition sane_read ::
  "'w env \<Rightarrow> int \<Rightarrow> byte list option \<Rightarrow> int \<Rightarrow> pantum_handle \<Rightarrow> 'w
   \<Rightarrow> ((sane_status \<times> byte list) \<times> pantum_handle \<times> 'w) option" where
  "sane_read E dbg_level dmask max_length h w =
     (if max_length \<le> 0 then Some ((SANE_STATUS_INVAL, []), h, w)
      else if h_cancelled h then
        (case end_scan E h w of (h1, w1) \<Rightarrow>
           Some ((SANE_STATUS_CANCELLED, []), h1\<lparr>h_out := [], h_out_pos := 0, h_eof := True\<rparr>, w1))
      else
        case read_pump E (mask_bytes dmask) dbg_level h w of
          None \<Rightarrow> None
        | Some (Some st, h1, w1) \<Rightarrow> Some ((st, []), h1, w1)
        | Some (None, h1, w1) \<Rightarrow>
            let avail = length (h_out h1) - h_out_pos h1 in
            if avail = 0 then Some ((SANE_STATUS_EOF, []), h1, w1)
            else
              let avail = (if nat max_length < avail then nat max_length else avail);
                  data = take avail (drop (h_out_pos h1) (h_out h1))
              in Some ((SANE_STATUS_GOOD, data), h1\<lparr>h_out_pos := h_out_pos h1 + avail\<rparr>, w1))"

definition sane_cancel :: "pantum_handle \<Rightarrow> pantum_handle" where
  "sane_cancel h = h\<lparr>h_cancelled := True\<rparr>"

definition sane_set_io_mode :: "bool \<Rightarrow> pantum_handle \<Rightarrow> sane_status \<times> pantum_handle" where
  "sane_set_io_mode non_blocking h = (SANE_STATUS_GOOD, h\<lparr>h_non_blocking := non_blocking\<rparr>)"

definition sane_get_parameters :: "pantum_handle \<Rightarrow> (sane_status \<times> sane_parameters) \<times> pantum_handle" where
  "sane_get_parameters h =
     (let h = (if \<not> h_scanning h \<and> h_out_pos h = length (h_out h)
               then h\<lparr>h_params := compute_parameters h\<rparr> else h)
      in ((SANE_STATUS_GOOD, h_params h), h))"

end
