(* ===== verification/Backend.thy ===== *)
theory Backend
  imports Config Session
begin

text \<open>
  The backend around the handles: \<^verbatim>\<open>sane_init\<close> and \<^verbatim>\<open>sane_exit\<close>, the device list
  (\<^verbatim>\<open>probe_devices\<close>, \<^verbatim>\<open>sane_get_devices\<close>), opening and closing handles, and the
  calls that only look at one.

  The lists of the source are linked through pointers and a handle points at its device, so
  the model keeps a store: an address is a number, \<open>b_dev\<close> and \<open>b_handle\<close> say what lives there
  (\<open>None\<close>: freed or never allocated), \<open>b_next\<close> is a fresh one, and \<open>b_fault\<close> records a
  write through a pointer to freed memory. The lists \<open>b_devs\<close> and \<open>b_handles\<close> hold addresses,
  their head first.
\<close>

section \<open>The USB library\<close>

text \<open>A device on the bus; \<open>ud_desc\<close> is \<open>None\<close> when its descriptor cannot be read.\<close>

record usb_device =
  ud_bus :: byte
  ud_addr :: byte
  ud_desc :: "(u16 \<times> u16) option"

text \<open>\<open>us_link\<close> gives the transfers on an open handle, \<open>us_heap\<close> the allocator of the process.\<close>

record 'w usb_env =
  us_init :: "'w \<Rightarrow> libusb_rc \<times> 'w"
  us_exit :: "'w \<Rightarrow> 'w"
  us_list :: "'w \<Rightarrow> usb_device list option \<times> 'w"
  us_open :: "usb_device \<Rightarrow> 'w \<Rightarrow> (libusb_rc \<times> nat) \<times> 'w"
  us_claim :: "nat \<Rightarrow> nat \<Rightarrow> 'w \<Rightarrow> libusb_rc \<times> 'w"
  us_release :: "nat \<Rightarrow> nat \<Rightarrow> 'w \<Rightarrow> 'w"
  us_close :: "nat \<Rightarrow> 'w \<Rightarrow> 'w"
  us_link :: "nat \<Rightarrow> 'w env"
  us_heap :: "'w env"
  us_sys :: sys_env

definition PANTUM_INTERFACE :: nat where "PANTUM_INTERFACE = 1"

section \<open>State\<close>

record pantum_device =
  d_name :: string
  d_model :: string
  d_bus :: byte
  d_addr :: byte
  d_vid :: u16
  d_pid :: u16
  d_busy :: bool

record handle_node =
  oh_dev :: nat
  oh_usb :: nat
  oh_h :: pantum_handle

record backend =
  b_initialised :: bool
  b_ctx :: bool
  b_ids :: "usb_id list"
  b_devs :: "nat list"
  b_dev :: "nat \<Rightarrow> pantum_device option"
  b_ptrs :: "nat list option"
  b_handles :: "nat list"
  b_handle :: "nat \<Rightarrow> handle_node option"
  b_next :: nat
  b_fault :: bool

definition no_backend :: backend where
  "no_backend = \<lparr>b_initialised = False, b_ctx = False, b_ids = [], b_devs = [], b_dev = (\<lambda>_. None),
     b_ptrs = None, b_handles = [], b_handle = (\<lambda>_. None), b_next = 0, b_fault = False\<rparr>"

section \<open>The device list\<close>

text \<open>\<^verbatim>\<open>%03u\<close> of a byte.\<close>

definition digit_char :: "nat \<Rightarrow> char" where "digit_char d = char_of (48 + d)"

definition dec3 :: "byte \<Rightarrow> string" where
  "dec3 b = [digit_char (unat b div 100), digit_char (unat b div 10 mod 10), digit_char (unat b mod 10)]"

definition device_name :: "byte \<Rightarrow> byte \<Rightarrow> string" where
  "device_name bus addr = ''usb:'' @ dec3 bus @ '':'' @ dec3 addr"

definition free_devices :: "backend \<Rightarrow> backend" where
  "free_devices b = b\<lparr>b_dev := (\<lambda>a. if a \<in> set (b_devs b) then None else b_dev b a), b_devs := [], b_ptrs := None\<rparr>"

definition find_id :: "usb_id list \<Rightarrow> u16 \<Rightarrow> u16 \<Rightarrow> usb_id option" where
  "find_id ids vid pid = find (\<lambda>i. id_vid i = vid \<and> id_pid i = pid) ids"

definition push_device :: "pantum_device \<Rightarrow> backend \<Rightarrow> backend" where
  "push_device d b = b\<lparr>b_dev := (b_dev b)(b_next b := Some d), b_devs := b_next b # b_devs b, b_next := b_next b + 1\<rparr>"

text \<open>The loop over the devices on the bus; it stops when memory runs out.\<close>

fun probe_loop :: "'w usb_env \<Rightarrow> usb_device list \<Rightarrow> backend \<Rightarrow> 'w \<Rightarrow> backend \<times> 'w" where
  "probe_loop U [] b w = (b, w)"
| "probe_loop U (u # us) b w =
     (case ud_desc u of
        None \<Rightarrow> probe_loop U us b w
      | Some (vid, pid) \<Rightarrow>
          (case find_id (b_ids b) vid pid of
             None \<Rightarrow> probe_loop U us b w
           | Some i \<Rightarrow>
               (case alloc_ok (us_heap U) (sizeof (us_sys U) ''Pantum_Device'') w of (ok, w) \<Rightarrow>
                  if \<not> ok then (b, w)
                  else case pantum_strdup (us_heap U) (Some (device_name (ud_bus u) (ud_addr u))) w of (name, w) \<Rightarrow>
                    case pantum_strdup (us_heap U) (id_model i) w of (model, w) \<Rightarrow>
                    (case (name, model) of
                       (Some name, Some model) \<Rightarrow>
                         probe_loop U us (push_device \<lparr>d_name = name, d_model = model, d_bus = ud_bus u,
                           d_addr = ud_addr u, d_vid = vid, d_pid = pid, d_busy = False\<rparr> b) w
                     | _ \<Rightarrow> (b, w)))))"

definition probe_devices :: "'w usb_env \<Rightarrow> backend \<Rightarrow> 'w \<Rightarrow> sane_status \<times> backend \<times> 'w" where
  "probe_devices U b w =
     (if b_handles b \<noteq> [] \<and> b_ptrs b \<noteq> None then (SANE_STATUS_GOOD, b, w)
      else
        let b = free_devices b in
        case us_list U w of
          (None, w) \<Rightarrow> (SANE_STATUS_IO_ERROR, b, w)
        | (Some devs, w) \<Rightarrow>
            (case probe_loop U devs b w of (b, w) \<Rightarrow>
             case alloc_ok (us_heap U) ((length (b_devs b) + 1) * 8) w of (ok, w) \<Rightarrow>
               if \<not> ok then (SANE_STATUS_NO_MEM, b, w)
               else (SANE_STATUS_GOOD, b\<lparr>b_ptrs := Some (b_devs b)\<rparr>, w)))"

section \<open>Start and end\<close>

definition sane_init :: "'w usb_env \<Rightarrow> backend \<Rightarrow> 'w \<Rightarrow> sane_status \<times> backend \<times> 'w" where
  "sane_init U b w =
     (if b_initialised b then (SANE_STATUS_GOOD, b, w)
      else
        let b = b\<lparr>b_ids := [], b_devs := [], b_ptrs := None, b_handles := [], b_ctx := False\<rparr> in
        case us_init U w of (rc, w) \<Rightarrow>
          if rc \<noteq> LIBUSB_SUCCESS then (SANE_STATUS_IO_ERROR, b, w)
          else case read_config (us_sys U) (us_heap U) (b_ids b) w of (ids, w) \<Rightarrow>
            (SANE_STATUS_GOOD, b\<lparr>b_ctx := True, b_ids := ids, b_initialised := True\<rparr>, w))"

text \<open>\<^verbatim>\<open>h->dev->busy = SANE_FALSE\<close>: a write to a device, or to memory that is no longer one.\<close>

definition set_busy :: "nat \<Rightarrow> bool \<Rightarrow> backend \<Rightarrow> backend" where
  "set_busy a busy b =
     (case b_dev b a of
        Some d \<Rightarrow> b\<lparr>b_dev := (b_dev b)(a := Some (d\<lparr>d_busy := busy\<rparr>))\<rparr>
      | None \<Rightarrow> b\<lparr>b_fault := True\<rparr>)"

definition free_handle :: "'w usb_env \<Rightarrow> nat \<Rightarrow> handle_node \<Rightarrow> backend \<Rightarrow> 'w \<Rightarrow> backend \<times> 'w" where
  "free_handle U a oh b w =
     (let w = us_release U (oh_usb oh) PANTUM_INTERFACE w;
          w = us_close U (oh_usb oh) w;
          b = set_busy (oh_dev oh) False b
      in (b\<lparr>b_handle := (b_handle b)(a := None)\<rparr>, w))"

text \<open>The loop of \<^verbatim>\<open>sane_exit\<close> over the handles.\<close>

fun exit_handles :: "'w usb_env \<Rightarrow> nat list \<Rightarrow> backend \<Rightarrow> 'w \<Rightarrow> backend \<times> 'w" where
  "exit_handles U [] b w = (b, w)"
| "exit_handles U (a # as) b w =
     (case b_handle b a of
        None \<Rightarrow> (b\<lparr>b_fault := True\<rparr>, w)
      | Some oh \<Rightarrow>
          (case end_scan (us_link U (oh_usb oh)) (oh_h oh) w of (h, w) \<Rightarrow>
           case free_handle U a (oh\<lparr>oh_h := h\<rparr>) b w of (b, w) \<Rightarrow>
             exit_handles U as (b\<lparr>b_handles := as\<rparr>) w))"

definition free_ids :: "backend \<Rightarrow> backend" where
  "free_ids b = b\<lparr>b_ids := []\<rparr>"

definition sane_exit :: "'w usb_env \<Rightarrow> backend \<Rightarrow> 'w \<Rightarrow> backend \<times> 'w" where
  "sane_exit U b w =
     (if \<not> b_initialised b then (b, w)
      else case exit_handles U (b_handles b) b w of (b, w) \<Rightarrow>
        let b = free_ids (free_devices b);
            w = (if b_ctx b then us_exit U w else w)
        in (b\<lparr>b_ctx := False, b_initialised := False\<rparr>, w))"

text \<open>\<open>wanted\<close>: the caller passed a place for the list.\<close>

definition get_devices ::
  "'w usb_env \<Rightarrow> bool \<Rightarrow> backend \<Rightarrow> 'w \<Rightarrow> (sane_status \<times> nat list option) \<times> backend \<times> 'w" where
  "get_devices U wanted b w =
     (if \<not> b_initialised b then ((SANE_STATUS_INVAL, None), b, w)
      else if \<not> wanted then ((SANE_STATUS_INVAL, None), b, w)
      else case probe_devices U b w of (st, b, w) \<Rightarrow>
        if st \<noteq> SANE_STATUS_GOOD then ((st, None), b, w) else ((SANE_STATUS_GOOD, b_ptrs b), b, w))"

section \<open>Opening and closing\<close>

text \<open>The search for the device on the bus and \<^verbatim>\<open>libusb_open\<close>: a status to fail with, or
  the handle.\<close>

fun open_usb :: "'w usb_env \<Rightarrow> pantum_device \<Rightarrow> usb_device list \<Rightarrow> 'w \<Rightarrow> (sane_status + nat) \<times> 'w" where
  "open_usb U d [] w = (Inl SANE_STATUS_IO_ERROR, w)"
| "open_usb U d (u # us) w =
     (if ud_bus u \<noteq> d_bus d \<or> ud_addr u \<noteq> d_addr d then open_usb U d us w
      else case us_open U u w of ((rc, usb), w) \<Rightarrow>
        if rc \<noteq> LIBUSB_SUCCESS
        then (Inl (if rc = LIBUSB_ERROR_ACCESS then SANE_STATUS_ACCESS_DENIED else SANE_STATUS_IO_ERROR), w)
        else (Inr usb, w))"

text \<open>The device a name means; the empty name is the first device. A name is compared with the
  names in the list until it matches.\<close>

definition choose_device :: "backend \<Rightarrow> string option \<Rightarrow> nat option" where
  "choose_device b devicename =
     (if devicename = None \<or> devicename = Some [] then (case b_devs b of [] \<Rightarrow> None | a # as \<Rightarrow> Some a)
      else find (\<lambda>a. map_option d_name (b_dev b a) = devicename) (b_devs b))"

text \<open>What is left once the device is known.\<close>

definition open_device ::
  "'w usb_env \<Rightarrow> nat \<Rightarrow> pantum_device \<Rightarrow> backend \<Rightarrow> 'w \<Rightarrow> (sane_status \<times> nat option) \<times> backend \<times> 'w" where
  "open_device U a d b w =
     (if d_busy d then ((SANE_STATUS_DEVICE_BUSY, None), b, w)
      else case us_list U w of
        (None, w) \<Rightarrow> ((SANE_STATUS_IO_ERROR, None), b, w)
      | (Some devs, w) \<Rightarrow>
          (case open_usb U d devs w of
             (Inl st, w) \<Rightarrow> ((st, None), b, w)
           | (Inr usb, w) \<Rightarrow>
               (case us_claim U usb PANTUM_INTERFACE w of (rc, w) \<Rightarrow>
                if rc \<noteq> LIBUSB_SUCCESS
                then ((if rc = LIBUSB_ERROR_BUSY then SANE_STATUS_DEVICE_BUSY else SANE_STATUS_IO_ERROR, None),
                      b, us_close U usb w)
                else case alloc_ok (us_heap U) (sizeof (us_sys U) ''Pantum_Handle'') w of (ok, w) \<Rightarrow>
                if \<not> ok
                then ((SANE_STATUS_NO_MEM, None), b, us_close U usb (us_release U usb PANTUM_INTERFACE w))
                else case open_handle (us_link U usb) w of (h, w) \<Rightarrow>
                  let b = set_busy a True b;
                      x = b_next b;
                      b = b\<lparr>b_handle := (b_handle b)(x := Some \<lparr>oh_dev = a, oh_usb = usb, oh_h = h\<rparr>),
                            b_handles := x # b_handles b, b_next := x + 1\<rparr>
                  in ((SANE_STATUS_GOOD, Some x), b, w))))"

definition sane_open ::
  "'w usb_env \<Rightarrow> string option \<Rightarrow> bool \<Rightarrow> backend \<Rightarrow> 'w \<Rightarrow> (sane_status \<times> nat option) \<times> backend \<times> 'w" where
  "sane_open U devicename wanted b w =
     (if \<not> b_initialised b \<or> \<not> wanted then ((SANE_STATUS_INVAL, None), b, w)
      else case (if b_devs b = [] then probe_devices U b w else (SANE_STATUS_GOOD, b, w)) of (st, b, w) \<Rightarrow>
        if st \<noteq> SANE_STATUS_GOOD then ((st, None), b, w)
        else case choose_device b devicename of
          None \<Rightarrow> ((SANE_STATUS_INVAL, None), b, w)
        | Some a \<Rightarrow>
            (case b_dev b a of
               None \<Rightarrow> ((SANE_STATUS_INVAL, None), b\<lparr>b_fault := True\<rparr>, w)
             | Some d \<Rightarrow> open_device U a d b w))"

definition handle_is_valid :: "backend \<Rightarrow> nat \<Rightarrow> bool" where
  "handle_is_valid b a = (a \<in> set (b_handles b))"

definition sane_close :: "'w usb_env \<Rightarrow> nat \<Rightarrow> backend \<Rightarrow> 'w \<Rightarrow> backend \<times> 'w" where
  "sane_close U a b w =
     (if \<not> handle_is_valid b a then (b, w)
      else case b_handle b a of
        None \<Rightarrow> (b\<lparr>b_fault := True\<rparr>, w)
      | Some oh \<Rightarrow>
          (case end_scan (us_link U (oh_usb oh)) (oh_h oh) w of (h, w) \<Rightarrow>
             free_handle U a (oh\<lparr>oh_h := h\<rparr>) (b\<lparr>b_handles := remove1 a (b_handles b)\<rparr>) w))"

section \<open>Looking at a handle\<close>

definition get_option_descriptor :: "backend \<Rightarrow> nat \<Rightarrow> int \<Rightarrow> option_descriptor option" where
  "get_option_descriptor b a i =
     (if \<not> handle_is_valid b a \<or> i < 0 \<or> NUM_OPTIONS \<le> i then None
      else map_option (\<lambda>oh. h_opt (oh_h oh) (option_table ! nat i)) (b_handle b a))"

definition get_select_fd :: "backend \<Rightarrow> nat \<Rightarrow> bool \<Rightarrow> sane_status" where
  "get_select_fd b a wanted =
     (if \<not> handle_is_valid b a \<or> \<not> wanted then SANE_STATUS_INVAL else SANE_STATUS_UNSUPPORTED)"

definition strstatus :: "sane_status \<Rightarrow> string" where
  "strstatus status =
     (case status of
        SANE_STATUS_GOOD \<Rightarrow> ''everything A-OK''
      | SANE_STATUS_UNSUPPORTED \<Rightarrow> ''operation is not supported''
      | SANE_STATUS_CANCELLED \<Rightarrow> ''operation was cancelled''
      | SANE_STATUS_DEVICE_BUSY \<Rightarrow> ''device is busy''
      | SANE_STATUS_INVAL \<Rightarrow> ''invalid argument''
      | SANE_STATUS_EOF \<Rightarrow> ''no more data available''
      | SANE_STATUS_JAMMED \<Rightarrow> ''document feeder jammed''
      | SANE_STATUS_NO_DOCS \<Rightarrow> ''document feeder out of documents''
      | SANE_STATUS_COVER_OPEN \<Rightarrow> ''scanner cover is open''
      | SANE_STATUS_IO_ERROR \<Rightarrow> ''error during device I/O''
      | SANE_STATUS_NO_MEM \<Rightarrow> ''out of memory''
      | SANE_STATUS_ACCESS_DENIED \<Rightarrow> ''access to resource has been denied'')"

text \<open>Every other call starts with the check of the handle and then works on that handle alone.\<close>

definition on_handle ::
  "'w usb_env \<Rightarrow> nat \<Rightarrow> ('w env \<Rightarrow> pantum_handle \<Rightarrow> 'w \<Rightarrow> ('a \<times> pantum_handle \<times> 'w) option) \<Rightarrow> 'a
   \<Rightarrow> backend \<Rightarrow> 'w \<Rightarrow> ('a \<times> backend \<times> 'w) option" where
  "on_handle U a f invalid b w =
     (if \<not> handle_is_valid b a then Some (invalid, b, w)
      else case b_handle b a of
        None \<Rightarrow> Some (invalid, b\<lparr>b_fault := True\<rparr>, w)
      | Some oh \<Rightarrow>
          map_option (\<lambda>(x, h, w). (x, b\<lparr>b_handle := (b_handle b)(a := Some (oh\<lparr>oh_h := h\<rparr>))\<rparr>, w))
            (f (us_link U (oh_usb oh)) (oh_h oh) w))"

end
