(* ===== verification/Link.thy ===== *)
theory Link
  imports Transport
begin

text \<open>
  What the model relies on libusb for, as named hypotheses over observations of the
  world, and what the plumbing of \<open>Transport\<close> does on such a link: reads consume
  exactly the bytes they return, frames survive the wire, and a command steps over at
  most three stale replies.
\<close>

section \<open>What libusb promises\<close>

text \<open>
  \<open>pend\<close> observes the bytes still to come from the device, \<open>sent\<close> those the device
  has been handed. A transfer moves bytes from the front of the one or to the end of
  the other, never more than asked for, and one that fails outright moves none.
\<close>

definition link_in :: "'w env \<Rightarrow> ('w \<Rightarrow> byte list) \<Rightarrow> bool" where
  "link_in E pend \<longleftrightarrow>
     (\<forall>n t w rc data w'. bulk_in E n t w = ((rc, data), w') \<longrightarrow>
        length data \<le> n \<and> pend w = data @ pend w' \<and>
        (rc \<noteq> LIBUSB_SUCCESS \<and> rc \<noteq> LIBUSB_ERROR_TIMEOUT \<longrightarrow> data = []))
     \<and> (\<forall>e w. pend (clear_halt E e w) = pend w)
     \<and> (\<forall>s n w. pend (nanosleep E s n w) = pend w)"

definition link_out :: "'w env \<Rightarrow> ('w \<Rightarrow> byte list) \<Rightarrow> bool" where
  "link_out E sent \<longleftrightarrow>
     (\<forall>bs t w rc n w'. bulk_out E bs t w = ((rc, n), w') \<longrightarrow>
        n \<le> length bs \<and> sent w' = sent w @ take n bs \<and>
        (rc \<noteq> LIBUSB_SUCCESS \<and> rc \<noteq> LIBUSB_ERROR_TIMEOUT \<longrightarrow> n = 0))
     \<and> (\<forall>e w. sent (clear_halt E e w) = sent w)
     \<and> (\<forall>s n w. sent (nanosleep E s n w) = sent w)"

text \<open>A link that delivers: queued bytes arrive, requests go out, and going out leaves
  the queue of the device alone.\<close>

definition link_ready :: "'w env \<Rightarrow> ('w \<Rightarrow> byte list) \<Rightarrow> bool" where
  "link_ready E pend \<longleftrightarrow>
     (\<forall>n t w rc data w'. bulk_in E n t w = ((rc, data), w') \<longrightarrow> 0 < n \<longrightarrow> pend w \<noteq> [] \<longrightarrow>
        rc = LIBUSB_SUCCESS \<and> data \<noteq> [])
     \<and> (\<forall>bs t w rc n w'. bulk_out E bs t w = ((rc, n), w') \<longrightarrow> bs \<noteq> [] \<longrightarrow>
        rc = LIBUSB_SUCCESS \<and> 0 < n \<and> pend w' = pend w)"

lemma link_inD:
  assumes "link_in E pend" "bulk_in E n t w = ((rc, data), w')"
  shows "length data \<le> n" "pend w = data @ pend w'"
    "rc \<noteq> LIBUSB_SUCCESS \<Longrightarrow> rc \<noteq> LIBUSB_ERROR_TIMEOUT \<Longrightarrow> data = []"
  using assms unfolding link_in_def by blast+

lemma link_in_pauses [simp, frame_rules]:
  assumes "link_in E pend"
  shows "pend (clear_halt E e w) = pend w" "pend (nanosleep E s n w) = pend w"
    "pend (sleep_ms E ms w) = pend w"
  using assms by (auto simp: link_in_def sleep_ms_def)

lemma link_outD:
  assumes "link_out E sent" "bulk_out E bs t w = ((rc, n), w')"
  shows "n \<le> length bs" "sent w' = sent w @ take n bs"
    "rc \<noteq> LIBUSB_SUCCESS \<Longrightarrow> rc \<noteq> LIBUSB_ERROR_TIMEOUT \<Longrightarrow> n = 0"
  using assms unfolding link_out_def by blast+

lemma link_out_pauses [simp, frame_rules]:
  assumes "link_out E sent"
  shows "sent (clear_halt E e w) = sent w" "sent (nanosleep E s n w) = sent w"
    "sent (sleep_ms E ms w) = sent w"
  using assms by (auto simp: link_out_def sleep_ms_def)

lemma link_readyD:
  assumes "link_ready E pend"
  shows "bulk_in E n t w = ((rc, data), w') \<Longrightarrow> 0 < n \<Longrightarrow> pend w \<noteq> [] \<Longrightarrow>
      rc = LIBUSB_SUCCESS \<and> data \<noteq> []"
    and "bulk_out E bs t w = ((rc, m), w') \<Longrightarrow> bs \<noteq> [] \<Longrightarrow>
      rc = LIBUSB_SUCCESS \<and> 0 < m \<and> pend w' = pend w"
  using assms unfolding link_ready_def by blast+

section \<open>Reading moves exactly what it says\<close>

lemma in_tries_link:
  assumes "link_in E pend"
  shows "in_tries E k n t (rc0, []) w = ((rc, data), w') \<Longrightarrow>
    length data \<le> n \<and> pend w = data @ pend w'"
proof (induction k arbitrary: rc0 w)
  case 0
  then show ?case by simp
next
  case (Suc k)
  obtain rc1 d1 w1 where b: "bulk_in E n t w = ((rc1, d1), w1)"
    by (metis surj_pair)
  show ?case
  proof (cases "rc1 = LIBUSB_SUCCESS \<or> rc1 = LIBUSB_ERROR_TIMEOUT")
    case True
    with Suc.prems b have "data = d1" "w' = w1"
      by auto
    then show ?thesis
      using link_inD(1,2) [OF assms b] by simp
  next
    case False
    then have "d1 = []"
      using link_inD(3) [OF assms b] by blast
    with Suc.prems b False
    have "in_tries E k n t (rc1, []) (sleep_ms E 10 (clear_halt E EP_IN w1)) = ((rc, data), w')"
      by simp
    from Suc.IH [OF this] link_inD(2) [OF assms b] \<open>d1 = []\<close> show ?thesis
      by (simp add: assms link_in_pauses)
  qed
qed

lemma in_tries_ready:
  assumes "link_ready E pend" "0 < n" "pend w \<noteq> []"
    "in_tries E (Suc k) n t r w = ((rc, data), w')"
  shows "rc = LIBUSB_SUCCESS" "data \<noteq> []"
  using assms link_readyD(1) [OF assms(1) _ assms(2,3)]
  by (auto split: prod.splits if_splits)

lemma usb_read_loop_link:
  "usb_read_loop E len t got w = ((st, bs), w') \<Longrightarrow> link_in E pend \<Longrightarrow> length got \<le> len \<Longrightarrow>
    \<exists>d. pend w = d @ pend w' \<and> (st = SANE_STATUS_GOOD \<longrightarrow> bs = got @ d \<and> length bs = len)"
proof (induction E len t got w rule: usb_read_loop.induct)
  case (1 E len t got w)
  show ?case
  proof (cases "length got < len")
    case False
    with "1.prems" show ?thesis
      by (auto simp: usb_read_loop.simps [of E len t got w])
  next
    case True
    obtain rc data w1 where r:
      "in_tries E 3 (len - length got) t (LIBUSB_ERROR_OTHER, []) w = ((rc, data), w1)"
      by (metis surj_pair)
    note moved = in_tries_link [OF "1.prems"(2) r]
    show ?thesis
    proof (cases "rc \<noteq> LIBUSB_SUCCESS \<or> data = []")
      case True
      with \<open>length got < len\<close> r "1.prems"(1) moved show ?thesis
        by (auto simp: usb_read_loop.simps [of E len t got w])
    next
      case False
      with \<open>length got < len\<close> r "1.prems"(1)
      have "usb_read_loop E len t (got @ data) w1 = ((st, bs), w')"
        by (simp add: usb_read_loop.simps [of E len t got w])
      note step = this
      have "length (got @ data) \<le> len"
        using moved \<open>length got < len\<close> by auto
      from "1.IH" [OF \<open>length got < len\<close> r [symmetric] refl False step "1.prems"(2) this]
      obtain d where "pend w1 = d @ pend w'"
        "st = SANE_STATUS_GOOD \<longrightarrow> bs = (got @ data) @ d \<and> length bs = len" by blast
      with moved show ?thesis by (intro exI [of _ "data @ d"]) auto
    qed
  qed
qed

lemma usb_read_loop_ready:
  "link_in E pend \<Longrightarrow> link_ready E pend \<Longrightarrow> length got \<le> len \<Longrightarrow>
   len - length got \<le> length (pend w) \<Longrightarrow> \<exists>bs w'. usb_read_loop E len t got w = ((SANE_STATUS_GOOD, bs), w')"
proof (induction E len t got w rule: usb_read_loop.induct)
  case (1 E len t got w)
  show ?case
  proof (cases "length got < len")
    case False
    then show ?thesis
      by (simp add: usb_read_loop.simps [of E len t got w])
  next
    case True
    obtain rc data w1 where r:
      "in_tries E 3 (len - length got) t (LIBUSB_ERROR_OTHER, []) w = ((rc, data), w1)"
      by (metis surj_pair)
    note moved = in_tries_link [OF "1.prems"(1) r]
    have "pend w \<noteq> []" using True "1.prems"(4) by auto
    with r in_tries_ready [OF "1.prems"(2)] True
    have ok: "\<not> (rc \<noteq> LIBUSB_SUCCESS \<or> data = [])"
      by (metis numeral_3_eq_3 zero_less_diff)
    from "1.IH" [OF True r [symmetric] refl ok "1.prems"(1,2)] moved True "1.prems"(4)
    have "\<exists>bs w'. usb_read_loop E len t (got @ data) w1 = ((SANE_STATUS_GOOD, bs), w')"
      by auto
    with True r ok show ?thesis
      by (simp add: usb_read_loop.simps [of E len t got w])
  qed
qed

text \<open>A good read returns the bytes asked for, and nothing else leaves the queue.\<close>

lemma usb_read_link:
  assumes "usb_read E len t w = ((st, bs), w')" "link_in E pend"
  shows "\<exists>d. pend w = d @ pend w' \<and> (st = SANE_STATUS_GOOD \<longrightarrow> bs = d \<and> length bs = len)"
  using usb_read_loop_link [OF assms(1) [unfolded usb_read_def] assms(2)] by simp

lemma usb_read_good:
  assumes "usb_read E len t w = ((SANE_STATUS_GOOD, bs), w')" "link_in E pend"
  shows "length bs = len" "pend w = bs @ pend w'"
  using usb_read_link [OF assms] by auto

lemma usb_read_ready:
  assumes "link_in E pend" "link_ready E pend" "len \<le> length (pend w)"
  obtains w' where "usb_read E len t w = ((SANE_STATUS_GOOD, take len (pend w)), w')"
    "pend w' = drop len (pend w)"
proof -
  obtain bs w' where u: "usb_read E len t w = ((SANE_STATUS_GOOD, bs), w')"
    using usb_read_loop_ready [OF assms(1,2), of "[]" len w t] assms(3)
    by (auto simp: usb_read_def)
  with usb_read_good [OF u assms(1)] have "bs = take len (pend w)" "pend w' = drop len (pend w)"
    by simp_all
  with u that show thesis by blast
qed

lemma drain_payload_link:
  "drain_payload E n t w = (st, w') \<Longrightarrow> link_in E pend \<Longrightarrow>
    \<exists>d. pend w = d @ pend w' \<and> (st = SANE_STATUS_GOOD \<longrightarrow> length d = n)"
proof (induction E n t w rule: drain_payload.induct)
  case (1 E n t w)
  show ?case
  proof (cases "n = 0")
    case True
    with "1.prems" show ?thesis by (simp add: drain_payload.simps)
  next
    case False
    define chunk where "chunk = (if 512 < n then 512 else n)"
    obtain st1 bs w1 where r: "usb_read E chunk t w = ((st1, bs), w1)"
      by (metis surj_pair)
    from usb_read_link [OF r "1.prems"(2)] obtain d where
      d: "pend w = d @ pend w1" "st1 = SANE_STATUS_GOOD \<longrightarrow> length d = chunk" by auto
    show ?thesis
    proof (cases "st1 = SANE_STATUS_GOOD")
      case False
      with \<open>n \<noteq> 0\<close> r "1.prems"(1) d show ?thesis
        by (auto simp: drain_payload.simps [of E n t w] chunk_def Let_def)
    next
      case True
      with \<open>n \<noteq> 0\<close> r "1.prems"(1) have rec: "drain_payload E (n - chunk) t w1 = (st, w')"
        by (simp add: drain_payload.simps [of E n t w] chunk_def Let_def)
      from "1.IH" [OF \<open>n \<noteq> 0\<close> chunk_def r [symmetric] refl _ rec "1.prems"(2)] True d
      show ?thesis by (auto simp: chunk_def split: if_splits)
    qed
  qed
qed

lemma drain_payload_ready:
  "link_in E pend \<Longrightarrow> link_ready E pend \<Longrightarrow> n \<le> length (pend w) \<Longrightarrow>
    \<exists>w'. drain_payload E n t w = (SANE_STATUS_GOOD, w') \<and> pend w' = drop n (pend w)"
proof (induction E n t w rule: drain_payload.induct)
  case (1 E n t w)
  show ?case
  proof (cases "n = 0")
    case True
    then show ?thesis by (simp add: drain_payload.simps)
  next
    case False
    define chunk where "chunk = (if 512 < n then 512 else n)"
    have c: "chunk \<le> n" by (simp add: chunk_def)
    then obtain w1 where r: "usb_read E chunk t w = ((SANE_STATUS_GOOD, take chunk (pend w)), w1)"
      and p: "pend w1 = drop chunk (pend w)"
      using usb_read_ready [OF "1.prems"(1,2), of chunk w t] "1.prems"(3) by auto
    from "1.IH" [OF \<open>n \<noteq> 0\<close> chunk_def r [symmetric] refl _ "1.prems"(1,2)] p c "1.prems"(3)
    show ?thesis
      using \<open>n \<noteq> 0\<close> r by (simp add: drain_payload.simps [of E n t w] chunk_def Let_def)
  qed
qed

section \<open>Frames on the wire\<close>

text \<open>
  The wire format, stated once: magic, command, argument, a word nobody reads, status,
  payload length, eight reserved bytes, payload.
\<close>

definition header_bytes :: "pantum_frame \<Rightarrow> u32 \<Rightarrow> byte list \<Rightarrow> byte list" where
  "header_bytes f x y =
     put_be32 PANTUM_MAGIC @ put_be32 (f_cmd f) @ put_be32 (f_arg0 f) @ put_be32 x
     @ put_be32 (f_status f) @ put_be32 (f_plen f) @ y"

lemma length_header_bytes [simp]: "length (header_bytes f x y) = 24 + length y"
  by (simp add: header_bytes_def)

lemma parse_header_bytes:
  assumes "f_plen f \<le> PANTUM_MAX_PAYLOAD"
  shows "parse_header (header_bytes f x y) = Recv_Frame f"
  using assms by (simp add: parse_header_def header_bytes_def Let_def not_less)

lemma split_be32:
  assumes "length buf = n + 4"
  obtains v rest where "buf = put_be32 v @ rest" "length rest = n"
proof
  show "buf = put_be32 (get_be32 (take 4 buf)) @ drop 4 buf"
    using assms by (simp add: put_get_be32)
  show "length (drop 4 buf) = n" using assms by simp
qed

lemma parse_header_Frame:
  assumes "parse_header buf = Recv_Frame f" "length buf = 32"
  shows "\<exists>x y. buf = header_bytes f x y \<and> length y = 8" "f_plen f \<le> PANTUM_MAX_PAYLOAD"
proof -
  obtain m b1 where 1: "buf = put_be32 m @ b1" "length b1 = 28"
    using split_be32 [of buf 28] assms(2) by auto
  obtain c b2 where 2: "b1 = put_be32 c @ b2" "length b2 = 24"
    using split_be32 [of b1 24] 1(2) by auto
  obtain a b3 where 3: "b2 = put_be32 a @ b3" "length b3 = 20"
    using split_be32 [of b2 20] 2(2) by auto
  obtain x b4 where 4: "b3 = put_be32 x @ b4" "length b4 = 16"
    using split_be32 [of b3 16] 3(2) by auto
  obtain s b5 where 5: "b4 = put_be32 s @ b5" "length b5 = 12"
    using split_be32 [of b4 12] 4(2) by auto
  obtain l y where 6: "b5 = put_be32 l @ y" "length y = 8"
    using split_be32 [of b5 8] 5(2) by auto
  from assms(1) have "m = PANTUM_MAGIC" "f = \<lparr>f_cmd = c, f_arg0 = a, f_status = s, f_plen = l\<rparr>"
    "f_plen f \<le> PANTUM_MAX_PAYLOAD"
    by (auto simp: parse_header_def Let_def 1 2 3 4 5 6 split: if_splits)
  then show "\<exists>x y. buf = header_bytes f x y \<and> length y = 8" "f_plen f \<le> PANTUM_MAX_PAYLOAD"
    by (auto simp: header_bytes_def 1 2 3 4 5 6)
qed

lemma parse_header_not_Idle [simp]: "parse_header buf \<noteq> Recv_Idle"
  by (simp add: parse_header_def Let_def)

lemma send_frame_usb_write:
  assumes "length payload \<le> PANTUM_SETTINGS_LEN"
  shows "send_frame E cmd payload w =
    usb_write E (header_bytes \<lparr>f_cmd = cmd, f_arg0 = 0, f_status = 0,
      f_plen = of_nat (length payload)\<rparr> 0 (replicate 8 0) @ payload) w"
proof -
  have "put_be32 0 = replicate 4 0"
    by (simp add: put_be32_def numeral_eq_Suc)
  with assms show ?thesis
    by (simp add: send_frame_def Let_def poke_def protocol_sizes header_bytes_def not_less
        numeral_eq_Suc)
qed

section \<open>Receiving frames\<close>

text \<open>An idle glance leaves the stream where it was; a frame has taken its 32 header
  bytes and no more. Both hold with and without \<^verbatim>\<open>probe\<close>.\<close>

lemma recv_rest_link:
  assumes "recv_rest E t got w = (r, w')" "link_in E pend" "length got \<le> 32"
  shows "\<exists>d. pend w = d @ pend w' \<and>
    (\<forall>f. r = Recv_Frame f \<longrightarrow> length (got @ d) = 32 \<and> parse_header (got @ d) = Recv_Frame f)"
    "r \<noteq> Recv_Idle"
proof -
  obtain st bs w1 where u: "usb_read E (32 - length got) t w = ((st, bs), w1)"
    by (metis surj_pair)
  from usb_read_link [OF u assms(2)] obtain d where
    "pend w = d @ pend w1 \<and> (st = SANE_STATUS_GOOD \<longrightarrow> bs = d \<and> length bs = 32 - length got)"
    by blast
  with assms u show "\<exists>d. pend w = d @ pend w' \<and>
    (\<forall>f. r = Recv_Frame f \<longrightarrow> length (got @ d) = 32 \<and> parse_header (got @ d) = Recv_Frame f)"
    by (auto simp: recv_rest_def protocol_sizes split: if_splits)
  from assms u show "r \<noteq> Recv_Idle"
    by (auto simp: recv_rest_def protocol_sizes split: if_splits)
qed

lemma recv_frame_link:
  assumes "recv_frame E t probe w = (r, w')" "link_in E pend"
  shows "r = Recv_Frame f \<Longrightarrow>
      \<exists>x y. pend w = header_bytes f x y @ pend w' \<and> length y = 8 \<and> f_plen f \<le> PANTUM_MAX_PAYLOAD"
    and "r = Recv_Idle \<Longrightarrow> probe \<and> pend w' = pend w"
    and "\<exists>d. pend w = d @ pend w'"
proof -
  have main: "(r = Recv_Frame f \<longrightarrow> (\<exists>h. length h = 32 \<and> pend w = h @ pend w' \<and>
      parse_header h = Recv_Frame f)) \<and> (r = Recv_Idle \<longrightarrow> probe \<and> pend w' = pend w) \<and>
      (\<exists>d. pend w = d @ pend w')" for f
  proof (cases probe)
    case False
    with assms(1) have "recv_rest E t [] w = (r, w')"
      by (simp add: recv_frame_def)
    from recv_rest_link [OF this assms(2)] show ?thesis by fastforce
  next
    case True
    obtain rc data w1 where b: "bulk_in E 32 TIMEOUT_POLL w = ((rc, data), w1)"
      by (metis surj_pair)
    note moved = link_inD [OF assms(2) b]
    consider (bad) "rc \<noteq> LIBUSB_SUCCESS" "rc \<noteq> LIBUSB_ERROR_TIMEOUT"
      | (idle) "rc = LIBUSB_SUCCESS \<or> rc = LIBUSB_ERROR_TIMEOUT" "data = []"
      | (more) "rc = LIBUSB_SUCCESS \<or> rc = LIBUSB_ERROR_TIMEOUT" "data \<noteq> []"
      by blast
    then show ?thesis
    proof cases
      case more
      with assms(1) True b have "recv_rest E t data w1 = (r, w')"
        by (auto simp: recv_frame_def protocol_sizes)
      from recv_rest_link [OF this assms(2) moved(1)] moved(2) show ?thesis
        by (metis append.assoc)
    qed (use assms(1) True b moved in \<open>auto simp: recv_frame_def protocol_sizes\<close>)
  qed
  then show "r = Recv_Frame f \<Longrightarrow>
      \<exists>x y. pend w = header_bytes f x y @ pend w' \<and> length y = 8 \<and> f_plen f \<le> PANTUM_MAX_PAYLOAD"
    using parse_header_Frame by metis
  from main show "r = Recv_Idle \<Longrightarrow> probe \<and> pend w' = pend w" "\<exists>d. pend w = d @ pend w'"
    by blast+
qed

lemma recv_frame_ready:
  assumes "link_in E pend" "link_ready E pend" "f_plen f \<le> PANTUM_MAX_PAYLOAD"
    "pend w = header_bytes f x y @ rest" "length y = 8"
  obtains w' where "recv_frame E t False w = (Recv_Frame f, w')" "pend w' = rest"
proof -
  obtain w' where "usb_read E 32 t w = ((SANE_STATUS_GOOD, header_bytes f x y), w')" "pend w' = rest"
    using usb_read_ready [OF assms(1,2), of 32 w t] assms(4,5) by auto
  with that assms(3) show thesis
    by (simp add: recv_frame_def recv_rest_def protocol_sizes parse_header_bytes)
qed

lemma usb_write_ready:
  "link_ready E pend \<Longrightarrow> \<exists>w'. usb_write E buf w = (SANE_STATUS_GOOD, w') \<and> pend w' = pend w"
proof (induction E buf w rule: usb_write.induct)
  case (1 E buf w)
  show ?case
  proof (cases "buf = []")
    case True
    then show ?thesis by (simp add: usb_write.simps)
  next
    case False
    obtain rc n w1 where b: "bulk_out E buf TIMEOUT_WRITE w = ((rc, n), w1)"
      by (metis surj_pair)
    note ok = link_readyD(2) [OF "1.prems" b False]
    have t: "out_tries E 3 buf (LIBUSB_ERROR_OTHER, 0) w = ((rc, n), w1)"
      using ok b by (simp add: numeral_3_eq_3)
    from "1.IH" [OF False t [symmetric] refl _ "1.prems"] ok show ?thesis
      using False t by (simp add: usb_write.simps [of E buf w])
  qed
qed

lemma out_tries_link:
  assumes "link_out E sent"
  shows "out_tries E k buf (rc0, 0) w = ((rc, n), w') \<Longrightarrow> sent w' = sent w @ take n buf"
proof (induction k arbitrary: rc0 w)
  case 0
  then show ?case by simp
next
  case (Suc k)
  obtain rc1 n1 w1 where b: "bulk_out E buf TIMEOUT_WRITE w = ((rc1, n1), w1)"
    by (metis surj_pair)
  note moved = link_outD [OF assms b]
  show ?case
  proof (cases "rc1 = LIBUSB_SUCCESS \<or> rc1 = LIBUSB_ERROR_TIMEOUT")
    case True
    with Suc.prems b moved show ?thesis by auto
  next
    case False
    with moved(3) have "n1 = 0" by blast
    with Suc.prems b False
    have "out_tries E k buf (rc1, 0) (sleep_ms E 10 (clear_halt E EP_OUT w1)) = ((rc, n), w')"
      by simp
    from Suc.IH [OF this] moved \<open>n1 = 0\<close> show ?thesis by (simp add: assms)
  qed
qed

lemma usb_write_link:
  "usb_write E buf w = (st, w') \<Longrightarrow> link_out E sent \<Longrightarrow>
    \<exists>n. sent w' = sent w @ take n buf \<and> (st = SANE_STATUS_GOOD \<longrightarrow> take n buf = buf)"
proof (induction E buf w rule: usb_write.induct)
  case (1 E buf w)
  show ?case
  proof (cases "buf = []")
    case True
    with "1.prems" show ?thesis by (simp add: usb_write.simps)
  next
    case False
    obtain rc n w1 where t: "out_tries E 3 buf (LIBUSB_ERROR_OTHER, 0) w = ((rc, n), w1)"
      by (metis surj_pair)
    note moved = out_tries_link [OF "1.prems"(2) t]
    show ?thesis
    proof (cases "rc \<noteq> LIBUSB_SUCCESS \<or> n = 0")
      case True
      with False t moved "1.prems"(1) show ?thesis
        by (auto simp: usb_write.simps [of E buf w])
    next
      case ok: False
      with False t "1.prems"(1) have rec: "usb_write E (drop n buf) w1 = (st, w')"
        by (auto simp: usb_write.simps [of E buf w])
      from "1.IH" [OF False t [symmetric] refl ok rec "1.prems"(2)] obtain m where
        "sent w' = sent w1 @ take m (drop n buf)"
        "st = SANE_STATUS_GOOD \<longrightarrow> take m (drop n buf) = drop n buf" by blast
      with moved show ?thesis
        by (intro exI [of _ "n + m"]) (auto simp: take_add)
    qed
  qed
qed

text \<open>The request that leaves the host is one well-formed frame of the wire format.\<close>

lemma send_frame_sent:
  assumes "send_frame E cmd payload w = (SANE_STATUS_GOOD, w')" "link_out E sent"
  shows "sent w' = sent w @ header_bytes \<lparr>f_cmd = cmd, f_arg0 = 0, f_status = 0,
      f_plen = of_nat (length payload)\<rparr> 0 (replicate 8 0) @ payload"
proof -
  from assms(1) have "length payload \<le> PANTUM_SETTINGS_LEN"
    by (auto simp: send_frame_def Let_def split: if_splits)
  note u = assms(1) [unfolded send_frame_usb_write [OF this]]
  from usb_write_link [OF u assms(2)] show ?thesis by auto
qed

lemma send_frame_ready:
  assumes "link_ready E pend" "length payload \<le> PANTUM_SETTINGS_LEN"
  obtains w' where "send_frame E cmd payload w = (SANE_STATUS_GOOD, w')" "pend w' = pend w"
  using usb_write_ready [OF assms(1)] send_frame_usb_write [OF assms(2)] by metis

section \<open>Stale replies\<close>

text \<open>A whole frame as it lies on the wire, with the two fields nobody reads.\<close>

type_synonym wire_frame = "pantum_frame \<times> u32 \<times> byte list \<times> byte list"

fun frame_wire :: "wire_frame \<Rightarrow> byte list" where
  "frame_wire (f, x, y, payload) = header_bytes f x y @ payload"

fun frame_wf :: "wire_frame \<Rightarrow> bool" where
  "frame_wf (f, x, y, payload) \<longleftrightarrow>
     length y = 8 \<and> length payload = unat (f_plen f) \<and> f_plen f \<le> PANTUM_MAX_PAYLOAD"

definition stale_for :: "u32 \<Rightarrow> wire_frame \<Rightarrow> bool" where
  "stale_for cmd s \<longleftrightarrow> frame_wf s \<and> f_cmd (fst s) \<noteq> cmd"

text \<open>One turn of the loop on a stale frame.\<close>

lemma await_ack_stale:
  assumes "link_in E pend" "link_ready E pend" "stale_for cmd s" "pend w = frame_wire s @ rest"
  obtains w' where "pend w' = rest"
    "await_ack E cmd t skipped w =
       (if COMMAND_MAX_SKIP \<le> skipped + 1 then (Inl SANE_STATUS_IO_ERROR, w')
        else await_ack E cmd TIMEOUT_TEARDOWN (skipped + 1) w')"
proof -
  obtain f x y p where s: "s = (f, x, y, p)" by (metis prod_cases4)
  from assms(3,4) s have wf: "length y = 8" "length p = unat (f_plen f)"
    "f_plen f \<le> PANTUM_MAX_PAYLOAD" "f_cmd f \<noteq> cmd" "pend w = header_bytes f x y @ p @ rest"
    by (auto simp: stale_for_def)
  obtain w1 where 1: "recv_frame E t False w = (Recv_Frame f, w1)" "pend w1 = p @ rest"
    using recv_frame_ready [OF assms(1,2) wf(3,5,1)] .
  obtain w2 where 2: "drain_payload E (unat (f_plen f)) TIMEOUT_TEARDOWN w1 = (SANE_STATUS_GOOD, w2)"
    "pend w2 = rest"
    using drain_payload_ready [OF assms(1,2), of "unat (f_plen f)" w1 TIMEOUT_TEARDOWN] 1 wf(2) by auto
  from 1 2 wf(4) show thesis
    by (intro that [of w2]) (simp_all add: await_ack.simps [of E cmd t skipped w])
qed

lemma await_ack_skips:
  assumes "link_in E pend" "link_ready E pend" "f_cmd f = cmd" "f_plen f \<le> PANTUM_MAX_PAYLOAD"
    "length y = 8"
  shows "\<forall>s \<in> set ss. stale_for cmd s \<Longrightarrow> skipped + length ss < COMMAND_MAX_SKIP \<Longrightarrow>
    pend w = concat (map frame_wire ss) @ header_bytes f x y @ rest \<Longrightarrow>
    \<exists>w'. await_ack E cmd t skipped w = (Inr f, w') \<and> pend w' = rest"
proof (induction ss arbitrary: t skipped w)
  case Nil
  then obtain w' where "recv_frame E t False w = (Recv_Frame f, w')" "pend w' = rest"
    using recv_frame_ready [OF assms(1,2,4) _ assms(5), of w x rest t] by auto
  with assms(3) show ?case by (simp add: await_ack.simps [of E cmd t skipped w])
next
  case (Cons s ss)
  obtain w' where w': "pend w' = concat (map frame_wire ss) @ header_bytes f x y @ rest"
    "await_ack E cmd t skipped w =
       (if COMMAND_MAX_SKIP \<le> skipped + 1 then (Inl SANE_STATUS_IO_ERROR, w')
        else await_ack E cmd TIMEOUT_TEARDOWN (skipped + 1) w')"
    using await_ack_stale [OF assms(1,2), of cmd s w _ t skipped] Cons.prems by auto
  then show ?case
    using Cons.IH [OF _ _ w'(1), of "skipped + 1" TIMEOUT_TEARDOWN] Cons.prems by auto
qed

lemma await_ack_gives_up:
  assumes "link_in E pend" "link_ready E pend"
  shows "\<forall>s \<in> set ss. stale_for cmd s \<Longrightarrow> skipped < COMMAND_MAX_SKIP \<Longrightarrow>
    skipped + length ss = COMMAND_MAX_SKIP \<Longrightarrow> pend w = concat (map frame_wire ss) @ rest \<Longrightarrow>
    \<exists>w'. await_ack E cmd t skipped w = (Inl SANE_STATUS_IO_ERROR, w') \<and> pend w' = rest"
proof (induction ss arbitrary: t skipped w)
  case Nil
  then show ?case by simp
next
  case (Cons s ss)
  obtain w' where w': "pend w' = concat (map frame_wire ss) @ rest"
    "await_ack E cmd t skipped w =
       (if COMMAND_MAX_SKIP \<le> skipped + 1 then (Inl SANE_STATUS_IO_ERROR, w')
        else await_ack E cmd TIMEOUT_TEARDOWN (skipped + 1) w')"
    using await_ack_stale [OF assms, of cmd s w _ t skipped] Cons.prems by auto
  show ?case
  proof (cases "COMMAND_MAX_SKIP \<le> skipped + 1")
    case True
    with Cons.prems(3) have "ss = []" by (cases ss) auto
    with True w' show ?thesis by simp
  next
    case False
    with w' Cons.IH [OF _ _ _ w'(1), of "skipped + 1" TIMEOUT_TEARDOWN] Cons.prems
    show ?thesis by simp
  qed
qed

end
