(* ===== verification/Wire.thy ===== *)
theory Wire
  imports Link
begin

text \<open>
  A concrete link to run the model on: the bytes the device will send, those it was
  sent, and the answers the allocator will give. It keeps every promise of \<open>Link\<close>,
  so the hypotheses of the theorems can be met together.
\<close>

record wire =
  w_in :: "byte list"
  w_out :: "byte list"
  w_mem :: "bool list"

definition wire_env :: "wire env" where
  "wire_env =
     \<lparr>bulk_in = (\<lambda>n t w.
        if w_in w = [] then ((LIBUSB_ERROR_TIMEOUT, []), w)
        else ((LIBUSB_SUCCESS, take n (w_in w)), w\<lparr>w_in := drop n (w_in w)\<rparr>)),
      bulk_out = (\<lambda>bs t w. ((LIBUSB_SUCCESS, length bs), w\<lparr>w_out := w_out w @ bs\<rparr>)),
      clear_halt = (\<lambda>e w. w),
      nanosleep = (\<lambda>s n w. w),
      alloc_ok = (\<lambda>n w.
        case w_mem w of [] \<Rightarrow> (True, w) | b # bs \<Rightarrow> (b, w\<lparr>w_mem := bs\<rparr>))\<rparr>"

lemma wire_link_in [simp]: "link_in wire_env w_in"
  by (auto simp: link_in_def wire_env_def)

lemma wire_link_out [simp]: "link_out wire_env w_out"
  by (auto simp: link_out_def wire_env_def)

lemma wire_link_ready [simp]: "link_ready wire_env w_in"
  by (auto simp: link_ready_def wire_env_def)

section \<open>Commands and their acknowledgements\<close>

text \<open>
  C17. A command finds its acknowledgement behind stale replies. On a link that delivers,
  if the device has up to three leftover frames queued in front of the acknowledgement
  (each answering some other command, each with any payload), \<^verbatim>\<open>command\<close> drains them
  whole, returns the status of the acknowledgement mapped to SANE, hands out the
  acknowledgement and the reply the caller asked for, and leaves the stream exactly
  behind that frame.
\<close>

theorem command_steps_over_stale:
  assumes link: "link_in E pend" "link_ready E pend"
    and request: "length payload \<le> PANTUM_SETTINGS_LEN"
    and stale: "\<forall>s \<in> set ss. stale_for cmd s" "length ss < COMMAND_MAX_SKIP"
    and ack: "frame_wf (f, x, y, body)" "f_cmd f = cmd"
    and want: "want = None \<or> (want = Some (length body) \<and> body \<noteq> [])"
    and queued: "pend w = concat (map frame_wire ss) @ frame_wire (f, x, y, body) @ rest"
  shows "\<exists>w'. command E cmd payload want w =
      (\<lparr>c_status = map_status (f_status f), c_ack = Some f,
        c_reply = (if want = None then [] else body)\<rparr>, w') \<and> pend w' = rest"
proof -
  obtain w1 where 1: "send_frame E cmd payload w = (SANE_STATUS_GOOD, w1)" "pend w1 = pend w"
    using send_frame_ready [OF link(2) request] .
  from ack have wf: "length y = 8" "length body = unat (f_plen f)" "f_plen f \<le> PANTUM_MAX_PAYLOAD"
    by simp_all
  obtain w2 where 2: "await_ack E cmd TIMEOUT_READ 0 w1 = (Inr f, w2)" "pend w2 = body @ rest"
    using await_ack_skips [OF link ack(2) wf(3,1) stale(1), of 0 w1 x "body @ rest" TIMEOUT_READ]
      stale(2) queued 1(2) by auto
  obtain w3 where 3: "drain_payload E (length body) TIMEOUT_READ w2 = (SANE_STATUS_GOOD, w3)"
    "pend w3 = rest"
    using drain_payload_ready [OF link, of "length body" w2 TIMEOUT_READ] 2(2) by auto
  obtain w4 where 4: "usb_read E (length body) TIMEOUT_READ w2 = ((SANE_STATUS_GOOD, body), w4)"
    "pend w4 = rest"
    using usb_read_ready [OF link, of "length body" w2 TIMEOUT_READ] 2(2) by auto
  have result: "command_done f r = \<lparr>c_status = map_status (f_status f), c_ack = Some f, c_reply = r\<rparr>" for r
    by (simp add: command_done_def map_status_def)
  show ?thesis
    using want 1(1) 2 3 4 wf(2) [symmetric] by (cases "body = []") (auto simp: command_def result)
qed

text \<open>A lock request with two replies of a torn-down session still queued.\<close>

theorem command_steps_over_stale_witness:
  "\<exists>w'. command wire_env CMD_LOCK [] None
      \<lparr>w_in = header_bytes \<lparr>f_cmd = 1, f_arg0 = 0, f_status = 0, f_plen = 0\<rparr> 0 (replicate 8 0)
          @ (header_bytes \<lparr>f_cmd = 3, f_arg0 = 0, f_status = 0, f_plen = 2\<rparr> 0 (replicate 8 0) @ [7, 9])
          @ header_bytes \<lparr>f_cmd = 0, f_arg0 = 0, f_status = 2, f_plen = 0\<rparr> 0 (replicate 8 0),
        w_out = [], w_mem = []\<rparr> =
      (\<lparr>c_status = SANE_STATUS_DEVICE_BUSY,
        c_ack = Some \<lparr>f_cmd = 0, f_arg0 = 0, f_status = 2, f_plen = 0\<rparr>, c_reply = []\<rparr>, w')
      \<and> w_in w' = []"
  using command_steps_over_stale [of wire_env w_in "[]"
      "[(\<lparr>f_cmd = 1, f_arg0 = 0, f_status = 0, f_plen = 0\<rparr>, 0, replicate 8 0, []),
        (\<lparr>f_cmd = 3, f_arg0 = 0, f_status = 0, f_plen = 2\<rparr>, 0, replicate 8 0, [7, 9])]"
      CMD_LOCK "\<lparr>f_cmd = 0, f_arg0 = 0, f_status = 2, f_plen = 0\<rparr>" 0 "replicate 8 0" "[]" None
      "\<lparr>w_in = header_bytes \<lparr>f_cmd = 1, f_arg0 = 0, f_status = 0, f_plen = 0\<rparr> 0 (replicate 8 0)
          @ (header_bytes \<lparr>f_cmd = 3, f_arg0 = 0, f_status = 0, f_plen = 2\<rparr> 0 (replicate 8 0) @ [7, 9])
          @ header_bytes \<lparr>f_cmd = 0, f_arg0 = 0, f_status = 2, f_plen = 0\<rparr> 0 (replicate 8 0),
        w_out = [], w_mem = []\<rparr>" "[]"]
  by (simp add: stale_for_def protocol_codes protocol_sizes map_status_def)

text \<open>
  C18. A fourth stale frame ends the wait: the command reports an I/O error instead of
  waiting longer, and the four frames are gone from the stream whole.
\<close>

theorem command_gives_up:
  assumes link: "link_in E pend" "link_ready E pend"
    and request: "length payload \<le> PANTUM_SETTINGS_LEN"
    and stale: "\<forall>s \<in> set ss. stale_for cmd s" "length ss = COMMAND_MAX_SKIP"
    and queued: "pend w = concat (map frame_wire ss) @ rest"
  shows "\<exists>w'. command E cmd payload want w =
      (\<lparr>c_status = SANE_STATUS_IO_ERROR, c_ack = None, c_reply = []\<rparr>, w') \<and> pend w' = rest"
proof -
  obtain w1 where 1: "send_frame E cmd payload w = (SANE_STATUS_GOOD, w1)" "pend w1 = pend w"
    using send_frame_ready [OF link(2) request] .
  obtain w2 where 2: "await_ack E cmd TIMEOUT_READ 0 w1 = (Inl SANE_STATUS_IO_ERROR, w2)"
    "pend w2 = rest"
    using await_ack_gives_up [OF link stale(1), of 0 w1 rest TIMEOUT_READ] stale(2) queued 1(2)
    by (auto simp: COMMAND_MAX_SKIP_def)
  with 1 show ?thesis by (auto simp: command_def command_fails_def)
qed

theorem command_gives_up_witness:
  "\<exists>w'. command wire_env CMD_LOCK [] None
      \<lparr>w_in = concat (map frame_wire (replicate 4
          (\<lparr>f_cmd = 1, f_arg0 = 0, f_status = 0, f_plen = 0\<rparr>, 0, replicate 8 0, []))) @ [5],
        w_out = [], w_mem = []\<rparr> =
      (\<lparr>c_status = SANE_STATUS_IO_ERROR, c_ack = None, c_reply = []\<rparr>, w') \<and> w_in w' = [5]"
  by (rule command_gives_up [where pend = w_in and ss = "replicate 4
        (\<lparr>f_cmd = 1, f_arg0 = 0, f_status = 0, f_plen = 0\<rparr>, 0, replicate 8 0, [])"])
     (simp_all add: stale_for_def protocol_codes protocol_sizes)

end
