(* ===== verification/Option_Laws.thy ===== *)
theory Option_Laws
  imports Options Wire
begin

text \<open>
  What the option table guarantees: words are snapped to legal and nearest values,
  every reachable table is consistent with the mode and source that are set, windows
  stay on the glass, and the parameters computed from them fit together.
\<close>

section \<open>Snapping a word to its constraint\<close>

lemma constrain_range_bounds:
  assumes "r_min r \<le> r_max r" "0 \<le> r_quant r"
  shows "r_min r \<le> constrain_range r v" "constrain_range r v \<le> r_max r"
proof -
  define c where "c = (if v < r_min r then r_min r else if r_max r < v then r_max r else v)"
  have c: "r_min r \<le> c" "c \<le> r_max r"
    using assms(1) by (auto simp: c_def)
  have "0 \<le> (c - r_min r + r_quant r sdiv 2) sdiv r_quant r" if "0 < r_quant r"
    using c that by (simp add: signed_divide_int_def pos_imp_zdiv_nonneg_iff zero_le_mult_iff sgn_if)
  then have "r_quant r \<noteq> 0 \<Longrightarrow> 0 \<le> (c - r_min r + r_quant r sdiv 2) sdiv r_quant r * r_quant r"
    using assms(2) by simp
  then show "r_min r \<le> constrain_range r v" "constrain_range r v \<le> r_max r"
    using c assms(1) by (auto simp: constrain_range_def Let_def c_def split: if_splits)
qed

text \<open>What a descriptor allows its word to be.\<close>

definition word_allowed :: "option_descriptor \<Rightarrow> int \<Rightarrow> bool" where
  "word_allowed d v =
     (if o_type d = SANE_TYPE_BOOL then v = 0 \<or> v = 1
      else case o_constraint d of
        CONSTRAINT_RANGE r \<Rightarrow> r_min r \<le> v \<and> v \<le> r_max r
      | CONSTRAINT_WORD_LIST l \<Rightarrow> v \<in> set (take (nat (l ! 0)) (tl l))
      | _ \<Rightarrow> True)"

lemma nearest_loop_in: "nearest_loop v xs best \<in> insert best (set xs)"
  by (induction xs arbitrary: best) (auto simp: Let_def split: if_splits)

text \<open>Away from the ends of the 32-bit range the distances do not wrap, and the answer is
  a closest element.\<close>

lemma wrap32_id: "- (2 ^ 31) \<le> i \<Longrightarrow> i < 2 ^ 31 \<Longrightarrow> wrap32 i = i"
  by (simp add: wrap32_def mod_pos_pos_trivial)

lemma word_distance_abs:
  assumes "\<bar>a\<bar> \<le> 2 ^ 30" "\<bar>v\<bar> < 2 ^ 30"
  shows "word_distance a v = \<bar>a - v\<bar>"
proof -
  have "- (2 ^ 30) \<le> a" "a \<le> 2 ^ 30" "- (2 ^ 30) < v" "v < 2 ^ 30"
    using assms by (auto simp: abs_le_iff abs_less_iff)
  then have "wrap32 (a - v) = a - v" "wrap32 (v - a) = v - a"
    by (auto intro!: wrap32_id)
  then show ?thesis by (simp add: word_distance_def)
qed

lemma nearest_loop_nearest:
  assumes "\<bar>v\<bar> < 2 ^ 30"
  shows "\<forall>x \<in> insert best (set xs). \<bar>x\<bar> \<le> 2 ^ 30 \<Longrightarrow> y \<in> insert best (set xs) \<Longrightarrow>
    \<bar>nearest_loop v xs best - v\<bar> \<le> \<bar>y - v\<bar>"
proof (induction xs arbitrary: best y)
  case Nil
  then show ?case by simp
next
  case (Cons x xs)
  define b where "b = (if word_distance x v < word_distance best v then x else best)"
  have b: "nearest_loop v (x # xs) best = nearest_loop v xs b"
    by (simp add: b_def Let_def)
  have d: "word_distance x v = \<bar>x - v\<bar>" "word_distance best v = \<bar>best - v\<bar>"
    using Cons.prems(1) assms by (auto intro!: word_distance_abs)
  have s: "\<forall>z \<in> insert b (set xs). \<bar>z\<bar> \<le> 2 ^ 30"
    using Cons.prems(1) by (auto simp: b_def)
  show ?case
  proof (cases "y \<in> set xs")
    case True
    then show ?thesis using Cons.IH [OF s, of y] b by simp
  next
    case False
    with Cons.prems(2) d have "\<bar>b - v\<bar> \<le> \<bar>y - v\<bar>" by (auto simp: b_def)
    with Cons.IH [OF s, of b] b show ?thesis by simp
  qed
qed


lemma constrain_list_in:
  assumes "l = n # x # xs" "nat n = Suc (length xs)"
  shows "constrain_list l v \<in> set (take (nat (l ! 0)) (tl l))"
  using assms nearest_loop_in [of v "x # xs" x] by (auto simp: constrain_list_def)

lemma constrain_list_nearest:
  assumes "l = n # x # xs" "nat n = Suc (length xs)" "\<forall>z \<in> set (x # xs). \<bar>z\<bar> \<le> 2 ^ 30"
    "\<bar>v\<bar> < 2 ^ 30" "y \<in> set (x # xs)"
  shows "\<bar>constrain_list l v - v\<bar> \<le> \<bar>y - v\<bar>"
  using assms nearest_loop_nearest [of v x "x # xs" y] by (simp add: constrain_list_def)

section \<open>The option table stays consistent\<close>

text \<open>The descriptor an option should have, given the source and the mode that are set.\<close>

definition expected_descriptor :: "pantum_handle \<Rightarrow> pantum_option \<Rightarrow> option_descriptor" where
  "expected_descriptor h opt =
     (let d = init_descriptor (h_has_adf h) opt;
          yr = (if source_is_adf h then y_range_adf else y_range)
      in if opt = OPT_THRESHOLD then
           d\<lparr>o_cap := (if mode_is h SCAN_MODE_LINEART then o_cap d - {SANE_CAP_INACTIVE} else o_cap d)\<rparr>
         else if opt = OPT_TL_Y \<or> opt = OPT_BR_Y then d\<lparr>o_constraint := CONSTRAINT_RANGE yr\<rparr>
         else if opt = OPT_RESOLUTION then
           d\<lparr>o_constraint := CONSTRAINT_WORD_LIST
              (if source_is_adf h then resolution_list_adf else resolution_list)\<rparr>
         else d)"

definition string_allowed :: "option_descriptor \<Rightarrow> string option \<Rightarrow> bool" where
  "string_allowed d s =
     (case o_constraint d of CONSTRAINT_STRING_LIST l \<Rightarrow> s = None \<or> s \<in> Some ` set l | _ \<Rightarrow> s = None)"

definition options_inv :: "pantum_handle \<Rightarrow> bool" where
  "options_inv h \<longleftrightarrow>
     h_opt h = expected_descriptor h
     \<and> (\<forall>opt. word_allowed (h_opt h opt) (h_val_w h opt))
     \<and> (\<forall>opt. string_allowed (h_opt h opt) (h_val_s h opt))"

lemma all_options: "(\<forall>opt. P opt) \<longleftrightarrow>
    P OPT_NUM_OPTS \<and> P OPT_MODE_GROUP \<and> P OPT_MODE \<and> P OPT_RESOLUTION \<and> P OPT_SOURCE
    \<and> P OPT_PREVIEW \<and> P OPT_THRESHOLD \<and> P OPT_GEOMETRY_GROUP \<and> P OPT_TL_X \<and> P OPT_TL_Y
    \<and> P OPT_BR_X \<and> P OPT_BR_Y"
  (is "_ \<longleftrightarrow> ?each")
proof
  assume each: ?each
  show "\<forall>opt. P opt"
  proof
    fix opt
    from each show "P opt" by (cases opt) simp_all
  qed
qed simp

lemmas table_defs =
  expected_descriptor_def base_descriptor_def Let_def range_values resolution_list_def
  resolution_list_adf_def mode_list_def source_list_flatbed_def source_list_adf_def

lemma init_options_inv:
  assumes "init_options E h w = (h', w')"
  shows "options_inv h'"
proof -
  obtain mode w1 source w2 where s: "pantum_strdup E (Some SCAN_MODE_GRAY) w = (mode, w1)"
    "pantum_strdup E (Some SOURCE_NAME_FLATBED) w1 = (source, w2)"
    by (metis surj_pair)
  then have m: "mode = None \<or> mode = Some SCAN_MODE_GRAY" "source = None \<or> source = Some SOURCE_NAME_FLATBED"
    by (auto simp: pantum_strdup_def split: prod.splits if_splits)
  from s assms have h': "h' = h\<lparr>h_opt := init_descriptor (h_has_adf h), h_val_w := init_word,
      h_val_s := (\<lambda>_. None)(OPT_MODE := mode, OPT_SOURCE := source)\<rparr>"
    by (simp add: init_options_def)
  have f: "\<not> source_is_adf h'" "\<not> mode_is h' SCAN_MODE_LINEART"
    using m by (auto simp: h' source_is_adf_def source_code_def mode_is_def name_defs)
  then have "h_opt h' = expected_descriptor h'"
    by (auto simp: fun_eq_iff all_options h' table_defs)
  moreover have "\<forall>opt. word_allowed (h_opt h' opt) (h_val_w h' opt)"
    by (simp add: all_options word_allowed_def h' table_defs)
  moreover have "\<forall>opt. string_allowed (h_opt h' opt) (h_val_s h' opt)"
    using m by (auto simp: all_options string_allowed_def h' table_defs)
  ultimately show ?thesis by (simp add: options_inv_def)
qed


text \<open>A new mode or source, then \<^verbatim>\<open>update_option_state\<close>.\<close>

lemma expected_descriptor_cong:
  assumes "h_has_adf h1 = h_has_adf h" "source_is_adf h1 = source_is_adf h" "\<And>n. mode_is h1 n = mode_is h n"
  shows "expected_descriptor h1 = expected_descriptor h"
proof
  fix opt
  show "expected_descriptor h1 opt = expected_descriptor h opt"
    by (cases opt) (simp_all add: assms expected_descriptor_def Let_def)
qed

lemma update_option_state_frame [simp, frame_rules]:
  "h_val_s (update_option_state h) = h_val_s h" "h_has_adf (update_option_state h) = h_has_adf h"
  "source_is_adf (update_option_state h) = source_is_adf h"
  "mode_is (update_option_state h) n = mode_is h n"
  by (simp_all add: update_option_state_def Let_def source_is_adf_def source_code_def mode_is_def)

lemma update_option_state_val:
  "h_val_w (update_option_state h) opt =
     (if opt = OPT_TL_Y \<or> opt = OPT_BR_Y
      then min (h_val_w h opt) (r_max (if source_is_adf h then y_range_adf else y_range))
      else if opt = OPT_RESOLUTION \<and> source_is_adf h then min (h_val_w h opt) 600
      else h_val_w h opt)"
  by (simp add: update_option_state_def Let_def)

lemma expected_after_update:
  assumes "h_opt h1 = expected_descriptor h" "h_has_adf h1 = h_has_adf h"
  shows "h_opt (update_option_state h1) = expected_descriptor h1"
    "expected_descriptor (update_option_state h1) = expected_descriptor h1"
proof
  fix opt
  show "h_opt (update_option_state h1) opt = expected_descriptor h1 opt"
    by (cases opt) (auto simp: assms update_option_state_def expected_descriptor_def Let_def base_descriptor_def)
qed (rule expected_descriptor_cong; simp)

lemma string_allowed_expected:
  "h_has_adf h1 = h_has_adf h \<Longrightarrow>
   string_allowed (expected_descriptor h1 opt) = string_allowed (expected_descriptor h opt)"
  by (cases opt) (simp_all add: string_allowed_def expected_descriptor_def Let_def base_descriptor_def fun_eq_iff)

lemma word_allowed_after_update:
  assumes "h_has_adf h1 = h_has_adf h" "word_allowed (expected_descriptor h opt) (h_val_w h1 opt)"
  shows "word_allowed (expected_descriptor h1 opt) (h_val_w (update_option_state h1) opt)"
  using assms(2)
  by (cases opt)
     (auto simp: assms(1) word_allowed_def expected_descriptor_def Let_def base_descriptor_def
       update_option_state_val range_values resolution_list_def resolution_list_adf_def
       split: if_splits)

lemma update_option_state_inv:
  assumes "options_inv h" "opt = OPT_MODE \<or> opt = OPT_SOURCE"
    "string_allowed (h_opt h opt) (Some x)"
  shows "options_inv (update_option_state (h\<lparr>h_val_s := (h_val_s h)(opt := Some x)\<rparr>))"
proof -
  define h1 where "h1 = h\<lparr>h_val_s := (h_val_s h)(opt := Some x)\<rparr>"
  have old: "h_opt h1 = expected_descriptor h" "h_has_adf h1 = h_has_adf h"
      "\<forall>opt. word_allowed (expected_descriptor h opt) (h_val_w h1 opt)"
      "\<forall>opt. string_allowed (expected_descriptor h opt) (h_val_s h1 opt)"
    using assms by (auto simp: options_inv_def h1_def)
  then show ?thesis
    unfolding h1_def [symmetric]
    by (simp add: options_inv_def expected_after_update word_allowed_after_update [OF old(2)]
        string_allowed_expected [OF old(2)])
qed

lemma string_option_cases:
  assumes "options_inv h" "o_type (h_opt h opt) = SANE_TYPE_STRING"
  shows "opt = OPT_MODE \<or> opt = OPT_SOURCE"
  using assms by (cases opt) (auto simp: options_inv_def expected_descriptor_def base_descriptor_def Let_def)

lemma set_string_inv:
  assumes "options_inv h" "o_type (h_opt h opt) = SANE_TYPE_STRING"
    "set_string E h opt want w = ((st, info), h', w')" "st \<noteq> SANE_STATUS_NO_MEM"
  shows "options_inv h'"
proof (cases "st = SANE_STATUS_GOOD")
  case True
  note opt = string_option_cases [OF assms(1,2)]
  from assms(3) True obtain l x where x: "o_constraint (h_opt h opt) = CONSTRAINT_STRING_LIST l"
    "find (\<lambda>x. same_nocase x want) l = Some x"
    "h' = update_option_state (h\<lparr>h_val_s := (h_val_s h)(opt := Some x)\<rparr>)"
    using opt by (auto simp: set_string_def pantum_strdup_def Let_def
        split: sane_constraint.splits option.splits prod.splits if_splits)
  then have "string_allowed (h_opt h opt) (Some x)"
    by (auto simp: string_allowed_def find_Some_iff intro!: imageI nth_mem)
  from update_option_state_inv [OF assms(1) opt this] x(3) show ?thesis by simp
next
  case False
  with assms(3,4) have "h' = h"
    by (auto simp: set_string_def Let_def split: sane_constraint.splits option.splits prod.splits if_splits)
  with assms(1) show ?thesis by simp
qed

lemma expected_constraint_wf:
  "o_constraint (expected_descriptor h opt) = CONSTRAINT_RANGE r \<Longrightarrow> r_min r \<le> r_max r \<and> 0 \<le> r_quant r"
  "o_constraint (expected_descriptor h opt) = CONSTRAINT_WORD_LIST l \<Longrightarrow>
     l = resolution_list \<or> l = resolution_list_adf"
  by (cases opt; auto simp: expected_descriptor_def base_descriptor_def Let_def range_values split: if_splits)+

lemma constrain_word_allowed:
  assumes "o_type (expected_descriptor h opt) \<noteq> SANE_TYPE_BOOL"
  shows "word_allowed (expected_descriptor h opt) (fst (constrain_word (expected_descriptor h opt) v))"
proof (cases "o_constraint (expected_descriptor h opt)")
  case (CONSTRAINT_RANGE r)
  with assms show ?thesis
    using expected_constraint_wf(1) [OF CONSTRAINT_RANGE]
    by (simp add: word_allowed_def constrain_word_def Let_def constrain_range_bounds)
next
  case (CONSTRAINT_WORD_LIST l)
  have "constrain_list l v \<in> set (take (nat (l ! 0)) (tl l))"
    using expected_constraint_wf(2) [OF CONSTRAINT_WORD_LIST]
      constrain_list_in [OF resolution_list_def, of v] constrain_list_in [OF resolution_list_adf_def, of v]
    by auto
  with assms CONSTRAINT_WORD_LIST show ?thesis
    by (simp add: word_allowed_def constrain_word_def Let_def)
qed (use assms in \<open>simp_all add: word_allowed_def\<close>)

lemma val_w_frame [simp, frame_rules]:
  "source_is_adf (h\<lparr>h_val_w := f\<rparr>) = source_is_adf h" "mode_is (h\<lparr>h_val_w := f\<rparr>) n = mode_is h n"
  by (simp_all add: source_is_adf_def source_code_def mode_is_def)

lemma options_inv_val_w:
  assumes "options_inv h" "word_allowed (h_opt h opt) v"
  shows "options_inv (h\<lparr>h_val_w := (h_val_w h)(opt := v)\<rparr>)"
proof -
  have "expected_descriptor (h\<lparr>h_val_w := (h_val_w h)(opt := v)\<rparr>) = expected_descriptor h"
    by (rule expected_descriptor_cong) simp_all
  with assms show ?thesis by (auto simp: options_inv_def)
qed

lemma set_word_inv:
  assumes "options_inv h" "set_word h opt v = (v1, info, h')"
  shows "options_inv h'"
proof -
  have "h_opt h = expected_descriptor h" using assms(1) by (simp add: options_inv_def)
  have "\<exists>u. h' = h\<lparr>h_val_w := (h_val_w h)(opt := u)\<rparr> \<and> word_allowed (h_opt h opt) u"
  proof (cases "o_type (h_opt h opt) = SANE_TYPE_BOOL")
    case True
    with assms(2) show ?thesis
      by (auto simp: set_word_def Let_def word_allowed_def split: if_splits)
  next
    case False
    with assms(2) constrain_word_allowed [of h opt "vb_word v"] \<open>h_opt h = expected_descriptor h\<close>
    show ?thesis
      by (auto simp: set_word_def Let_def split: prod.splits if_splits)
  qed
  with options_inv_val_w [OF assms(1)] show ?thesis by blast
qed

lemma control_option_inv:
  assumes "options_inv h" "control_option E h i action value w = (r, h', w')"
    "r_status r \<noteq> SANE_STATUS_NO_MEM"
  shows "options_inv h'"
  using assms
  by (auto simp: control_option_def split: option.splits if_splits sane_action.splits prod.splits
      intro: set_string_inv set_word_inv)


text \<open>Calls the frontend makes on an open handle; one that runs out of memory is the
  frontend's signal to stop, and is not among them.\<close>

inductive option_call :: "'w env \<Rightarrow> pantum_handle \<times> 'w \<Rightarrow> pantum_handle \<times> 'w \<Rightarrow> bool" for E where
  call: "control_option E h i action value w = (r, h', w') \<Longrightarrow> r_status r \<noteq> SANE_STATUS_NO_MEM \<Longrightarrow>
    option_call E (h, w) (h', w')"

inductive_cases option_callE: "option_call E s t"

interpretation options: step_invariant "option_call E" "options_inv \<circ> fst"
  by unfold_locales (auto elim!: option_callE intro: control_option_inv)


abbreviation adf_handle :: pantum_handle where
  "adf_handle \<equiv> fst (init_options wire_env (calloc_handle\<lparr>h_has_adf := True\<rparr>) \<lparr>w_in = [], w_out = [], w_mem = []\<rparr>)"


section \<open>Geometry\<close>

lemma sdiv_nonneg: "0 \<le> a \<Longrightarrow> 0 < b \<Longrightarrow> a sdiv b = a div (b :: int)"
  by (cases "a = 0") (simp_all add: signed_divide_int_def)

lemma mm_to_units_nonneg [simp]: "0 \<le> mm_to_units f"
  by (simp add: mm_to_units_def Let_def)

lemma mm_to_units_div: "0 \<le> f \<Longrightarrow> mm_to_units f = (2000 * f + 16646144) div 33292288"
  by (simp add: mm_to_units_def Let_def sdiv_nonneg pos_imp_zdiv_nonneg_iff)

lemma mm_to_units_round_trip:
  assumes "0 \<le> u"
  shows "mm_to_units (SANE_FIX (u * 254) 1000) = u"
proof -
  have fix_eq: "SANE_FIX (u * 254) 1000 = u * 16646144 div 1000"
    using assms by (simp add: SANE_FIX_def sdiv_nonneg)
  have "0 \<le> u * 16646144 div 1000" using assms by (simp add: pos_imp_zdiv_nonneg_iff)
  then show ?thesis
    unfolding fix_eq by (subst mm_to_units_div) linarith+
qed

text \<open>The two axes of the window are computed alike and independently.\<close>

definition window_axis :: "int \<Rightarrow> int \<Rightarrow> int \<Rightarrow> int \<times> int" where
  "window_axis m a b =
     (let (l, r) = (if b < a then (b, a) else (a, b));
          r = (if m < r then m else r);
          l = (if r - l < PANTUM_MIN_WINDOW then r - PANTUM_MIN_WINDOW else l);
          l = (if l < 0 then 0 else l)
      in (l, r))"

lemma compute_window_axes:
  "compute_window h =
     (let (l, r) = window_axis PANTUM_MAX_X (mm_to_units (h_val_w h OPT_TL_X)) (mm_to_units (h_val_w h OPT_BR_X));
          (t, b) = window_axis (if source_is_adf h then PANTUM_MAX_Y_ADF else PANTUM_MAX_Y)
                     (mm_to_units (h_val_w h OPT_TL_Y)) (mm_to_units (h_val_w h OPT_BR_Y))
      in (l, t, r, b))"
  by (simp add: compute_window_def window_axis_def Let_def case_prod_beta)

lemma window_axis_bounds:
  assumes "window_axis m a b = (l, r)" "0 \<le> a" "0 \<le> b" "0 \<le> m"
  shows "0 \<le> l" "l \<le> r" "r \<le> m" "15 \<le> r - l \<or> l = 0 \<and> r < 15"
  using assms by (auto simp: window_axis_def Let_def PANTUM_MIN_WINDOW_def split: if_splits)

text \<open>Ordered corners that are far enough apart and on the glass are kept as they are.\<close>

lemma window_axis_id:
  "0 \<le> a \<Longrightarrow> a + 15 \<le> b \<Longrightarrow> b \<le> m \<Longrightarrow> window_axis m a b = (a, b)"
  by (simp add: window_axis_def Let_def PANTUM_MIN_WINDOW_def)

lemma compute_window_bounds:
  assumes "compute_window h = (l, t, r, b)"
  shows "0 \<le> l" "l \<le> r" "r \<le> 850" "0 \<le> t" "t \<le> b"
    "b \<le> (if source_is_adf h then 1400 else 1169)"
    "15 \<le> r - l \<or> l = 0 \<and> r < 15" "15 \<le> b - t \<or> t = 0 \<and> b < 15"
proof -
  have x: "window_axis 850 (mm_to_units (h_val_w h OPT_TL_X)) (mm_to_units (h_val_w h OPT_BR_X)) = (l, r)"
    and y: "window_axis (if source_is_adf h then 1400 else 1169)
        (mm_to_units (h_val_w h OPT_TL_Y)) (mm_to_units (h_val_w h OPT_BR_Y)) = (t, b)"
    using assms by (auto simp: compute_window_axes window_defs split: prod.splits)
  show "0 \<le> l" "l \<le> r" "r \<le> 850" "15 \<le> r - l \<or> l = 0 \<and> r < 15"
    using window_axis_bounds [OF x] by simp_all
  show "0 \<le> t" "t \<le> b" "b \<le> (if source_is_adf h then 1400 else 1169)" "15 \<le> b - t \<or> t = 0 \<and> b < 15"
    using window_axis_bounds [OF y] by simp_all
qed

lemma effective_resolution_range:
  assumes "options_inv h"
  shows "effective_resolution h \<in> {75, 150, 300, 600, 1200}"
    "source_is_adf h \<Longrightarrow> effective_resolution h \<le> 600"
proof -
  have "word_allowed (expected_descriptor h OPT_RESOLUTION) (h_val_w h OPT_RESOLUTION)"
    using assms by (auto simp: options_inv_def)
  then show "effective_resolution h \<in> {75, 150, 300, 600, 1200}"
    "source_is_adf h \<Longrightarrow> effective_resolution h \<le> 600"
    by (auto simp: effective_resolution_def word_allowed_def expected_descriptor_def Let_def
        base_descriptor_def resolution_list_def resolution_list_adf_def split: if_splits)
qed

text \<open>What a parameter block must satisfy for the image path to be sound.\<close>

definition params_wf :: "sane_parameters \<Rightarrow> bool" where
  "params_wf p \<longleftrightarrow> 1 \<le> p_pixels_per_line p \<and> 1 \<le> p_lines p \<and>
     (p_format p = SANE_FRAME_RGB \<and> p_depth p = 8 \<and> p_bytes_per_line p = p_pixels_per_line p * 3
      \<or> p_format p = SANE_FRAME_GRAY \<and> p_depth p = 1 \<and> p_bytes_per_line p = (p_pixels_per_line p + 7) div 8
      \<or> p_format p = SANE_FRAME_GRAY \<and> p_depth p = 8 \<and> p_bytes_per_line p = p_pixels_per_line p)"

lemma compute_parameters_wf: "params_wf (compute_parameters h)"
  by (auto simp: compute_parameters_def params_wf_def Let_def sdiv_nonneg split: prod.splits)

lemma compute_parameters_size:
  assumes "options_inv h"
  shows "p_pixels_per_line (compute_parameters h) \<le> 10200" "p_lines (compute_parameters h) \<le> 14028"
    "p_bytes_per_line (compute_parameters h) \<le> 30600"
proof -
  obtain l t r b where w: "compute_window h = (l, t, r, b)" by (metis prod_cases4)
  define dpi where "dpi = effective_resolution h"
  note e = effective_resolution_range [OF assms, folded dpi_def]
  note bd = compute_window_bounds [OF w]
  have "(r - l) * dpi \<le> 850 * 1200" "(b - t) * dpi \<le> 1169 * 1200"
    using e(1) bd e(2) by (auto split: if_splits)
  then have "(r - l) * dpi div 100 \<le> 10200" "(b - t) * dpi div 100 \<le> 14028"
     "0 \<le> (r - l) * dpi" "0 \<le> (b - t) * dpi"
    using bd e by auto
  then show "p_pixels_per_line (compute_parameters h) \<le> 10200" "p_lines (compute_parameters h) \<le> 14028"
    "p_bytes_per_line (compute_parameters h) \<le> 30600"
    by (auto simp: compute_parameters_def Let_def w sdiv_nonneg simp flip: dpi_def)
qed


text \<open>
  C27. Whatever corners are set, the window the driver sends is ordered and lies on the
  glass (8.50 by 11.69 inches, 14.00 for a fed page), and it has the firmware's minimum
  size in each direction unless its far edge is closer than that to the origin.
\<close>

theorem window_on_glass:
  "(case compute_window h of (l, t, r, b) \<Rightarrow>
      0 \<le> l \<and> l \<le> r \<and> r \<le> PANTUM_MAX_X
      \<and> 0 \<le> t \<and> t \<le> b \<and> b \<le> (if source_is_adf h then PANTUM_MAX_Y_ADF else PANTUM_MAX_Y)
      \<and> (PANTUM_MIN_WINDOW \<le> r - l \<or> l = 0 \<and> r < PANTUM_MIN_WINDOW)
      \<and> (PANTUM_MIN_WINDOW \<le> b - t \<or> t = 0 \<and> b < PANTUM_MIN_WINDOW))"
  using compute_window_bounds [of h] by (auto simp: window_defs split: prod.splits)

text \<open>
  The minimum size of a window is not enforced at the origin: with both horizontal
  corners at 0 the window has no width, and the firmware rejects windows of 14 units or less.
\<close>

lemma window_below_minimum:
  assumes "h_val_w h OPT_TL_X = 0" "h_val_w h OPT_BR_X = 0"
  shows "\<exists>t b. compute_window h = (0, t, 0, b)"
proof -
  have "window_axis PANTUM_MAX_X 0 0 = (0, 0)"
    by (simp add: window_axis_def window_defs Let_def)
  moreover have "mm_to_units 0 = 0" by (simp add: mm_to_units_div)
  ultimately show ?thesis
    using assms by (simp add: compute_window_axes split: prod.splits)
qed

lemma window_below_minimum_example: "\<exists>t b. compute_window calloc_handle = (0, t, 0, b)"
  by (rule window_below_minimum) (simp_all add: calloc_handle_def)

text \<open>
  A window asked for in whole hundredths of an inch comes out of the fixed-point
  millimetres unchanged.
\<close>

lemma millimetre_round_trip:
  assumes "0 \<le> l" "l + 15 \<le> r" "r \<le> 850" "0 \<le> t" "t + 15 \<le> b" "b \<le> 1169"
    "h_val_w h OPT_TL_X = SANE_FIX (l * 254) 1000" "h_val_w h OPT_BR_X = SANE_FIX (r * 254) 1000"
    "h_val_w h OPT_TL_Y = SANE_FIX (t * 254) 1000" "h_val_w h OPT_BR_Y = SANE_FIX (b * 254) 1000"
  shows "compute_window h = (l, t, r, b)"
  using assms by (auto simp: compute_window_axes mm_to_units_round_trip window_axis_id window_defs)

lemma millimetre_round_trip_example:
  "compute_window (calloc_handle\<lparr>h_val_w := init_word(OPT_TL_X := SANE_FIX (100 * 254) 1000,
     OPT_TL_Y := SANE_FIX 0 1000)\<rparr>) = (100, 0, 850, 1169)"
  by (rule millimetre_round_trip) (simp_all add: SANE_FIX_def range_values sdiv_nonneg)

text \<open>
  C33. The parameters promised to the frontend fit together in every mode (bytes per line
  against pixels per line and depth), and while the option table is legal they stay
  within 10200 pixels, 14028 lines and 30600 bytes per line, so no 32-bit product in
  \<^verbatim>\<open>compute_parameters\<close> overflows.
\<close>

theorem parameters_consistent:
  assumes "options_inv h"
  shows "params_wf (compute_parameters h) \<and> p_pixels_per_line (compute_parameters h) \<le> 10200
    \<and> p_lines (compute_parameters h) \<le> 14028 \<and> p_bytes_per_line (compute_parameters h) \<le> 30600"
  using compute_parameters_wf compute_parameters_size [OF assms] by blast

theorem parameters_consistent_witness:
  "params_wf (compute_parameters adf_handle) \<and> p_lines (compute_parameters adf_handle) \<le> 14028"
proof -
  have "options_inv adf_handle"
    by (rule init_options_inv) (rule prod.collapse [symmetric])
  from parameters_consistent [OF this] show ?thesis by simp
qed



text \<open>
  At the far end of the word range the difference wraps, and the answer is not the
  nearest resolution, 75, but 150.
\<close>

lemma resolution_wraps:
  "constrain_list resolution_list (- 2147483570) = 150 \<and> 75 \<in> set (tl resolution_list)
   \<and> \<bar>75 - (- 2147483570)\<bar> < \<bar>150 - (- 2147483570 :: int)\<bar>"
  by (simp add: constrain_list_def resolution_list_def word_distance_def wrap32_def numeral_eq_Suc)

end
