(* ===== verification/Image_Laws.thy ===== *)
theory Image_Laws
  imports Option_Laws Image
begin

text \<open>
  What the image path guarantees: the queue hands out exactly what was put in, each row
  is converted pixel by pixel as specified, a data block appends exactly the rows of the
  page it covers, and no read or write leaves its buffer while the allocator obliges.
\<close>

unbundle bit_operations_syntax

section \<open>The queue\<close>

definition queue_ok :: "pantum_handle \<Rightarrow> bool" where
  "queue_ok h \<longleftrightarrow> h_out_pos h \<le> length (h_out h)"

text \<open>What the frontend has not read yet.\<close>

definition unread :: "pantum_handle \<Rightarrow> byte list" where
  "unread h = drop (h_out_pos h) (h_out h)"

text \<open>The queue's block is as large as \<^verbatim>\<open>out_cap\<close> says, and nothing was written past it.\<close>

definition mem_ok :: "pantum_handle \<Rightarrow> bool" where
  "mem_ok h \<longleftrightarrow> h_out_cap h = h_out_alloc h \<and> length (h_out h) \<le> h_out_cap h \<and> \<not> h_overrun h"

lemma out_reserve_fields:
  assumes "out_reserve E n h w = (st, h', w')"
  obtains a b c d where "h' = h\<lparr>h_out := a, h_out_pos := b, h_out_cap := c, h_out_alloc := d\<rparr>"
proof -
  have "h' = h\<lparr>h_out := h_out h', h_out_pos := h_out_pos h', h_out_cap := h_out_cap h', h_out_alloc := h_out_alloc h'\<rparr>"
    using assms by (auto simp: out_reserve_def Let_def split: if_splits prod.splits)
  then show thesis by (rule that)
qed

lemma out_reserve_unread:
  assumes "out_reserve E n h w = (st, h', w')" "queue_ok h"
  shows "queue_ok h'" "unread h' = unread h"
  using assms by (auto simp: out_reserve_def queue_ok_def unread_def Let_def split: if_splits prod.splits)

lemma out_reserve_room:
  assumes "out_reserve E n h w = (SANE_STATUS_GOOD, h', w')" "mem_ok h"
  shows "mem_ok h'" "length (h_out h') + n \<le> h_out_alloc h'"
  using assms
  by (auto simp: out_reserve_def mem_ok_def Let_def split: if_splits prod.splits
      intro: grow_cap_ge add_leD1 [OF grow_cap_ge])

lemma out_put_unread:
  assumes "queue_ok h"
  shows "queue_ok (out_put bs h)" "unread (out_put bs h) = unread h @ bs"
  using assms by (auto simp: out_put_def queue_ok_def unread_def)

lemma out_put_room:
  assumes "mem_ok h" "length (h_out h) + length bs \<le> h_out_alloc h"
  shows "mem_ok (out_put bs h)"
  using assms by (auto simp: out_put_def mem_ok_def)


section \<open>One row, pixel by pixel\<close>

text \<open>The left-most pixel of a packed row is the top bit of its first byte.\<close>

definition pixel_bit :: "byte list \<Rightarrow> nat \<Rightarrow> bool" where
  "pixel_bit row i = bit (row ! (i div 8)) (7 - i mod 8)"

lemma length_set_bit_at [simp]: "length (set_bit_at i dst) = length dst"
  by (simp add: set_bit_at_def)

lemma bit_mask_byte: "k < 8 \<Longrightarrow> bit (drop_bit k (0x80 :: byte)) n \<longleftrightarrow> n = 7 - k"
proof -
  assume "k < 8"
  have "bit (0x80 :: byte) m \<longleftrightarrow> m = 7" for m
  proof -
    have "(0x80 :: byte) = push_bit 7 1" by simp
    then show ?thesis by (simp only: bit_simps) auto
  qed
  then have "bit (drop_bit k (0x80 :: byte)) n \<longleftrightarrow> k + n = 7"
    by (simp only: bit_drop_bit_eq o_apply)
  with \<open>k < 8\<close> show ?thesis by linarith
qed

lemma pixel_bit_set_bit_at:
  assumes "j div 8 < length dst" "i div 8 < length dst"
  shows "pixel_bit (set_bit_at i dst) j \<longleftrightarrow> pixel_bit dst j \<or> i = j"
proof (cases "i div 8 = j div 8")
  case True
  have "j mod 8 \<le> 7" "i mod 8 \<le> 7" by simp_all
  then have "(7 - j mod 8 = 7 - i mod 8) = (i mod 8 = j mod 8)" by linarith
  also have "\<dots> = (i = j)"
    using True by (metis div_mult_mod_eq)
  finally have "(7 - j mod 8 = 7 - i mod 8) = (i = j)" .
  with True assms show ?thesis
    by (simp add: pixel_bit_def set_bit_at_def bit_or_iff bit_mask_byte)
next
  case False
  then have "i \<noteq> j" by auto
  with False show ?thesis by (simp add: pixel_bit_def set_bit_at_def)
qed

lemma length_pack_dark [simp]: "length (pack_dark dark lead n dst) = length dst"
proof -
  have "length (fold (\<lambda>i dst. if dark i then set_bit_at i dst else dst) is dst) = length dst" for "is" dst
    by (induction "is" arbitrary: dst) auto
  then show ?thesis by (simp add: pack_dark_def)
qed

lemma pixel_bit_pack_dark:
  assumes "\<forall>i < n. i div 8 < length dst" "j div 8 < length dst"
  shows "pixel_bit (pack_dark dark lead n dst) j \<longleftrightarrow>
    pixel_bit dst j \<or> (lead \<le> j \<and> j < n \<and> dark j)"
proof -
  have "\<forall>i \<in> set is. i div 8 < length dst \<Longrightarrow> j div 8 < length dst \<Longrightarrow>
      pixel_bit (fold (\<lambda>i dst. if dark i then set_bit_at i dst else dst) is dst) j \<longleftrightarrow>
      pixel_bit dst j \<or> (j \<in> set is \<and> dark j)" for "is" dst
    by (induction "is" arbitrary: dst) (auto simp: pixel_bit_set_bit_at)
  from this [of "[lead..<n]" dst] assms show ?thesis
    by (auto simp: pack_dark_def)
qed

lemma pixel_bit_clear: "j div 8 < n \<Longrightarrow> \<not> pixel_bit (replicate n 0) j"
  by (simp add: pixel_bit_def)

lemma nth_fold_update:
  "n \<le> length dst \<Longrightarrow> i < length dst \<Longrightarrow>
   fold (\<lambda>i dst. dst[i := f i]) [0..<n] dst ! i = (if i < n then f i else dst ! i)"
  "length (fold (\<lambda>i dst. dst[i := f i]) [0..<n] dst) = length dst"
proof -
  show len: "length (fold (\<lambda>i dst. dst[i := f i]) [0..<n] dst) = length dst" for n
    by (induction n) simp_all
  show "n \<le> length dst \<Longrightarrow> i < length dst \<Longrightarrow>
   fold (\<lambda>i dst. dst[i := f i]) [0..<n] dst ! i = (if i < n then f i else dst ! i)"
    by (induction n) (auto simp: nth_list_update len)
qed

text \<open>Three bytes per pixel, in the order the two blue-first reversals give.\<close>

lemma fold_triples:
  fixes f :: "nat \<Rightarrow> nat \<Rightarrow> byte"
  assumes "3 * n \<le> length dst"
  shows "length (fold (\<lambda>i dst. dst[3 * i := f i 0, 3 * i + 1 := f i 1, 3 * i + 2 := f i 2]) [0..<n] dst) = length dst"
    "k < length dst \<Longrightarrow>
     fold (\<lambda>i dst. dst[3 * i := f i 0, 3 * i + 1 := f i 1, 3 * i + 2 := f i 2]) [0..<n] dst ! k
       = (if k < 3 * n then f (k div 3) (k mod 3) else dst ! k)"
  using assms
proof (induction n)
  case 0
  {
    case 1
    then show ?case by simp
  next
    case 2
    then show ?case by simp
  }
next
  case (Suc n)
  {
    case 1
    then show ?case using Suc.IH(1) by simp
  next
    case 2
    have k: "k < 3 * n \<or> k = 3 * n \<or> k = 3 * n + 1 \<or> k = 3 * n + 2 \<or> 3 * n + 3 \<le> k" by linarith
    have q: "(3 * n + 1) div 3 = n" "(3 * n + 2) div 3 = n" "(3 * n + 1) mod 3 = 1" "(3 * n + 2) mod 3 = 2"
      by presburger+
    from k show ?case using Suc.IH 2 q by (auto simp: nth_list_update)
  }
qed


text \<open>The rows whitened at the edges of the page, and the pixels of the other rows that
  show the scan: not in the side margins, and delivered by the device.\<close>

definition white_line :: "pantum_handle \<Rightarrow> int \<Rightarrow> bool" where
  "white_line h row \<longleftrightarrow>
     row < h_white_top h \<or> h_white_bottom h \<noteq> 0 \<and> p_lines (h_params h) - h_white_bottom h \<le> row"

definition visible :: "pantum_handle \<Rightarrow> int \<Rightarrow> nat \<Rightarrow> bool" where
  "visible h avail i \<longleftrightarrow> h_white_left h \<le> int i \<and> int i < avail
     \<and> int i < p_pixels_per_line (h_params h) - h_white_right h"

definition margins_ok :: "pantum_handle \<Rightarrow> bool" where
  "margins_ok h \<longleftrightarrow> 0 \<le> h_white_left h \<and> 0 \<le> h_white_right h"

text \<open>What decides whether a pixel of a bilevel row is black.\<close>

definition is_dark :: "byte list \<Rightarrow> pantum_handle \<Rightarrow> byte list \<Rightarrow> int \<Rightarrow> nat \<Rightarrow> bool" where
  "is_dark dither_mask h src row i =
     (if h_halftone h
      then lut h (src ! i) < dither_mask ! (nat (row mod 128) * 128 + i mod 128)
      else uint (lut h (src ! i)) < h_threshold h)"

lemma convert_row_white:
  assumes "white_line h row" "length dst = nat (p_bytes_per_line (h_params h))"
  shows "convert_row dither_mask h src avail row dst = white_row (h_params h)"
  using assms by (simp add: convert_row_def white_line_def white_row_def Let_def memset_at_all)

lemma convert_row_grey:
  assumes "\<not> white_line h row" "p_format (h_params h) = SANE_FRAME_GRAY" "p_depth (h_params h) = 8"
    "margins_ok h" "0 \<le> avail" "int (length dst) = p_pixels_per_line (h_params h)"
  shows "length (convert_row dither_mask h src avail row dst) = length dst"
    "i < length dst \<Longrightarrow> convert_row dither_mask h src avail row dst ! i =
       (if visible h avail i then lut h (src ! i) else 0xff)"
proof -
  let ?px = "p_pixels_per_line (h_params h)"
  define lead where "lead = nat (if h_white_left h < ?px then h_white_left h else ?px)"
  define tail where "tail = nat (?px - (if h_white_right h < ?px then h_white_right h else ?px))"
  define n where "n = nat (if avail < ?px then avail else ?px)"
  have b: "lead \<le> length dst" "tail \<le> length dst" "n \<le> length dst"
    using assms(4,6) by (auto simp: lead_def tail_def n_def margins_ok_def)
  have d: "nat (?px - (if avail < ?px then avail else ?px)) = length dst - n"
    "nat (?px - (?px - (if h_white_right h < ?px then h_white_right h else ?px))) = length dst - tail"
    using assms(4,5,6) by (auto simp: tail_def n_def margins_ok_def nat_diff_distrib')
  define d1 where "d1 = fold (\<lambda>i dst. dst[i := lut h (src ! i)]) [0..<n] dst"
  have d1: "length d1 = length dst" "\<And>i. i < length dst \<Longrightarrow> d1 ! i = (if i < n then lut h (src ! i) else dst ! i)"
    using b(3) by (simp_all add: d1_def nth_fold_update)
  have c: "convert_row dither_mask h src avail row dst =
      memset_at (memset_at (memset_at d1 n 0xff (length dst - n)) 0 0xff lead) tail 0xff (length dst - tail)"
    by (simp only: convert_row_def Let_def white_line_def [symmetric] assms(1-3) d if_False
        sane_frame.distinct rel_simps num.distinct simp_thms d1_def flip: lead_def tail_def n_def)
  show "length (convert_row dither_mask h src avail row dst) = length dst"
    using b d1 by (simp add: c)
  have v: "visible h avail i \<longleftrightarrow> lead \<le> i \<and> i < n \<and> i < tail" if "i < length dst" for i
    using that assms(4,5,6) by (auto simp: visible_def lead_def tail_def n_def margins_ok_def)
  show "i < length dst \<Longrightarrow> convert_row dither_mask h src avail row dst ! i =
       (if visible h avail i then lut h (src ! i) else 0xff)"
    using b d1 v by (auto simp: c nth_memset_at)
qed

lemma convert_row_rgb:
  assumes "\<not> white_line h row" "p_format (h_params h) = SANE_FRAME_RGB"
    "margins_ok h" "0 \<le> avail" "int (length dst) = 3 * p_pixels_per_line (h_params h)"
  shows "length (convert_row dither_mask h src avail row dst) = length dst"
    "k < length dst \<Longrightarrow> convert_row dither_mask h src avail row dst ! k =
       (if visible h avail (k div 3) then lut h (src ! (3 * (k div 3) + 2 - k mod 3)) else 0xff)"
proof -
  let ?px = "p_pixels_per_line (h_params h)"
  define px where "px = nat ?px"
  define lead where "lead = nat (if h_white_left h < ?px then h_white_left h else ?px)"
  define tail where "tail = nat (?px - (if h_white_right h < ?px then h_white_right h else ?px))"
  define n where "n = nat (if avail < ?px then avail else ?px)"
  have len: "length dst = 3 * px" using assms(5) by (simp add: px_def)
  have b: "lead \<le> px" "tail \<le> px" "n \<le> px"
    using assms(3,5) by (auto simp: lead_def tail_def n_def margins_ok_def px_def)
  have d: "nat (3 * (if avail < ?px then avail else ?px)) = 3 * n"
    "nat (3 * (?px - (if h_white_right h < ?px then h_white_right h else ?px))) = 3 * tail"
    "nat ((if h_white_left h < ?px then h_white_left h else ?px) * 3) = 3 * lead"
    "nat ((?px - (if avail < ?px then avail else ?px)) * 3) = 3 * px - 3 * n"
    "nat ((?px - (?px - (if h_white_right h < ?px then h_white_right h else ?px))) * 3) = 3 * px - 3 * tail"
    using assms(3,4,5) by (auto simp: lead_def tail_def n_def px_def margins_ok_def)
  define f where "f = (\<lambda>i c. lut h (src ! (3 * i + 2 - c)))"
  define d1 where "d1 = fold (\<lambda>i dst. dst[3 * i := f i 0, 3 * i + 1 := f i 1, 3 * i + 2 := f i 2]) [0..<n] dst"
  have d1: "length d1 = 3 * px" "\<And>k. k < 3 * px \<Longrightarrow> d1 ! k = (if k < 3 * n then f (k div 3) (k mod 3) else dst ! k)"
    using fold_triples [where n = n and dst = dst and f = f] b(3) len by (simp_all add: d1_def)
  have sub: "3 * i + 2 - 1 = 3 * i + 1" "3 * i + 2 - 2 = 3 * i" for i :: nat by simp_all
  have c: "convert_row dither_mask h src avail row dst =
      memset_at (memset_at (memset_at d1 (3 * n) 0xff (3 * px - 3 * n)) 0 0xff (3 * lead)) (3 * tail) 0xff (3 * px - 3 * tail)"
    by (simp only: convert_row_def Let_def white_line_def [symmetric] assms(1,2) d if_False if_True
        d1_def f_def diff_zero simp_thms sub flip: n_def)
  show "length (convert_row dither_mask h src avail row dst) = length dst"
    using b d1 len by (simp add: c)
  have v: "visible h avail (k div 3) \<longleftrightarrow> 3 * lead \<le> k \<and> k < 3 * n \<and> k < 3 * tail" if "k < 3 * px" for k
  proof -
    have "visible h avail j \<longleftrightarrow> lead \<le> j \<and> j < n \<and> j < tail" if "j < px" for j
      using that assms(3,4,5) by (auto simp: visible_def lead_def tail_def n_def px_def margins_ok_def)
    moreover have "k div 3 < px" using that by linarith
    ultimately show ?thesis by auto
  qed
  show "k < length dst \<Longrightarrow> convert_row dither_mask h src avail row dst ! k =
       (if visible h avail (k div 3) then lut h (src ! (3 * (k div 3) + 2 - k mod 3)) else 0xff)"
    using b d1 v len by (auto simp: c nth_memset_at f_def)
qed

lemma convert_row_bilevel:
  assumes "\<not> white_line h row" "p_format (h_params h) = SANE_FRAME_GRAY" "p_depth (h_params h) = 1"
    "margins_ok h" "0 \<le> avail" "int (length dst) = p_bytes_per_line (h_params h)"
    "p_bytes_per_line (h_params h) = (p_pixels_per_line (h_params h) + 7) div 8"
    "1 \<le> p_pixels_per_line (h_params h)" "length dither_mask = 16384" "0 \<le> row"
  shows "length (convert_row dither_mask h src avail row dst) = length dst"
    "i div 8 < length dst \<Longrightarrow> pixel_bit (convert_row dither_mask h src avail row dst) i \<longleftrightarrow>
       visible h avail i \<and> is_dark dither_mask h src row i"
proof -
  let ?px = "p_pixels_per_line (h_params h)"
  define lead where "lead = nat (if h_white_left h < ?px then h_white_left h else ?px)"
  define tail where "tail = ?px - (if h_white_right h < ?px then h_white_right h else ?px)"
  define n0 where "n0 = (if avail < ?px then avail else ?px)"
  define n where "n = nat (if tail < n0 then tail else n0)"
  have cell: "drop (nat (row mod 128) * 128) dither_mask ! (i mod 128) =
      dither_mask ! (nat (row mod 128) * 128 + i mod 128)" for i
  proof (rule nth_drop)
    have "nat (row mod 128) \<le> 127" using pos_mod_bound [of 128 row] by linarith
    then show "nat (row mod 128) * 128 \<le> length dither_mask"
      using assms(9) by simp
  qed
  have dark: "is_dark dither_mask h src row = (if h_halftone h
      then (\<lambda>i. lut h (src ! i) < dither_mask ! (nat (row mod 128) * 128 + i mod 128))
      else (\<lambda>i. uint (lut h (src ! i)) < h_threshold h))"
    by (simp add: is_dark_def fun_eq_iff)
  have c: "convert_row dither_mask h src avail row dst =
      pack_dark (is_dark dither_mask h src row) lead n (replicate (length dst) 0)"
    using assms(1-3,6) unfolding white_line_def
    by (simp only: convert_row_def Let_def white_line_def [symmetric] DITHER_SIZE_def cell dark
        assms(1-3) assms(6) [symmetric] nat_int memset_at_all [OF refl] if_False if_True
        sane_frame.distinct simp_thms of_nat_numeral flip: lead_def tail_def n0_def n_def)
       (simp only: split: if_split, simp)
  then show "length (convert_row dither_mask h src avail row dst) = length dst" by simp
  have "int i < ?px \<Longrightarrow> i div 8 < length dst" for i
    using assms(6,7) by linarith
  moreover have "i < n \<Longrightarrow> int i < ?px" for i
    by (auto simp: n_def n0_def tail_def split: if_splits)
  ultimately have r: "\<forall>i < n. i div 8 < length (replicate (length dst) (0::byte))" by auto
  have v: "visible h avail i \<longleftrightarrow> lead \<le> i \<and> i < n" for i
    using assms(4,5,8) by (auto simp: visible_def lead_def n_def n0_def tail_def margins_ok_def)
  show "i div 8 < length dst \<Longrightarrow> pixel_bit (convert_row dither_mask h src avail row dst) i \<longleftrightarrow>
       visible h avail i \<and> is_dark dither_mask h src row i"
    by (simp add: c pixel_bit_pack_dark [OF r] v pixel_bit_clear)
qed

end
