(* ===== verification/Page_Laws.thy ===== *)
theory Page_Laws
  imports Image_Laws
begin

text \<open>
  Accounting for the rows of a page: white rows and data blocks append whole rows, in
  order, each as long as the parameters promise, and leave everything else of the handle
  alone; with an allocator that obliges a well-formed block adds exactly the rows of the
  page it covers.
\<close>

unbundle bit_operations_syntax

section \<open>Accounting for the rows of a page\<close>

text \<open>Two states of one job: only the queue, the row counter and the block buffer differ.\<close>

definition same_job :: "pantum_handle \<Rightarrow> pantum_handle \<Rightarrow> bool" where
  "same_job h h' \<longleftrightarrow> (\<exists>a b c d e f g i.
     h' = h\<lparr>h_out := a, h_out_pos := b, h_out_cap := c, h_out_alloc := d, h_overrun := e,
            h_next_row := f, h_raw := g, h_raw_cap := i\<rparr>)"

lemma same_job_fields:
  assumes "same_job h h'"
  shows "h_params h' = h_params h" "h_scanning h' = h_scanning h" "h_locked h' = h_locked h"
    "h_eof h' = h_eof h" "h_feeding h' = h_feeding h" "h_cancelled h' = h_cancelled h"
    "h_gamma h' = h_gamma h" "h_halftone h' = h_halftone h" "h_threshold h' = h_threshold h"
    "h_white_left h' = h_white_left h" "h_white_right h' = h_white_right h"
    "h_white_top h' = h_white_top h" "h_white_bottom h' = h_white_bottom h"
    "h_opt h' = h_opt h" "h_val_w h' = h_val_w h" "h_val_s h' = h_val_s h" "h_has_adf h' = h_has_adf h"
    "h_non_blocking h' = h_non_blocking h"
  using assms by (auto simp: same_job_def)

lemma same_job_refl [simp]: "same_job h h"
  unfolding same_job_def by (intro exI) (rule pantum_handle.equality; simp)

lemma same_job_trans: "same_job h h1 \<Longrightarrow> same_job h1 h2 \<Longrightarrow> same_job h h2"
  unfolding same_job_def by fastforce

lemma same_job_convert_row:
  assumes "same_job h h'"
  shows "convert_row m h' = convert_row m h"
  by (simp only: fun_eq_iff convert_row_def lut_def same_job_fields [OF assms] simp_thms)

text \<open>\<open>rows\<close> were appended to the page, in order.\<close>

definition page_step :: "pantum_handle \<Rightarrow> byte list list \<Rightarrow> pantum_handle \<Rightarrow> bool" where
  "page_step h rows h' \<longleftrightarrow> same_job h h' \<and> queue_ok h' \<and> unread h' = unread h @ concat rows
     \<and> h_next_row h' = h_next_row h + int (length rows)"

lemma page_step_refl: "queue_ok h \<Longrightarrow> page_step h [] h"
  by (simp add: page_step_def)

lemma page_step_trans:
  "page_step h rows h1 \<Longrightarrow> page_step h1 rows' h2 \<Longrightarrow> page_step h (rows @ rows') h2"
  by (auto simp: page_step_def intro: same_job_trans)

lemma out_reserve_step:
  assumes "out_reserve E n h w = (st, h1, w1)" "queue_ok h"
  shows "page_step h [] h1" "h_raw h1 = h_raw h"
proof -
  from out_reserve_fields [OF assms(1)] obtain a b c d where
    h1: "h1 = h\<lparr>h_out := a, h_out_pos := b, h_out_cap := c, h_out_alloc := d\<rparr>" .
  have "same_job h h1"
    unfolding same_job_def h1 by (intro exI) (rule pantum_handle.equality; simp)
  then show "page_step h [] h1"
    using out_reserve_unread [OF assms] out_reserve_frame(2) [OF assms(1)] by (simp add: page_step_def)
  show "h_raw h1 = h_raw h" by (simp add: h1)
qed

lemma out_put_step:
  assumes "queue_ok h"
  shows "page_step h [bs] (out_put bs h\<lparr>h_next_row := h_next_row h + 1\<rparr>)"
proof -
  have "same_job h (out_put bs h\<lparr>h_next_row := h_next_row h + 1\<rparr>)"
    unfolding same_job_def out_put_def by (intro exI) (rule pantum_handle.equality; simp)
  moreover have "queue_ok (out_put bs h\<lparr>h_next_row := h_next_row h + 1\<rparr>)"
    "unread (out_put bs h\<lparr>h_next_row := h_next_row h + 1\<rparr>) = unread h @ bs"
    using out_put_unread [OF assms] by (simp_all add: queue_ok_def unread_def)
  ultimately show ?thesis by (simp add: page_step_def)
qed

lemma push_row:
  assumes "out_reserve E (length bs) h w = (SANE_STATUS_GOOD, h1, w1)" "queue_ok h"
  defines "h2 \<equiv> out_put bs h1\<lparr>h_next_row := h_next_row h1 + 1\<rparr>"
  shows "page_step h [bs] h2" "mem_ok h \<Longrightarrow> mem_ok h2" "h_raw h2 = h_raw h"
proof -
  note r = out_reserve_step [OF assms(1,2)]
  then have "queue_ok h1" by (simp add: page_step_def)
  from page_step_trans [OF r(1) out_put_step [OF this, of bs]] show "page_step h [bs] h2"
    by (simp add: h2_def)
  show "mem_ok h2" if "mem_ok h"
  proof -
    have "mem_ok (out_put bs h1)"
      using out_reserve_room [OF assms(1) that] by (intro out_put_room)
    then show ?thesis by (simp add: h2_def mem_ok_def)
  qed
  show "h_raw h2 = h_raw h" using r(2) by (simp add: h2_def out_put_def)
qed

text \<open>Margins and gaps: the page grows by white rows up to the row asked for.\<close>

lemma length_white_row [simp]: "length (white_row p) = nat (p_bytes_per_line p)"
  by (simp add: white_row_def)

lemma emit_white_rows_step:
  "emit_white_rows E until h w = (st, h', w') \<Longrightarrow> queue_ok h \<Longrightarrow>
   \<exists>k. page_step h (replicate k (white_row (h_params h))) h'
     \<and> h_next_row h' \<le> max (h_next_row h) (min until (p_lines (h_params h)))
     \<and> (st = SANE_STATUS_GOOD \<longrightarrow>
          h_next_row h' = max (h_next_row h) (min until (p_lines (h_params h))) \<and> (mem_ok h \<longrightarrow> mem_ok h'))
     \<and> h_raw h' = h_raw h"
proof (induction E until h w rule: emit_white_rows.induct)
  case (1 E until h w)
  show ?case
  proof (cases "h_next_row h < until \<and> h_next_row h < p_lines (h_params h)")
    case False
    with "1.prems" show ?thesis
      by (intro exI [of _ 0]) (auto simp: emit_white_rows.simps [of E until h w] page_step_refl)
  next
    case True
    obtain st1 h1 w1 where r: "out_reserve E (nat (p_bytes_per_line (h_params h))) h w = (st1, h1, w1)"
      by (metis prod_cases3)
    show ?thesis
    proof (cases "st1 = SANE_STATUS_GOOD")
      case False
      with "1.prems" True r have "st = st1" "h' = h1"
        by (simp_all add: emit_white_rows.simps [of E until h w])
      with False out_reserve_step [OF r "1.prems"(2)] True out_reserve_frame(2) [OF r] show ?thesis
        by (intro exI [of _ 0]) auto
    next
      case ok: True
      define h2 where "h2 = out_put (white_row (h_params h1)) h1"
      have p: "h_params h1 = h_params h" using out_reserve_frame(1) [OF r] .
      have pr: "page_step h [white_row (h_params h)] (h2\<lparr>h_next_row := h_next_row h2 + 1\<rparr>)"
        "mem_ok h \<Longrightarrow> mem_ok (h2\<lparr>h_next_row := h_next_row h2 + 1\<rparr>)"
        "h_raw (h2\<lparr>h_next_row := h_next_row h2 + 1\<rparr>) = h_raw h"
        using push_row [of E "white_row (h_params h)" h w h1 w1] r ok "1.prems"(2) p
        by (simp_all add: h2_def out_put_def)
      have rec: "emit_white_rows E until (h2\<lparr>h_next_row := h_next_row h2 + 1\<rparr>) w1 = (st, h', w')"
        using "1.prems" True r ok by (simp add: emit_white_rows.simps [of E until h w] h2_def Let_def)
      have q: "queue_ok (h2\<lparr>h_next_row := h_next_row h2 + 1\<rparr>)"
        "h_params h2 = h_params h" "h_next_row h2 = h_next_row h"
        using pr(1) p out_reserve_frame(2) [OF r] by (auto simp: page_step_def h2_def out_put_def)
      from "1.IH" [OF True r [symmetric] refl _ h2_def rec q(1)] ok obtain k where
        k: "page_step (h2\<lparr>h_next_row := h_next_row h2 + 1\<rparr>) (replicate k (white_row (h_params h))) h'"
        "h_next_row h' \<le> max (h_next_row h + 1) (min until (p_lines (h_params h)))"
        "st = SANE_STATUS_GOOD \<longrightarrow> h_next_row h' = max (h_next_row h + 1) (min until (p_lines (h_params h)))
          \<and> (mem_ok (h2\<lparr>h_next_row := h_next_row h2 + 1\<rparr>) \<longrightarrow> mem_ok h')"
        "h_raw h' = h_raw (h2\<lparr>h_next_row := h_next_row h2 + 1\<rparr>)"
        using q by auto
      from page_step_trans [OF pr(1) k(1)] show ?thesis
        using True k pr(2,3) by (intro exI [of _ "Suc k"]) auto
    qed
  qed
qed

text \<open>Everything a converted row can be is as long as a row has to be.\<close>

definition page_wf :: "pantum_handle \<Rightarrow> bool" where
  "page_wf h \<longleftrightarrow> params_wf (h_params h) \<and> margins_ok h"

lemma page_wf_same_job: "same_job h h' \<Longrightarrow> page_wf h' = page_wf h"
  by (simp add: page_wf_def margins_ok_def same_job_fields)

lemma page_wf_bpl: "page_wf h \<Longrightarrow> 0 < p_bytes_per_line (h_params h)"
  by (auto simp: page_wf_def params_wf_def)

lemma convert_row_length:
  assumes "page_wf h" "length dm = 16384" "0 \<le> avail" "0 \<le> row"
    "int (length dst) = p_bytes_per_line (h_params h)"
  shows "length (convert_row dm h src avail row dst) = length dst"
proof (cases "white_line h row")
  case True
  then show ?thesis using convert_row_white [of h row dst] assms(5) by (simp add: white_row_def)
next
  case False
  from assms(1) have wf: "params_wf (h_params h)" "margins_ok h" by (simp_all add: page_wf_def)
  show ?thesis
    using False wf assms convert_row_rgb(1) [of h row avail dst] convert_row_grey(1) [of h row avail dst]
      convert_row_bilevel(1) [of h row avail dst dm]
    by (auto simp: params_wf_def)
qed

section \<open>The rows of a block\<close>

text \<open>Row \<open>r\<close> of the page, taken from a block whose first row is \<open>first\<close>.\<close>

definition block_row ::
  "byte list \<Rightarrow> pantum_handle \<Rightarrow> byte list \<Rightarrow> u32 \<Rightarrow> nat \<Rightarrow> u32 \<Rightarrow> int \<Rightarrow> byte list" where
  "block_row dm h raw first stride avail r =
     convert_row dm h (drop (nat (r - uint first) * stride) raw) (sint avail) r
       (replicate (nat (p_bytes_per_line (h_params h))) 0)"

lemma length_block_row:
  assumes "page_wf h" "length dm = 16384" "0 \<le> sint avail" "0 \<le> r"
  shows "length (block_row dm h raw first stride avail r) = nat (p_bytes_per_line (h_params h))"
  using convert_row_length [OF assms(1,2,3,4)] page_wf_bpl [OF assms(1)]
  by (simp add: block_row_def)

lemma block_row_same_job: "same_job h h' \<Longrightarrow> block_row dm h' = block_row dm h"
  by (simp add: fun_eq_iff block_row_def same_job_convert_row same_job_fields)

text \<open>\<open>h'\<close> has some of the rows appended, all of them when the status is good.\<close>

definition rows_step ::
  "sane_status \<Rightarrow> pantum_handle \<Rightarrow> byte list list \<Rightarrow> pantum_handle \<Rightarrow> bool" where
  "rows_step st h rows h' \<longleftrightarrow>
     (\<exists>k \<le> length rows. page_step h (take k rows) h' \<and> (st = SANE_STATUS_GOOD \<longrightarrow> k = length rows))
     \<and> (st = SANE_STATUS_GOOD \<longrightarrow> mem_ok h \<longrightarrow> mem_ok h')"

lemma rows_step_Cons:
  assumes "page_step h [bs] h1" "mem_ok h \<Longrightarrow> mem_ok h1" "rows_step st h1 rows h'"
  shows "rows_step st h (bs # rows) h'"
proof -
  from assms(3) obtain k where k: "k \<le> length rows" "page_step h1 (take k rows) h'"
    "st = SANE_STATUS_GOOD \<longrightarrow> k = length rows"
    by (auto simp: rows_step_def)
  from page_step_trans [OF assms(1) k(2)] have "page_step h (take (Suc k) (bs # rows)) h'" by simp
  moreover have "Suc k \<le> length (bs # rows)" "st = SANE_STATUS_GOOD \<longrightarrow> Suc k = length (bs # rows)"
    using k by simp_all
  ultimately show ?thesis using assms(2,3) unfolding rows_step_def by blast
qed

lemma rows_step_append:
  assumes "rows_step SANE_STATUS_GOOD h rows1 h1" "rows_step st h1 rows2 h'"
  shows "rows_step st h (rows1 @ rows2) h'"
proof -
  from assms(1) have 1: "page_step h rows1 h1" "mem_ok h \<longrightarrow> mem_ok h1" by (auto simp: rows_step_def)
  from assms(2) obtain k where k: "k \<le> length rows2" "page_step h1 (take k rows2) h'"
    "st = SANE_STATUS_GOOD \<longrightarrow> k = length rows2" "st = SANE_STATUS_GOOD \<longrightarrow> mem_ok h1 \<longrightarrow> mem_ok h'"
    by (auto simp: rows_step_def)
  have "page_step h (take (length rows1 + k) (rows1 @ rows2)) h'"
    using page_step_trans [OF 1(1) k(2)] by simp
  with 1(2) k show ?thesis
    by (auto simp: rows_step_def intro!: exI [of _ "length rows1 + k"])
qed

lemma rows_step_stop:
  "st \<noteq> SANE_STATUS_GOOD \<Longrightarrow> page_step h [] h' \<Longrightarrow> rows_step st h rows h'"
  by (auto simp: rows_step_def intro!: exI [of _ 0])

lemma rows_step_weaken:
  "rows_step st h rows1 h' \<Longrightarrow> st \<noteq> SANE_STATUS_GOOD \<Longrightarrow> rows_step st h (rows1 @ rows2) h'"
proof -
  assume "rows_step st h rows1 h'" "st \<noteq> SANE_STATUS_GOOD"
  then obtain k where "k \<le> length rows1" "page_step h (take k rows1) h'" by (auto simp: rows_step_def)
  with \<open>st \<noteq> SANE_STATUS_GOOD\<close> show ?thesis
    unfolding rows_step_def by (intro conjI exI [of _ k]) auto
qed

lemma rows_step_refl: "queue_ok h \<Longrightarrow> rows_step SANE_STATUS_GOOD h [] h"
  by (simp add: rows_step_def page_step_refl)

lemma emit_white_rows_rows:
  assumes "emit_white_rows E until h w = (st, h', w')" "queue_ok h"
  shows "rows_step st h (replicate (nat (min until (p_lines (h_params h)) - h_next_row h))
      (white_row (h_params h))) h'"
    "h_raw h' = h_raw h"
proof -
  obtain k where k: "page_step h (replicate k (white_row (h_params h))) h'"
     "h_next_row h' \<le> max (h_next_row h) (min until (p_lines (h_params h)))"
     "st = SANE_STATUS_GOOD \<longrightarrow>
          h_next_row h' = max (h_next_row h) (min until (p_lines (h_params h))) \<and> (mem_ok h \<longrightarrow> mem_ok h')"
     "h_raw h' = h_raw h"
    using emit_white_rows_step [OF assms] by blast
  have "h_next_row h' = h_next_row h + int k" using k(1) by (simp add: page_step_def)
  with k(2,3) have "k \<le> nat (min until (p_lines (h_params h)) - h_next_row h)"
    "st = SANE_STATUS_GOOD \<longrightarrow> k = nat (min until (p_lines (h_params h)) - h_next_row h)"
    by linarith+
  then show "rows_step st h (replicate (nat (min until (p_lines (h_params h)) - h_next_row h))
      (white_row (h_params h))) h'"
    using k(1,3) unfolding rows_step_def by (intro conjI exI [of _ k]) (auto simp: min_absorb1)
  show "h_raw h' = h_raw h" by fact
qed

lemma sint_small: "uint (x :: u32) < 2 ^ 31 \<Longrightarrow> sint x = uint x"
proof -
  assume "uint x < 2 ^ 31"
  moreover have "- (2 ^ 31) \<le> uint x" by (rule order_trans [of _ 0]) simp_all
  ultimately show ?thesis unfolding sint_uint by (intro signed_take_bit_int_eq_self) simp_all
qed

lemma data_rows_rows:
  assumes "i + m < 2 ^ 32" "queue_ok h"
    "page_wf h" "length dm = 16384" "0 \<le> sint avail" "0 \<le> h_next_row h"
    "h_next_row h \<le> p_lines (h_params h)" "p_lines (h_params h) < 2 ^ 31"
    "min (uint first + int i) (p_lines (h_params h)) \<le> h_next_row h"
    "data_rows E dm first stride avail [i..<i + m] h w = (st, h', w')"
  shows "rows_step st h (map (block_row dm h (h_raw h) first stride avail)
      [h_next_row h .. min (uint first + int (i + m)) (p_lines (h_params h)) - 1]) h'"
  using assms
proof (induction m arbitrary: i h w)
  case 0
  then have "st = SANE_STATUS_GOOD" "h' = h" by auto
  moreover have "[h_next_row h .. min (uint first + int i) (p_lines (h_params h)) - 1] = []"
    using "0.prems"(9) by simp
  ultimately show ?case using "0.prems"(2) by (simp add: rows_step_refl)
next
  case (Suc m)
  let ?lines = "p_lines (h_params h)"
  define row where "row = first + of_nat i"
  have upt: "[i..<i + Suc m] = i # [Suc i..<Suc i + m]" by (simp add: upt_conv_Cons)
  have next32: "uint (word_of_int (h_next_row h) :: u32) = h_next_row h"
    "uint (word_of_int ?lines :: u32) = ?lines"
    using Suc.prems(6-8) by (simp_all add: uint_word_of_int mod_pos_pos_trivial)
  have i32: "uint (of_nat i :: u32) = int i"
    using Suc.prems(1) by (simp add: uint_word_of_int unsigned_of_nat take_bit_nat_eq_self mod_pos_pos_trivial nat_less_iff)
  have f32: "0 \<le> uint first" "uint first < 2 ^ 32" by (simp_all add: uint_lt2p [of first, simplified])
  have rowv: "uint row = (if uint first + int i < 2 ^ 32 then uint first + int i else uint first + int i - 2 ^ 32)"
    using uint_plus_if' [of first "of_nat i"] by (simp add: row_def i32)
  define skip where "skip \<longleftrightarrow> row < first \<or> row < word_of_int (h_next_row h) \<or> word_of_int ?lines \<le> row"
  show ?case
  proof (cases skip)
    case True
    have d: "data_rows E dm first stride avail [Suc i..<Suc i + m] h w = (st, h', w')"
      using Suc.prems(10) True unfolding upt by (simp add: Let_def row_def skip_def)
    have "min (uint first + int (Suc i)) ?lines \<le> h_next_row h"
      using True Suc.prems(1,6,7,8,9) rowv f32 unfolding skip_def word_less_def word_le_def next32
      by (auto split: if_splits)
    from Suc.IH [OF _ Suc.prems(2-8) this d] Suc.prems(1) show ?thesis by simp
  next
    case False
    have r: "uint row = uint first + int i" "h_next_row h \<le> uint row" "uint row < ?lines"
      using False Suc.prems(1) rowv f32 unfolding skip_def word_less_def word_le_def next32
      by (auto split: if_splits)
    have rn: "uint row = h_next_row h" using r Suc.prems(9) by simp
    have srow: "sint row = uint row"
      using r(3) Suc.prems(8) by (simp add: sint_small)
    obtain st1 h1 w1 where res: "out_reserve E (nat (p_bytes_per_line (h_params h))) h w = (st1, h1, w1)"
      by (metis prod_cases3)
    show ?thesis
    proof (cases "st1 = SANE_STATUS_GOOD")
      case False
      then have "st = st1" "h' = h1"
        using Suc.prems(10) \<open>\<not> skip\<close> res unfolding upt by (simp_all add: Let_def row_def skip_def)
      with False out_reserve_step(1) [OF res Suc.prems(2)] show ?thesis by (simp add: rows_step_stop)
    next
      case True
      define bs where "bs = convert_row dm h1 (drop (i * stride) (h_raw h1)) (sint avail) (sint row)
        (replicate (nat (p_bytes_per_line (h_params h))) 0)"
      define h2 where "h2 = out_put bs h1\<lparr>h_next_row := h_next_row h1 + 1\<rparr>"
      note o = out_reserve_step [OF res Suc.prems(2)]
      have sj: "same_job h h1" using o(1) by (simp add: page_step_def)
      have nat_i: "nat (h_next_row h - uint first) = i" using rn r(1) by simp
      have "bs = block_row dm h (h_raw h) first stride avail (h_next_row h)"
        using rn r(1) nat_i by (simp add: bs_def block_row_def same_job_convert_row [OF sj] o(2) srow)
      moreover have "length bs = nat (p_bytes_per_line (h_params h))"
        unfolding calculation using length_block_row [OF Suc.prems(3,4,5)] Suc.prems(6) by simp
      ultimately have bs: "bs = block_row dm h (h_raw h) first stride avail (h_next_row h)"
        "length bs = nat (p_bytes_per_line (h_params h))" by simp_all
      have "out_reserve E (length bs) h w = (SANE_STATUS_GOOD, h1, w1)" using res True bs(2) by simp
      note pr = push_row [OF this Suc.prems(2), folded h2_def]
      have n2: "h_next_row h2 = h_next_row h + 1" "queue_ok h2" "same_job h h2"
        using pr(1) by (simp_all add: page_step_def)
      have "h_next_row (out_put bs h1) = h_next_row h" using o(1) by (simp add: page_step_def out_put_def)
      then have upd: "out_put bs h1\<lparr>h_next_row := sint row + 1\<rparr> = h2"
        using o(1) rn srow by (simp add: h2_def page_step_def)
      have d: "data_rows E dm first stride avail [Suc i..<Suc i + m] h2 w1 = (st, h', w')"
        using Suc.prems(10) \<open>\<not> skip\<close> res True unfolding upt
        by (simp add: Let_def row_def [symmetric] skip_def bs_def [symmetric] upd)
      have p2: "h_params h2 = h_params h" using n2(3) by (simp add: same_job_fields)
      have "rows_step st h2 (map (block_row dm h2 (h_raw h2) first stride avail)
          [h_next_row h2 .. min (uint first + int (Suc i + m)) (p_lines (h_params h2)) - 1]) h'"
        using Suc.IH [OF _ n2(2) _ Suc.prems(4,5) _ _ _ _ d] Suc.prems r rn n2
        by (simp add: p2 page_wf_same_job [OF n2(3)])
      then have "rows_step st h2 (map (block_row dm h (h_raw h) first stride avail)
          [h_next_row h + 1 .. min (uint first + int (i + Suc m)) ?lines - 1]) h'"
        by (simp add: p2 n2(1) pr(3) block_row_same_job [OF n2(3)])
      note c = rows_step_Cons [OF pr(1,2) this]
      have "h_next_row h \<le> min (uint first + int (i + Suc m)) ?lines - 1"
        using r rn by simp
      then have "[h_next_row h .. min (uint first + int (i + Suc m)) ?lines - 1] =
          h_next_row h # [h_next_row h + 1 .. min (uint first + int (i + Suc m)) ?lines - 1]"
        by (rule upto_rec1)
      with c bs(1) show ?thesis by simp
    qed
  qed
qed

text \<open>What the memory behind the queue held does not matter.\<close>

lemma convert_row_dst:
  assumes "page_wf h" "0 \<le> avail"
    "int (length dst) = p_bytes_per_line (h_params h)" "int (length dst') = p_bytes_per_line (h_params h)"
  shows "convert_row dm h src avail row dst = convert_row dm h src avail row dst'"
proof (cases "white_line h row")
  case True
  then show ?thesis using assms(3,4) by (simp add: convert_row_white)
next
  case False
  from assms(1) have wf: "params_wf (h_params h)" "margins_ok h" by (simp_all add: page_wf_def)
  then consider "p_format (h_params h) = SANE_FRAME_RGB" "p_bytes_per_line (h_params h) = p_pixels_per_line (h_params h) * 3"
    | "p_format (h_params h) = SANE_FRAME_GRAY" "p_depth (h_params h) = 8" "p_bytes_per_line (h_params h) = p_pixels_per_line (h_params h)"
    | "p_format (h_params h) \<noteq> SANE_FRAME_RGB" "p_depth (h_params h) = 1"
    by (auto simp: params_wf_def)
  then show ?thesis
  proof cases
    case 1
    note r = convert_row_rgb [OF False 1(1) wf(2) assms(2)]
    have len: "int (length dst) = 3 * p_pixels_per_line (h_params h)" "int (length dst') = 3 * p_pixels_per_line (h_params h)"
      using assms(3,4) 1(2) by simp_all
    show ?thesis
      using len by (intro nth_equalityI) (simp_all add: r [OF len(1)] r [OF len(2)])
  next
    case 2
    note r = convert_row_grey [OF False 2(1,2) wf(2) assms(2)]
    have len: "int (length dst) = p_pixels_per_line (h_params h)" "int (length dst') = p_pixels_per_line (h_params h)"
      using assms(3,4) 2(3) by simp_all
    show ?thesis
      using len by (intro nth_equalityI) (simp_all add: r [OF len(1)] r [OF len(2)])
  next
    case 3
    have "length dst = nat (p_bytes_per_line (h_params h))" "length dst' = nat (p_bytes_per_line (h_params h))"
      using assms(3,4) by simp_all
    then have m: "memset_at dst 0 0 (nat (p_bytes_per_line (h_params h))) =
        memset_at dst' 0 (0::byte) (nat (p_bytes_per_line (h_params h)))"
      by (simp add: memset_at_all)
    show ?thesis
      using False unfolding white_line_def
      by (simp only: convert_row_def Let_def 3 m if_False if_True simp_thms)
  qed
qed

section \<open>A whole block\<close>

definition block_rows ::
  "byte list \<Rightarrow> pantum_handle \<Rightarrow> byte list \<Rightarrow> u32 \<Rightarrow> u32 \<Rightarrow> nat \<Rightarrow> u32 \<Rightarrow> byte list list" where
  "block_rows dm h raw first n stride avail =
     (let lines = p_lines (h_params h); top = min (uint first) lines
      in replicate (nat (top - h_next_row h)) (white_row (h_params h))
         @ map (block_row dm h raw first stride avail)
             [max (h_next_row h) top .. min (uint first + uint n) lines - 1])"

definition page_ok :: "pantum_handle \<Rightarrow> bool" where
  "page_ok h \<longleftrightarrow> queue_ok h \<and> page_wf h \<and> 0 \<le> h_next_row h
     \<and> h_next_row h \<le> p_lines (h_params h) \<and> p_lines (h_params h) < 2 ^ 31"

lemma same_job_raw:
  "page_step (h\<lparr>h_raw := raw, h_raw_cap := c\<rparr>) rows h' \<Longrightarrow> page_step h rows h'"
proof -
  assume s: "page_step (h\<lparr>h_raw := raw, h_raw_cap := c\<rparr>) rows h'"
  have "same_job h (h\<lparr>h_raw := raw, h_raw_cap := c\<rparr>)"
    unfolding same_job_def by (intro exI) (rule pantum_handle.equality; simp)
  with s show ?thesis by (auto simp: page_step_def unread_def intro: same_job_trans)
qed

lemma rows_step_raw:
  "rows_step st (h\<lparr>h_raw := raw, h_raw_cap := c\<rparr>) rows h' \<Longrightarrow> rows_step st h rows h'"
  by (auto simp: rows_step_def mem_ok_def dest: same_job_raw)

lemma rows_step_good:
  assumes "rows_step SANE_STATUS_GOOD h rows h'"
  shows "page_step h rows h'" "mem_ok h \<Longrightarrow> mem_ok h'"
  using assms by (auto simp: rows_step_def)

lemma rows_step_some:
  assumes "rows_step st h rows h'"
  obtains k where "k \<le> length rows" "page_step h (take k rows) h'"
  using assms by (auto simp: rows_step_def)

text \<open>The white gap and the rows, from any raw buffer.\<close>

lemma store_rows:
  assumes "page_ok h" "length dm = 16384" "0 \<le> sint avail"
    and "emit_white_rows E (if first < word_of_int (p_lines (h_params h)) then sint first
           else p_lines (h_params h)) h w = (st1, h1, w1)"
    and "if st1 \<noteq> SANE_STATUS_GOOD then (st, h', w') = (st1, h1, w1)
         else data_rows E dm first stride avail [0..<unat n] h1 w1 = (st, h', w')"
  shows "rows_step st h (block_rows dm h (h_raw h) first n stride avail) h'"
proof -
  let ?lines = "p_lines (h_params h)"
  from assms(1) have h: "queue_ok h" "page_wf h" "0 \<le> h_next_row h" "h_next_row h \<le> ?lines" "?lines < 2 ^ 31"
    by (simp_all add: page_ok_def)
  have "uint (word_of_int ?lines :: u32) = ?lines"
    using h by (simp add: uint_word_of_int mod_pos_pos_trivial)
  then have top: "(if first < word_of_int ?lines then sint first else ?lines) = min (uint first) ?lines"
    using h(5) by (auto simp: word_less_def min_def intro!: sint_small)
  note e = emit_white_rows_rows [OF assms(4)[unfolded top] h(1)]
  show ?thesis
  proof (cases "st1 = SANE_STATUS_GOOD")
    case False
    with assms(5) have eqs: "st = st1" "h' = h1" by simp_all
    from e(1) False show ?thesis
      unfolding block_rows_def Let_def eqs by (intro rows_step_weaken) simp_all
  next
    case True
    with assms(5) have d: "data_rows E dm first stride avail [0..<0 + unat n] h1 w1 = (st, h', w')" by simp
    note g = rows_step_good(1) [OF e(1)[unfolded True]]
    then have p1: "same_job h h1" "queue_ok h1" "h_next_row h1 = max (h_next_row h) (min (uint first) ?lines)"
      by (auto simp: page_step_def)
    have p: "h_params h1 = h_params h" using p1(1) by (simp add: same_job_fields)
    have "rows_step st h1 (map (block_row dm h1 (h_raw h1) first stride avail)
        [h_next_row h1 .. min (uint first + int (0 + unat n)) (p_lines (h_params h1)) - 1]) h'"
      by (rule data_rows_rows [OF _ p1(2) _ assms(2,3) _ _ _ _ d])
         (use h p1 unsigned_less [of n, where ?'a = nat] in \<open>simp_all add: p page_wf_same_job [OF p1(1)]\<close>)
    then have "rows_step st h1 (map (block_row dm h (h_raw h) first stride avail)
        [max (h_next_row h) (min (uint first) ?lines) .. min (uint first + uint n) ?lines - 1]) h'"
      by (simp add: p p1(3) e(2) block_row_same_job [OF p1(1)])
    from rows_step_append [OF e(1)[unfolded True] this] show ?thesis
      unfolding block_rows_def Let_def by simp
  qed
qed

text \<open>The allocator neither reads nor writes the wire.\<close>

definition alloc_quiet :: "'w env \<Rightarrow> ('w \<Rightarrow> byte list) \<Rightarrow> bool" where
  "alloc_quiet E pend \<longleftrightarrow> (\<forall>n w. pend (snd (alloc_ok E n w)) = pend w)"

definition alloc_grants :: "'w env \<Rightarrow> bool" where
  "alloc_grants E \<longleftrightarrow> (\<forall>n w. fst (alloc_ok E n w))"

lemma out_reserve_quiet:
  "out_reserve E n h w = (st, h', w') \<Longrightarrow> alloc_quiet E pend \<Longrightarrow> pend w' = pend w"
  unfolding out_reserve_def alloc_quiet_def Let_def
  by (auto split: if_splits prod.splits) (metis snd_conv)+

lemma out_reserve_grants:
  "out_reserve E n h w = (st, h', w') \<Longrightarrow> alloc_grants E \<Longrightarrow> st = SANE_STATUS_GOOD"
  unfolding out_reserve_def alloc_grants_def Let_def
  by (auto split: if_splits prod.splits) (metis fst_conv)+

lemma emit_white_rows_quiet:
  "emit_white_rows E until h w = (st, h', w') \<Longrightarrow> alloc_quiet E pend \<Longrightarrow> pend w' = pend w"
proof (induction E until h w rule: emit_white_rows.induct)
  case (1 E until h w)
  obtain st1 h1 w1 where r: "out_reserve E (nat (p_bytes_per_line (h_params h))) h w = (st1, h1, w1)"
    by (metis prod_cases3)
  note q = out_reserve_quiet [OF r "1.prems"(2)]
  show ?case
  proof (cases "h_next_row h < until \<and> h_next_row h < p_lines (h_params h) \<and> st1 = SANE_STATUS_GOOD")
    case False
    with "1.prems" r q show ?thesis
      by (auto simp: emit_white_rows.simps [of E until h w] Let_def split: if_splits)
  next
    case True
    with "1.prems" r have "emit_white_rows E until (out_put (white_row (h_params h1)) h1
        \<lparr>h_next_row := h_next_row (out_put (white_row (h_params h1)) h1) + 1\<rparr>) w1 = (st, h', w')"
      by (simp add: emit_white_rows.simps [of E until h w] Let_def)
    from "1.IH" [OF _ r [symmetric] refl _ refl this "1.prems"(2)] True q show ?thesis by simp
  qed
qed

lemma emit_white_rows_grants:
  "emit_white_rows E until h w = (st, h', w') \<Longrightarrow> alloc_grants E \<Longrightarrow> st = SANE_STATUS_GOOD"
proof (induction E until h w rule: emit_white_rows.induct)
  case (1 E until h w)
  obtain st1 h1 w1 where r: "out_reserve E (nat (p_bytes_per_line (h_params h))) h w = (st1, h1, w1)"
    by (metis prod_cases3)
  note q = out_reserve_grants [OF r "1.prems"(2)]
  show ?case
  proof (cases "h_next_row h < until \<and> h_next_row h < p_lines (h_params h)")
    case False
    with "1.prems" show ?thesis
      by (auto simp: emit_white_rows.simps [of E until h w] Let_def split: if_splits)
  next
    case True
    with "1.prems" r q have "emit_white_rows E until (out_put (white_row (h_params h1)) h1
        \<lparr>h_next_row := h_next_row (out_put (white_row (h_params h1)) h1) + 1\<rparr>) w1 = (st, h', w')"
      by (simp add: emit_white_rows.simps [of E until h w] Let_def)
    from "1.IH" [OF True r [symmetric] refl _ refl this "1.prems"(2)] q show ?thesis by simp
  qed
qed

lemma data_rows_quiet:
  "data_rows E dm first stride avail is h w = (st, h', w') \<Longrightarrow> alloc_quiet E pend \<Longrightarrow> pend w' = pend w"
  by (induction E dm first stride avail "is" h w rule: data_rows.induct)
     (auto simp: Let_def split: if_splits prod.splits dest: out_reserve_quiet)

lemma data_rows_grants:
  "data_rows E dm first stride avail is h w = (st, h', w') \<Longrightarrow> alloc_grants E \<Longrightarrow> st = SANE_STATUS_GOOD"
  by (induction E dm first stride avail "is" h w rule: data_rows.induct)
     (auto simp: Let_def split: if_splits prod.splits dest: out_reserve_grants)

text \<open>The stages of \<open>store_block\<close>, one result each.\<close>

lemma store_block_stages:
  assumes "(if h_raw_cap h < body then
              (case alloc_ok E body w of (ok, w1) \<Rightarrow>
                 if ok then (True, h\<lparr>h_raw_cap := body\<rparr>, w1) else (False, h, w1))
            else (True, h, w)) = (ok, h1, w1)"
    "usb_read E body TIMEOUT_READ w1 = ((st2, raw), w2)"
    "emit_white_rows E (if first < word_of_int (p_lines (h_params h1)) then sint first
       else p_lines (h_params h1)) (h1\<lparr>h_raw := raw\<rparr>) w2 = (st3, h3, w3)"
  shows "store_block E dm first n stride avail body h w =
    (if \<not> ok then (SANE_STATUS_NO_MEM, h1, snd (drain_payload E body TIMEOUT_READ w1))
     else if st2 \<noteq> SANE_STATUS_GOOD then (st2, h1\<lparr>h_raw := raw\<rparr>, w2)
     else if st3 \<noteq> SANE_STATUS_GOOD then (st3, h3, w3)
     else data_rows E dm first stride avail [0..<unat n] h3 w3)"
  unfolding store_block_def assms(1) using assms(2,3) by (simp split del: if_split cong: if_cong)

text \<open>Storing a block either fails before a row is made, or appends rows made from the
  bytes it read.\<close>

lemma store_block_rows:
  assumes "page_ok h" "length dm = 16384" "0 \<le> sint avail"
    and run: "store_block E dm first n stride avail body h w = (st, h', w')"
  shows "st \<noteq> SANE_STATUS_GOOD \<and> page_step h [] h' \<or>
    (\<exists>raw w1 w2. usb_read E body TIMEOUT_READ w1 = ((SANE_STATUS_GOOD, raw), w2)
      \<and> rows_step st h (block_rows dm h raw first n stride avail) h')"
proof -
  obtain ok h1 w1 where a: "(if h_raw_cap h < body then
              (case alloc_ok E body w of (ok, w1) \<Rightarrow>
                 if ok then (True, h\<lparr>h_raw_cap := body\<rparr>, w1) else (False, h, w1))
            else (True, h, w)) = (ok, h1, w1)"
    by (rule prod_cases3)
  have "h1 = h \<or> h1 = h\<lparr>h_raw_cap := body\<rparr>"
    using a by (simp only: case_prod_beta split: if_split_asm) (simp_all only: prod.inject simp_thms)
  then have "h1 = h\<lparr>h_raw := h_raw h, h_raw_cap := h_raw_cap h\<rparr> \<or> h1 = h\<lparr>h_raw := h_raw h, h_raw_cap := body\<rparr>"
    by simp
  then obtain c where h1: "h1 = h\<lparr>h_raw := h_raw h, h_raw_cap := c\<rparr>" by blast
  have q: "queue_ok h" using assms(1) by (simp add: page_ok_def)
  have stay: "page_step h [] (h\<lparr>h_raw := raw, h_raw_cap := k\<rparr>)" for raw k
    by (rule same_job_raw, rule page_step_refl) (use q in \<open>simp add: queue_ok_def\<close>)
  show ?thesis
  proof (cases ok)
    case False
    with run a have "st = SANE_STATUS_NO_MEM" "h' = h1" by (simp_all add: store_block_def)
    with stay [where raw = "h_raw h" and k = c] h1 show ?thesis by (intro disjI1) simp
  next
    case True
    obtain st2 raw w2 where u: "usb_read E body TIMEOUT_READ w1 = ((st2, raw), w2)" by (metis surj_pair)
    define h2 where "h2 = h\<lparr>h_raw := raw, h_raw_cap := c\<rparr>"
    have h2': "h1\<lparr>h_raw := raw\<rparr> = h2" by (simp add: h1 h2_def)
    have h2: "page_step h [] h2" by (simp add: h2_def stay)
    show ?thesis
    proof (cases "st2 = SANE_STATUS_GOOD")
      case False
      with run a True u have "st = st2" "h' = h2" by (simp_all add: store_block_def h2')
      with False h2 show ?thesis by simp
    next
      case good: True
      have p2: "h_params h2 = h_params h1" "h_params h1 = h_params h" by (simp_all add: h1 h2_def)
      obtain st3 h3 w3 where e: "emit_white_rows E (if first < word_of_int (p_lines (h_params h1)) then sint first
           else p_lines (h_params h1)) h2 w2 = (st3, h3, w3)"
        by (rule prod_cases3)
      have ok2: "page_ok h2"
        using assms(1) unfolding page_ok_def h2_def
        by (simp add: queue_ok_def page_wf_def margins_ok_def)
      have d: "if st3 \<noteq> SANE_STATUS_GOOD then (st, h', w') = (st3, h3, w3)
         else data_rows E dm first stride avail [0..<unat n] h3 w3 = (st, h', w')"
        using run unfolding store_block_stages [OF a u e [folded h2']] using True good by (simp del: upt.simps split: if_splits)
      have "rows_step st h2 (block_rows dm h2 (h_raw h2) first n stride avail) h'"
        by (rule store_rows [OF ok2 assms(2,3) e [folded p2(1)] d])
      moreover have "block_rows dm h2 (h_raw h2) first n stride avail = block_rows dm h raw first n stride avail"
      proof -
        have "same_job h h2" using h2 by (simp add: page_step_def)
        from block_row_same_job [OF this] same_job_fields(1) [OF this] show ?thesis
          by (simp add: block_rows_def h2_def)
      qed
      ultimately have "rows_step st h (block_rows dm h raw first n stride avail) h'"
        unfolding h2_def by (auto intro: rows_step_raw)
      with u good show ?thesis by blast
    qed
  qed
qed

text \<open>The sub-header in front of a block's rows, with the word nobody reads.\<close>

definition block_header :: "u32 \<Rightarrow> u32 \<Rightarrow> u32 \<Rightarrow> u32 \<Rightarrow> u32 \<Rightarrow> byte list \<Rightarrow> byte list" where
  "block_header ty first n planes pixels z =
     put_be32 ty @ put_be32 first @ put_be32 n @ put_be32 planes @ put_be32 pixels @ z"

lemma length_block_header [simp]: "length (block_header ty first n planes pixels z) = 20 + length z"
  by (simp add: block_header_def)

text \<open>Useful pixels per row: what the payload leaves room for, at most what is stated.\<close>

definition block_avail :: "nat \<Rightarrow> u32 \<Rightarrow> u32 \<Rightarrow> u32" where
  "block_avail stride planes pixels =
     (if pixels < of_nat (stride div unat planes) then pixels else of_nat (stride div unat planes))"

lemma block_avail_small:
  assumes "stride < 2 ^ 31"
  shows "sint (block_avail stride planes pixels) = min (uint pixels) (int (stride div unat planes))"
    "0 \<le> sint (block_avail stride planes pixels)"
proof -
  have "stride div unat planes \<le> stride" by simp
  with assms have q: "stride div unat planes < 2 ^ 31" by linarith
  then have u: "uint (of_nat (stride div unat planes) :: u32) = int (stride div unat planes)"
    by (simp add: uint_word_of_int unsigned_of_nat take_bit_nat_eq_self)
  have v: "uint (block_avail stride planes pixels) = min (uint pixels) (int (stride div unat planes))"
    unfolding block_avail_def word_less_def u [symmetric] by (simp add: min_def)
  also have "\<dots> < 2 ^ 31" using q by (simp add: min_less_iff_disj)
  finally have "sint (block_avail stride planes pixels) = uint (block_avail stride planes pixels)"
    by (intro sint_small)
  with v show "sint (block_avail stride planes pixels) = min (uint pixels) (int (stride div unat planes))"
    "0 \<le> sint (block_avail stride planes pixels)"
    by simp_all
qed

text \<open>Any data frame, whatever its sub-header claims: rows are appended or nothing is.\<close>

lemma handle_data_block_rows:
  assumes "page_ok h" "length dm = 16384" "unat plen < 2 ^ 31"
    and run: "handle_data_block E dm plen h w = (st, h', w')"
  shows "st \<noteq> SANE_STATUS_GOOD \<and> page_step h [] h' \<or>
    (\<exists>raw first n stride avail. 0 \<le> sint avail \<and>
       rows_step st h (block_rows dm h raw first n stride avail) h')"
proof -
  have stay: "page_step h [] h" using assms(1) by (simp add: page_ok_def page_step_refl)
  obtain st1 head w1 where u: "usb_read E PANTUM_DATA_HEADER_LEN TIMEOUT_READ w = ((st1, head), w1)"
    by (metis surj_pair)
  define n where "n = get_be32 (drop 8 head)"
  define planes where "planes = get_be32 (drop 12 head)"
  define body where "body = unat plen - PANTUM_DATA_HEADER_LEN"
  define good where "good \<longleftrightarrow> PANTUM_DATA_HEADER_LEN \<le> unat plen \<and> st1 = SANE_STATUS_GOOD
    \<and> get_be32 head \<noteq> DATA_JPEG \<and> \<not> (n = 0 \<or> planes = 0 \<or> body div unat n < unat planes)
    \<and> planes = (if p_format (h_params h) = SANE_FRAME_RGB then 3 else 1)"
  show ?thesis
  proof (cases good)
    case False
    then have "st \<noteq> SANE_STATUS_GOOD" "h' = h"
      using run u unfolding good_def n_def planes_def body_def
      by (auto simp: handle_data_block_def Let_def not_le split: if_splits)
    with stay show ?thesis by simp
  next
    case True
    define avail where "avail = block_avail (body div unat n) planes (get_be32 (drop 16 head))"
    have s: "store_block E dm (get_be32 (drop 4 head)) n (body div unat n) avail body h w1 = (st, h', w')"
      using run u True unfolding good_def n_def [symmetric] avail_def block_avail_def
      by (auto simp: handle_data_block_def Let_def n_def planes_def body_def)
    have "body div unat n \<le> body" "body \<le> unat plen" by (simp_all add: body_def)
    with assms(3) have "0 \<le> sint avail"
      unfolding avail_def by (intro block_avail_small(2)) linarith
    with store_block_rows [OF assms(1,2) this s] show ?thesis by blast
  qed
qed


text \<open>On a link that delivers and with an allocator that grants, a well-formed block is
  taken whole.\<close>

lemma store_block_ready:
  assumes "page_ok h" "length dm = 16384" "0 \<le> sint avail"
    and link: "link_in E pend" "link_ready E pend" "alloc_quiet E pend" "alloc_grants E"
    and queued: "pend w = body @ rest"
  shows "\<exists>h' w'. store_block E dm first n stride avail (length body) h w = (SANE_STATUS_GOOD, h', w')
    \<and> pend w' = rest \<and> page_step h (block_rows dm h body first n stride avail) h'"
proof -
  obtain ok w1 where al: "alloc_ok E (length body) w = (ok, w1)" by (metis surj_pair)
  have ok: "ok" "pend w1 = pend w"
    using link(3,4) al unfolding alloc_quiet_def alloc_grants_def by (metis fst_conv snd_conv)+
  define w2 where "w2 = (if h_raw_cap h < length body then w1 else w)"
  define c where "c = (if h_raw_cap h < length body then length body else h_raw_cap h)"
  have w2: "pend w2 = body @ rest" using ok queued by (simp add: w2_def)
  obtain w3 where u: "usb_read E (length body) TIMEOUT_READ w2 = ((SANE_STATUS_GOOD, body), w3)" "pend w3 = rest"
    using usb_read_ready [OF link(1,2), of "length body" w2 TIMEOUT_READ] w2 by auto
  define h2 where "h2 = h\<lparr>h_raw := body, h_raw_cap := c\<rparr>"
  obtain st3 h3 w4 where e: "emit_white_rows E (if first < word_of_int (p_lines (h_params h2)) then sint first
           else p_lines (h_params h2)) h2 w3 = (st3, h3, w4)"
    by (rule prod_cases3)
  have st3: "st3 = SANE_STATUS_GOOD" using emit_white_rows_grants [OF e link(4)] .
  obtain st h' w' where d: "data_rows E dm first stride avail [0..<unat n] h3 w4 = (st, h', w')"
    by (rule prod_cases3)
  have st: "st = SANE_STATUS_GOOD" using data_rows_grants [OF d link(4)] .
  have alloc: "(if h_raw_cap h < length body then
              (case alloc_ok E (length body) w of (ok, w1) \<Rightarrow>
                 if ok then (True, h\<lparr>h_raw_cap := length body\<rparr>, w1) else (False, h, w1))
            else (True, h, w)) = (True, h\<lparr>h_raw_cap := c\<rparr>, w2)"
    using al ok(1) by (simp add: c_def w2_def)
  have h2: "h\<lparr>h_raw_cap := c\<rparr>\<lparr>h_raw := body\<rparr> = h2" by (simp add: h2_def)
  have p2: "h_params h2 = h_params h" by (simp add: h2_def)
  have run: "store_block E dm first n stride avail (length body) h w = (SANE_STATUS_GOOD, h', w')"
    using store_block_stages [OF alloc u(1), of first st3 h3 w4] e d st3 st by (simp add: h2 p2 split del: if_split cong: if_cong)
  have ok2: "page_ok h2"
    using assms(1) unfolding page_ok_def h2_def by (simp add: queue_ok_def page_wf_def margins_ok_def)
  have "rows_step st h2 (block_rows dm h2 (h_raw h2) first n stride avail) h'"
    by (rule store_rows [OF ok2 assms(2,3) e]) (use st3 d in simp)
  moreover have sj: "same_job h h2"
    unfolding h2_def same_job_def by (intro exI) (rule pantum_handle.equality; simp)
  then have "block_rows dm h2 (h_raw h2) first n stride avail = block_rows dm h body first n stride avail"
    using block_row_same_job [OF sj] same_job_fields(1) [OF sj] by (simp add: block_rows_def h2_def)
  ultimately have "rows_step SANE_STATUS_GOOD h (block_rows dm h body first n stride avail) h'"
    unfolding st h2_def by (metis rows_step_raw)
  then have "page_step h (block_rows dm h body first n stride avail) h'" by (rule rows_step_good(1))
  moreover have "pend w' = rest"
    using emit_white_rows_quiet [OF e link(3)] data_rows_quiet [OF d link(3)] u(2) by simp
  ultimately show ?thesis using run by blast
qed

lemma length_block_rows:
  assumes "page_ok h"
  shows "int (length (block_rows dm h raw first n stride avail)) =
     max (h_next_row h) (min (uint first + uint n) (p_lines (h_params h))) - h_next_row h"
proof -
  have count: "int (nat (min f l - k)) + int (nat (min (f + m) l - max k (min f l))) = max k (min (f + m) l) - k"
    if "0 \<le> m" "k \<le> l" for f l k m :: int
    using that by (auto simp: max_def min_def)
  show ?thesis
    using assms count [OF uint_ge_0 [of n], of "h_next_row h" "p_lines (h_params h)" "uint first"]
    by (simp add: block_rows_def Let_def page_ok_def)
qed

text \<open>What a well-formed block does on a link that delivers.\<close>

text \<open>
  A well-formed data block appends exactly its part of the page. On a link that
  delivers and with an allocator that grants memory, a data frame whose sub-header
  announces \<open>n\<close> rows from row \<open>first\<close>, in the plane count of the requested mode, is read
  to its last byte and succeeds; the queue grows by white rows for the gap up to \<open>first\<close>
  and then, for every row of the block that lies on the page and was not handed out
  before, by that row converted from its own slice of the payload; the next row to hand
  out moves behind the block, never backwards and never off the page. Rows outside the
  page, repeated rows and row numbers that wrap around 32 bits add nothing.
\<close>

lemma data_block_ready:
  assumes page: "page_ok h" "length dm = DITHER_SIZE * DITHER_SIZE"
    and env: "link_in E pend" "link_ready E pend" "alloc_quiet E pend" "alloc_grants E"
    and head: "ty \<noteq> DATA_JPEG" "0 < n" "length z = 4"
      "planes = (if p_format (h_params h) = SANE_FRAME_RGB then 3 else 1)"
      "unat planes \<le> length body div unat n"
    and size: "unat plen = PANTUM_DATA_HEADER_LEN + length body" "plen \<le> PANTUM_MAX_PAYLOAD"
    and queued: "pend w = block_header ty first n planes pixels z @ body @ rest"
  shows "\<exists>h' w'. handle_data_block E dm plen h w = (SANE_STATUS_GOOD, h', w') \<and> pend w' = rest
    \<and> unread h' = unread h @ concat (block_rows dm h body first n (length body div unat n)
         (block_avail (length body div unat n) planes pixels))
    \<and> h_next_row h' = max (h_next_row h) (min (uint first + uint n) (p_lines (h_params h)))
    \<and> page_ok h' \<and> h_params h' = h_params h"
proof -
  let ?stride = "length body div unat n"
  let ?avail = "block_avail ?stride planes pixels"
  have plen: "unat plen < 2 ^ 31" using size(2) by (simp add: PANTUM_MAX_PAYLOAD_def word_le_nat_alt)
  have "?stride \<le> length body" by simp
  with plen size(1) have "?stride < 2 ^ 31" by linarith
  then have av: "0 \<le> sint ?avail" by (rule block_avail_small(2))
  obtain w1 where u: "usb_read E PANTUM_DATA_HEADER_LEN TIMEOUT_READ w =
      ((SANE_STATUS_GOOD, block_header ty first n planes pixels z), w1)" "pend w1 = body @ rest"
    using usb_read_ready [OF env(1,2), of 24 w TIMEOUT_READ] queued head(3)
    by (auto simp: PANTUM_DATA_HEADER_LEN_def)
  have get: "get_be32 (block_header ty first n planes pixels z) = ty"
    "get_be32 (drop 4 (block_header ty first n planes pixels z)) = first"
    "get_be32 (drop 8 (block_header ty first n planes pixels z)) = n"
    "get_be32 (drop 12 (block_header ty first n planes pixels z)) = planes"
    "get_be32 (drop 16 (block_header ty first n planes pixels z)) = pixels"
    by (simp_all add: block_header_def)
  have dm: "length dm = 16384" using page(2) by (simp add: DITHER_SIZE_def)
  obtain h' w' where s: "store_block E dm first n ?stride ?avail (length body) h w1 = (SANE_STATUS_GOOD, h', w')"
    "pend w' = rest" "page_step h (block_rows dm h body first n ?stride ?avail) h'"
    using store_block_ready [OF page(1) dm av env u(2)] by blast
  have "planes \<noteq> 0" "n \<noteq> 0" using head(2,4) by auto
  then have run: "handle_data_block E dm plen h w = (SANE_STATUS_GOOD, h', w')"
    unfolding handle_data_block_def using size(1) u(1) head(1,2,3,5) s(1)
    by (simp add: Let_def get head(4) [symmetric] flip: block_avail_def split del: if_split cong: if_cong)
  have nr: "h_next_row h' = max (h_next_row h) (min (uint first + uint n) (p_lines (h_params h)))"
    using s(3) length_block_rows [OF page(1), of dm body first n ?stride ?avail]
    by (auto simp: page_step_def)
  have sj: "same_job h h'" using s(3) by (simp add: page_step_def)
  have "page_ok h'"
    using page(1) s(3) nr page_wf_same_job [OF sj] same_job_fields(1) [OF sj]
    by (auto simp: page_ok_def page_step_def)
  with run s nr same_job_fields(1) [OF sj] show ?thesis by (auto simp: page_step_def)
qed

text \<open>A grey page of two pixels by four rows, nothing handed out yet.\<close>

definition small_page :: pantum_handle where
  "small_page = calloc_handle\<lparr>h_params := \<lparr>p_format = SANE_FRAME_GRAY, p_last_frame = True,
     p_bytes_per_line = 2, p_pixels_per_line = 2, p_lines = 4, p_depth = 8\<rparr>,
     h_gamma := [10, 20, 30, 40] @ replicate 252 255\<rparr>"

text \<open>The concrete link, with memory for everything.\<close>

definition rich_env :: "wire env" where
  "rich_env = wire_env\<lparr>alloc_ok := \<lambda>n w. (True, w)\<rparr>"

lemma rich_env_link [simp]:
  "link_in rich_env w_in" "link_out rich_env w_out" "link_ready rich_env w_in"
  "alloc_quiet rich_env w_in" "alloc_grants rich_env"
  by (auto simp: rich_env_def link_in_def link_out_def link_ready_def wire_env_def
      alloc_quiet_def alloc_grants_def)

lemma small_page_ok: "page_ok small_page"
  by (simp add: small_page_def calloc_handle_def page_ok_def queue_ok_def page_wf_def
      params_wf_def margins_ok_def)

text \<open>Rows 1 and 2 arrive: row 0 is filled white in front of them.\<close>

lemma data_block_example:
  "\<exists>h' w'. handle_data_block rich_env (replicate (DITHER_SIZE * DITHER_SIZE) 0) 28 small_page
      \<lparr>w_in = block_header 6 1 2 1 2 [0, 0, 0, 0] @ [1, 0, 3, 2] @ [9], w_out = [], w_mem = []\<rparr>
        = (SANE_STATUS_GOOD, h', w')
    \<and> w_in w' = [9] \<and> unread h' = [255, 255, 20, 10, 40, 30] \<and> h_next_row h' = 3"
proof -
  have fields: "p_format (h_params small_page) = SANE_FRAME_GRAY" "p_lines (h_params small_page) = 4"
    "p_pixels_per_line (h_params small_page) = 2" "p_bytes_per_line (h_params small_page) = 2"
    "p_depth (h_params small_page) = 8" "h_next_row small_page = 0" "unread small_page = []"
    "h_white_top small_page = 0" "h_white_bottom small_page = 0" "h_white_left small_page = 0"
    "h_white_right small_page = 0" "h_gamma small_page = [10, 20, 30, 40] @ replicate 252 255"
    by (simp_all add: small_page_def calloc_handle_def unread_def)
  have "[0..<2] = [0, 1 :: nat]" by (simp add: upt_rec)
  then have conv: "convert_row dm small_page (a # b # rest) 2 r [0, 0] = [lut small_page a, lut small_page b]"
    if "0 \<le> r" for dm a b rest r
    using that by (simp add: convert_row_def fields Let_def)
  have "replicate 2 x = [x, x]" for x :: byte by (simp add: numeral_2_eq_2)
  then have rows: "block_rows dm small_page [1, 0, 3, 2] 1 2 2 2 = [[255, 255], [20, 10], [40, 30]]" for dm
    by (simp add: block_rows_def block_row_def white_row_def fields upto_rec1 conv lut_def Let_def)
  have av: "block_avail 2 1 2 = 2" by (simp add: block_avail_def)
  show ?thesis
    using data_block_ready [OF small_page_ok _ rich_env_link(1,3,4,5), of "replicate (DITHER_SIZE * DITHER_SIZE) 0"
      6 2 "[0, 0, 0, 0]" 1 "[1, 0, 3, 2]" 28
      "\<lparr>w_in = block_header 6 1 2 1 2 [0, 0, 0, 0] @ [1, 0, 3, 2] @ [9], w_out = [], w_mem = []\<rparr>" 1 2 "[9]"]
    by (auto simp: rows [unfolded numeral_2_eq_2] av [unfolded numeral_2_eq_2] fields DATA_JPEG_def PANTUM_DATA_HEADER_LEN_def PANTUM_MAX_PAYLOAD_def)
qed

end
