(* ===== verification/Session_Laws.thy ===== *)
theory Session_Laws
  imports Page_Laws Session
begin

text \<open>
  What a session guarantees, whatever the device sends and whatever the frontend calls:
  the page grows by whole rows only, the flags of the handle stay consistent, the lock is
  held exactly while a job runs, and a page that is read to its end has exactly the bytes
  the parameters announced.
\<close>

unbundle bit_operations_syntax

section \<open>What the steps of a session do to the handle\<close>

definition unlocked :: "pantum_handle \<Rightarrow> pantum_handle" where
  "unlocked h = h\<lparr>h_feeding := False, h_locked := False\<rparr>"

lemma unlock_device_handle [simp]: "fst (unlock_device E h w) = unlocked h"
  by (auto simp: unlock_device_def unlocked_def Let_def split: prod.splits recv_result.splits)

lemma unlock_device_unlocked: "unlock_device E h w = (h', w') \<Longrightarrow> h' = unlocked h"
  using unlock_device_handle [of E h w] by simp

lemma end_scan_handle: "fst (end_scan E h w) = unlocked (h\<lparr>h_scanning := False\<rparr>)"
  by (auto simp: end_scan_def unlocked_def split: prod.splits)

lemma end_scan_unlocked: "end_scan E h w = (h', w') \<Longrightarrow> h' = unlocked (h\<lparr>h_scanning := False\<rparr>)"
  using end_scan_handle [of E h w] by simp

lemma lock_tries_handle:
  "lock_tries E n h w = (st, h', w') \<Longrightarrow>
   h' = (if st = SANE_STATUS_GOOD then h\<lparr>h_locked := True\<rparr> else unlocked h)"
proof (induction n arbitrary: h w)
  case 0
  then show ?case by (auto split: prod.splits dest: unlock_device_unlocked)
next
  case (Suc n)
  obtain r w1 where c: "command E CMD_LOCK [] None w = (r, w1)" by (metis surj_pair)
  define retry where "retry \<longleftrightarrow> \<not> (case c_ack r of None \<Rightarrow> 0 | Some ack \<Rightarrow> f_status ack) \<noteq> 2"
  show ?case
  proof (cases "c_status r = SANE_STATUS_GOOD \<or> \<not> retry")
    case True
    with Suc.prems c show ?thesis
      by (auto simp: Let_def retry_def unlocked_def split: prod.splits if_splits dest: unlock_device_unlocked)
  next
    case False
    with Suc.prems c have "lock_tries E n (h\<lparr>h_locked := True\<rparr>) (sleep_ms E 2000 w1) = (st, h', w')"
      by (auto simp: Let_def retry_def)
    from Suc.IH [OF this] show ?thesis by (simp add: unlocked_def)
  qed
qed

lemma lock_device_handle:
  "lock_device E h w = (st, h', w') \<Longrightarrow>
   h' = (if st = SANE_STATUS_GOOD then h\<lparr>h_locked := True\<rparr> else unlocked h)"
  unfolding lock_device_def by (rule lock_tries_handle)

text \<open>The outcomes of one turn of the pump.\<close>

lemma recv_rest_plen: "recv_rest E t got w = (Recv_Frame f, w') \<Longrightarrow> f_plen f \<le> PANTUM_MAX_PAYLOAD"
  by (auto simp: recv_rest_def parse_header_def Let_def not_less split: if_splits prod.splits)

lemma recv_frame_plen: "recv_frame E t probe w = (Recv_Frame f, w') \<Longrightarrow> f_plen f \<le> PANTUM_MAX_PAYLOAD"
  by (auto simp: recv_frame_def split: if_splits prod.splits dest: recv_rest_plen)

lemma pump_frame_cases:
  assumes "pump_frame E dm dbg probe want h w = (r, h', w')"
  obtains
    (same) "h' = h" "pr_aborted r = None" "pr_idle r \<Longrightarrow> pr_status r = SANE_STATUS_GOOD"
  | (data) plen w1 w2 st where "handle_data_block E dm plen h w1 = (st, h', w2)" "r = pumped st"
      "plen \<le> PANTUM_MAX_PAYLOAD"
  | (aborted) f :: pantum_frame where "h' = unlocked (h\<lparr>h_scanning := False\<rparr>)" "\<not> pr_idle r"
      "pr_aborted r = (if want then Some (f_status f) else None)"
      "want \<longleftrightarrow> pr_status r = SANE_STATUS_GOOD"
  | (job_end) h1 w1 w2 st where "emit_white_rows E (p_lines (h_params h)) h w1 = (st, h1, w2)"
      "h' = unlocked (h1\<lparr>h_eof := True, h_scanning := False\<rparr>)" "r = pumped st"
  | (page_end) h1 w1 w2 st where "emit_white_rows E (p_lines (h_params h)) h w1 = (st, h1, w2)"
      "h' = h1\<lparr>h_eof := True, h_feeding := True\<rparr>" "r = pumped st" "source_is_adf h"
proof -
  obtain res w1 where res: "recv_frame E TIMEOUT_READ probe w = (res, w1)" by (metis surj_pair)
  show thesis
  proof (cases res)
    case (Recv_Err st)
    with assms res show ?thesis by (intro same) (auto simp: pump_frame_def pumped_def)
  next
    case Recv_Idle
    with assms res show ?thesis by (intro same) (auto simp: pump_frame_def pumped_def)
  next
    case (Recv_Frame f)
    obtain st2 w2 where dr: "drain_payload E (unat (f_plen f)) TIMEOUT_READ w1 = (st2, w2)"
      by (metis surj_pair)
    have plen: "f_plen f \<le> PANTUM_MAX_PAYLOAD" using res Recv_Frame by (auto dest: recv_frame_plen)
    note defs = pump_frame_def res Recv_Frame dr
    consider "f_cmd f = EVT_DATA" | "f_cmd f = EVT_ABORTED" | "f_cmd f = EVT_JOB_END"
      | "f_cmd f = EVT_PAGE_END" "source_is_adf h"
      | "f_cmd f \<notin> {EVT_DATA, EVT_ABORTED, EVT_JOB_END}" "f_cmd f = EVT_PAGE_END \<longrightarrow> \<not> source_is_adf h"
      by blast
    then show ?thesis
    proof cases
      case 1
      obtain st h1 w2 where d: "handle_data_block E dm (f_plen f) h w1 = (st, h1, w2)" by (rule prod_cases3)
      with 1 assms have "h1 = h'" "r = pumped st" by (auto simp: defs)
      with d plen show ?thesis by (intro data) auto
    next
      case 2
      obtain h1 w3 where u: "unlock_device E (h\<lparr>h_scanning := False\<rparr>) w2 = (h1, w3)" by (metis surj_pair)
      from unlock_device_unlocked [OF u] 2 assms u show ?thesis
        by (intro aborted [of f]) (auto simp: defs protocol_codes pumped_def split: if_splits)
    next
      case 3
      obtain st h1 w3 where e: "emit_white_rows E (p_lines (h_params h)) h w2 = (st, h1, w3)" by (rule prod_cases3)
      obtain h2 w4 where u: "unlock_device E (h1\<lparr>h_eof := True, h_scanning := False\<rparr>) w3 = (h2, w4)"
        by (metis surj_pair)
      from unlock_device_unlocked [OF u] 3 assms e u show ?thesis
        by (intro job_end [OF e]) (auto simp: defs protocol_codes)
    next
      case 4
      obtain st h1 w3 where e: "emit_white_rows E (p_lines (h_params h)) h w2 = (st, h1, w3)" by (rule prod_cases3)
      from 4 assms e show ?thesis
        by (intro page_end [OF e]) (auto simp: defs protocol_codes)
    next
      case 5
      with assms show ?thesis
        by (intro same) (auto simp: defs pumped_def split: if_splits prod.splits)
    qed
  qed
qed

section \<open>The page grows by whole rows\<close>

text \<open>Two states of one session: the job's parameters and margins are the same.\<close>

definition same_session :: "pantum_handle \<Rightarrow> pantum_handle \<Rightarrow> bool" where
  "same_session h h' \<longleftrightarrow> h_params h' = h_params h \<and> h_cancelled h' = h_cancelled h
     \<and> h_gamma h' = h_gamma h \<and> h_halftone h' = h_halftone h \<and> h_threshold h' = h_threshold h
     \<and> h_white_left h' = h_white_left h \<and> h_white_right h' = h_white_right h
     \<and> h_white_top h' = h_white_top h \<and> h_white_bottom h' = h_white_bottom h
     \<and> h_opt h' = h_opt h \<and> h_val_w h' = h_val_w h \<and> h_val_s h' = h_val_s h
     \<and> h_has_adf h' = h_has_adf h \<and> h_non_blocking h' = h_non_blocking h"

lemma same_session_refl [simp]: "same_session h h"
  by (simp add: same_session_def)

lemma same_session_trans: "same_session h h1 \<Longrightarrow> same_session h1 h2 \<Longrightarrow> same_session h h2"
  by (simp add: same_session_def)

lemma same_session_job: "same_job h h' \<Longrightarrow> same_session h h'"
  by (simp add: same_session_def same_job_fields)

lemma same_session_updates [simp]:
  "same_session h (h'\<lparr>h_eof := a\<rparr>) = same_session h h'"
  "same_session h (h'\<lparr>h_scanning := a\<rparr>) = same_session h h'"
  "same_session h (h'\<lparr>h_locked := a\<rparr>) = same_session h h'"
  "same_session h (h'\<lparr>h_feeding := a\<rparr>) = same_session h h'"
  "same_session h (unlocked h') = same_session h h'"
  by (simp_all add: same_session_def unlocked_def)

definition bpl_of :: "pantum_handle \<Rightarrow> nat" where
  "bpl_of h = nat (p_bytes_per_line (h_params h))"

definition grows :: "pantum_handle \<Rightarrow> byte list list \<Rightarrow> pantum_handle \<Rightarrow> bool" where
  "grows h rows h' \<longleftrightarrow> same_session h h' \<and> page_ok h' \<and> unread h' = unread h @ concat rows
     \<and> h_next_row h' = h_next_row h + int (length rows) \<and> (\<forall>row \<in> set rows. length row = bpl_of h)"

lemma page_ok_updates [simp]:
  "page_ok (h\<lparr>h_eof := a\<rparr>) = page_ok h" "page_ok (h\<lparr>h_scanning := a\<rparr>) = page_ok h"
  "page_ok (h\<lparr>h_locked := a\<rparr>) = page_ok h" "page_ok (h\<lparr>h_feeding := a\<rparr>) = page_ok h"
  "page_ok (unlocked h) = page_ok h"
  by (simp_all add: page_ok_def queue_ok_def page_wf_def margins_ok_def unlocked_def)

lemma grows_updates [simp]:
  "grows h rows (h'\<lparr>h_eof := a\<rparr>) = grows h rows h'" "grows h rows (h'\<lparr>h_scanning := a\<rparr>) = grows h rows h'"
  "grows h rows (h'\<lparr>h_locked := a\<rparr>) = grows h rows h'" "grows h rows (h'\<lparr>h_feeding := a\<rparr>) = grows h rows h'"
  "grows h rows (unlocked h') = grows h rows h'"
  by (simp_all add: grows_def unread_def) (simp_all add: unlocked_def)

lemma grows_refl: "page_ok h \<Longrightarrow> grows h [] h"
  by (simp add: grows_def)

lemma grows_trans: "grows h rows h1 \<Longrightarrow> grows h1 rows' h2 \<Longrightarrow> grows h (rows @ rows') h2"
  by (auto simp: grows_def bpl_of_def same_session_def)

lemma grows_page_step:
  assumes "page_ok h" "page_step h rows h'" "h_next_row h + int (length rows) \<le> p_lines (h_params h)"
    "\<forall>row \<in> set rows. length row = bpl_of h"
  shows "grows h rows h'"
proof -
  have sj: "same_job h h'" using assms(2) by (simp add: page_step_def)
  show ?thesis
    using assms by (auto simp: grows_def page_step_def page_ok_def page_wf_same_job [OF sj] same_job_fields [OF sj]
        intro: same_session_job)
qed

lemma block_rows_length:
  assumes "page_ok h" "length dm = 16384" "0 \<le> sint avail"
  shows "\<forall>row \<in> set (block_rows dm h raw first n stride avail). length row = bpl_of h"
  using assms length_block_row [of h dm avail]
  by (auto simp: block_rows_def Let_def bpl_of_def page_ok_def)

lemma data_block_grows:
  assumes "page_ok h" "length dm = 16384" "plen \<le> PANTUM_MAX_PAYLOAD"
    "handle_data_block E dm plen h w = (st, h', w')"
  obtains rows where "grows h rows h'"
proof -
  have "unat plen < 2 ^ 31" using assms(3) by (simp add: PANTUM_MAX_PAYLOAD_def word_le_nat_alt)
  from handle_data_block_rows [OF assms(1,2) this assms(4)]
  consider "page_step h [] h'"
    | raw first n stride avail where "0 \<le> sint avail" "rows_step st h (block_rows dm h raw first n stride avail) h'"
    by blast
  then show thesis
  proof cases
    case 1
    show thesis by (rule that [OF grows_page_step [OF assms(1) 1]]) (use assms(1) in \<open>simp_all add: page_ok_def\<close>)
  next
    case 2
    let ?rows = "block_rows dm h raw first n stride avail"
    from 2(2) obtain k where k: "k \<le> length ?rows" "page_step h (take k ?rows) h'" by (rule rows_step_some)
    have "int (length ?rows) \<le> p_lines (h_params h) - h_next_row h"
      using assms(1) by (simp add: length_block_rows page_ok_def)
    with k(1) have "h_next_row h + int (length (take k ?rows)) \<le> p_lines (h_params h)" by simp
    moreover have "\<forall>row \<in> set (take k ?rows). length row = bpl_of h"
      using block_rows_length [OF assms(1,2) 2(1)] by (auto dest: in_set_takeD)
    ultimately show thesis by (rule that [OF grows_page_step [OF assms(1) k(2)]])
  qed
qed

lemma white_rows_grow:
  assumes "page_ok h" "emit_white_rows E (p_lines (h_params h)) h w = (st, h', w')"
  obtains rows where "grows h rows h'" "st = SANE_STATUS_GOOD \<longrightarrow> h_next_row h' = p_lines (h_params h)"
proof -
  obtain k where k: "page_step h (replicate k (white_row (h_params h))) h'"
     "h_next_row h' \<le> max (h_next_row h) (min (p_lines (h_params h)) (p_lines (h_params h)))"
     "st = SANE_STATUS_GOOD \<longrightarrow>
          h_next_row h' = max (h_next_row h) (min (p_lines (h_params h)) (p_lines (h_params h)))"
    using emit_white_rows_step [OF assms(2)] assms(1) by (auto simp: page_ok_def)
  have "h_next_row h + int (length (replicate k (white_row (h_params h)))) \<le> p_lines (h_params h)"
    using k(1,2) assms(1) by (simp add: page_step_def page_ok_def)
  then have "grows h (replicate k (white_row (h_params h))) h'"
    by (rule grows_page_step [OF assms(1) k(1)]) (simp add: bpl_of_def)
  with k(3) assms(1) show thesis by (intro that) (auto simp: page_ok_def)
qed

text \<open>Whatever the device sends, one turn of the pump adds whole rows, and the flags
  change together.\<close>

definition flags_kept :: "pantum_handle \<Rightarrow> pantum_handle \<Rightarrow> bool" where
  "flags_kept h h' \<longleftrightarrow> h_scanning h' = h_scanning h \<and> h_locked h' = h_locked h
     \<and> (h_feeding h \<longrightarrow> h_feeding h')"

definition flags_ended :: "pantum_handle \<Rightarrow> bool" where
  "flags_ended h' \<longleftrightarrow> \<not> h_scanning h' \<and> \<not> h_locked h' \<and> \<not> h_feeding h'"

lemma page_step_flags: "page_step h rows h' \<Longrightarrow> flags_kept h h' \<and> h_eof h' = h_eof h"
  by (auto simp: page_step_def flags_kept_def same_job_fields)

lemma data_block_flags:
  assumes "page_ok h" "length dm = 16384" "plen \<le> PANTUM_MAX_PAYLOAD"
    "handle_data_block E dm plen h w = (st, h', w')"
  shows "flags_kept h h'" "h_eof h' = h_eof h"
proof -
  have "unat plen < 2 ^ 31" using assms(3) by (simp add: PANTUM_MAX_PAYLOAD_def word_le_nat_alt)
  from handle_data_block_rows [OF assms(1,2) this assms(4)]
  obtain rows where "page_step h rows h'" by (auto simp: rows_step_def)
  from page_step_flags [OF this] show "flags_kept h h'" "h_eof h' = h_eof h" by simp_all
qed

lemma pump_frame_grows:
  assumes "page_ok h" "length dm = 16384" "pump_frame E dm dbg probe want h w = (r, h', w')"
  obtains rows where "grows h rows h'" "flags_kept h h' \<or> flags_ended h'"
    "pr_status r = SANE_STATUS_GOOD \<Longrightarrow> h_eof h' \<Longrightarrow> h_eof h \<or> h_next_row h' = p_lines (h_params h)"
    "pr_status r = SANE_STATUS_GOOD \<Longrightarrow> pr_aborted r = None \<Longrightarrow> h_scanning h \<Longrightarrow> h_scanning h' \<or> h_eof h'"
    "pr_idle r \<Longrightarrow> pr_status r = SANE_STATUS_GOOD"
    "pr_aborted r \<noteq> None \<Longrightarrow> want \<and> flags_ended h'"
  using assms(3)
proof (cases rule: pump_frame_cases)
  case same
  show thesis by (rule that [of "[]"]) (use same assms(1) in \<open>simp_all add: grows_refl flags_kept_def\<close>)
next
  case (data plen w1 w2 st)
  obtain rows where "grows h rows h'" using data_block_grows [OF assms(1,2) data(3,1)] .
  with data_block_flags [OF assms(1,2) data(3,1)] data(2) show thesis
    by (intro that) (auto simp: pumped_def flags_kept_def)
next
  case (aborted f)
  show thesis
    by (rule that [of "[]"])
       (use aborted assms(1) in \<open>auto simp: grows_refl flags_ended_def unlocked_def split: if_splits\<close>)
next
  case (job_end h1 w1 w2 st)
  obtain rows where "grows h rows h1" "st = SANE_STATUS_GOOD \<longrightarrow> h_next_row h1 = p_lines (h_params h)"
    using white_rows_grow [OF assms(1) job_end(1)] .
  with job_end show thesis
    by (intro that [of rows]) (simp_all add: flags_ended_def, simp_all add: unlocked_def pumped_def)
next
  case (page_end h1 w1 w2 st)
  obtain rows where g: "grows h rows h1" "st = SANE_STATUS_GOOD \<longrightarrow> h_next_row h1 = p_lines (h_params h)"
    using white_rows_grow [OF assms(1) page_end(1)] .
  obtain k where "page_step h (replicate k (white_row (h_params h))) h1"
    using emit_white_rows_step [OF page_end(1)] assms(1) by (auto simp: page_ok_def)
  from page_step_flags [OF this] g page_end show thesis
    by (intro that [of rows]) (simp_all add: flags_kept_def pumped_def)
qed

section \<open>The flags\<close>

text \<open>The lock is owed exactly while a job runs, and only a running job is between pages.\<close>

definition lock_ok :: "pantum_handle \<Rightarrow> bool" where
  "lock_ok h \<longleftrightarrow> h_locked h = h_scanning h \<and> (h_feeding h \<longrightarrow> h_scanning h)"

lemma flags_lock_ok:
  "lock_ok h \<Longrightarrow> h_scanning h \<Longrightarrow> flags_kept h h' \<or> flags_ended h' \<Longrightarrow> lock_ok h'"
  by (auto simp: lock_ok_def flags_kept_def flags_ended_def)

lemma flags_ended_lock_ok [simp]: "flags_ended h \<Longrightarrow> lock_ok h"
  by (auto simp: lock_ok_def flags_ended_def)

lemma unlocked_flags_ended [simp]: "flags_ended (unlocked (h\<lparr>h_scanning := False\<rparr>))"
  by (simp add: flags_ended_def unlocked_def)

text \<open>A running page: what is true between two turns of the pump.\<close>

definition page_running :: "pantum_handle \<Rightarrow> bool" where
  "page_running h \<longleftrightarrow> page_ok h \<and> lock_ok h \<and> (h_scanning h \<or> h_eof h)
     \<and> (h_eof h \<longrightarrow> h_next_row h = p_lines (h_params h))"

lemma pump_frame_running:
  assumes "page_running h" "h_scanning h" "length dm = 16384"
    "pump_frame E dm dbg probe want h w = (r, h', w')"
  obtains rows where "grows h rows h'" "lock_ok h'"
    "pr_status r = SANE_STATUS_GOOD \<Longrightarrow> pr_aborted r = None \<Longrightarrow> page_running h'"
    "pr_aborted r \<noteq> None \<Longrightarrow> want \<and> flags_ended h'" "pr_idle r \<Longrightarrow> pr_status r = SANE_STATUS_GOOD"
proof -
  from assms(1) have h: "page_ok h" "lock_ok h" "h_eof h \<longrightarrow> h_next_row h = p_lines (h_params h)"
    by (simp_all add: page_running_def)
  show thesis
  proof (rule pump_frame_grows [OF h(1) assms(3,4)])
    fix rows
    assume g: "grows h rows h'" "flags_kept h h' \<or> flags_ended h'"
      "pr_status r = SANE_STATUS_GOOD \<Longrightarrow> h_eof h' \<Longrightarrow> h_eof h \<or> h_next_row h' = p_lines (h_params h)"
      "pr_status r = SANE_STATUS_GOOD \<Longrightarrow> pr_aborted r = None \<Longrightarrow> h_scanning h \<Longrightarrow> h_scanning h' \<or> h_eof h'"
      "pr_idle r \<Longrightarrow> pr_status r = SANE_STATUS_GOOD" "pr_aborted r \<noteq> None \<Longrightarrow> want \<and> flags_ended h'"
    have lk: "lock_ok h'" by (rule flags_lock_ok [OF h(2) assms(2) g(2)])
    have ok: "page_ok h'" "h_params h' = h_params h" "h_next_row h \<le> h_next_row h'"
      using g(1) by (auto simp: grows_def same_session_def)
    then have "h_next_row h' \<le> p_lines (h_params h)" by (simp add: page_ok_def)
    with g(3,4) h(3) ok lk assms(2) have "page_running h'"
      if "pr_status r = SANE_STATUS_GOOD" "pr_aborted r = None"
      using that unfolding page_running_def by auto
    with g lk show thesis by (intro that) blast+
  qed
qed

section \<open>Waiting for the first rows\<close>

lemma await_first_rows_running:
  assumes "await_first_rows E dm dbg ab h w = Some ((st, ab'), h', w')"
    "length dm = 16384" "page_ok h" "ab = None \<Longrightarrow> page_running h" "ab \<noteq> None \<Longrightarrow> flags_ended h"
  shows "\<exists>rows. grows h rows h' \<and> lock_ok h'
    \<and> (st = SANE_STATUS_GOOD \<and> ab' = None \<longrightarrow> page_running h') \<and> (st \<noteq> SANE_STATUS_GOOD \<or> ab' \<noteq> None \<longrightarrow> flags_ended h')"
proof -
  have "length dm = 16384 \<Longrightarrow> page_ok h \<Longrightarrow>
      (ab = None \<longrightarrow> page_running h) \<Longrightarrow> (ab \<noteq> None \<longrightarrow> flags_ended h) \<Longrightarrow>
      (case y of ((st, ab'), h', w') \<Rightarrow> \<exists>rows. grows h rows h' \<and> lock_ok h'
        \<and> (st = SANE_STATUS_GOOD \<and> ab' = None \<longrightarrow> page_running h')
        \<and> (st \<noteq> SANE_STATUS_GOOD \<or> ab' \<noteq> None \<longrightarrow> flags_ended h'))"
    if "await_first_rows E dm dbg ab h w = Some y" for y
    using that
  proof (induction E dm dbg ab h w y rule: await_first_rows.raw_induct [rotated, consumes 1, case_names step])
    case (step await E dm dbg ab h w y)
    show ?case
    proof (cases "h_scanning h \<and> h_out h = [] \<and> ab = None \<and> \<not> h_eof h")
      case False
      with step.hyps have "y = ((SANE_STATUS_GOOD, ab), h, w)" by (auto split: if_splits)
      with step.prems show ?thesis
        by (auto simp: page_running_def intro!: exI [of _ "[]"] grows_refl)
    next
      case True
      obtain r h1 w1 where p: "pump_frame E dm dbg False True h w = (r, h1, w1)" by (rule prod_cases3)
      from True step.prems have run: "page_running h" "h_scanning h" by auto
      obtain rows where g: "grows h rows h1" "lock_ok h1"
        "pr_status r = SANE_STATUS_GOOD \<Longrightarrow> pr_aborted r = None \<Longrightarrow> page_running h1"
        "pr_aborted r \<noteq> None \<Longrightarrow> True \<and> flags_ended h1"
        using pump_frame_running [OF run step.prems(1) p] by metis
      have ok1: "page_ok h1" using g(1) by (simp add: grows_def)
      show ?thesis
      proof (cases "pr_status r = SANE_STATUS_GOOD")
        case False
        obtain h2 w2 where u: "unlock_device E (h1\<lparr>h_scanning := False\<rparr>) w1 = (h2, w2)" by (metis surj_pair)
        from True step.hyps p False u have "y = ((pr_status r, pr_aborted r), h2, w2)" by simp
        with unlock_device_unlocked [OF u] g(1) False show ?thesis
          by (auto intro!: exI [of _ rows])
      next
        case good: True
        with True step.hyps p have a: "await E dm dbg (pr_aborted r) h1 w1 = Some y" by simp
        from step.IH [OF a step.prems(1) ok1] good g(3,4) obtain st ab' h' w' rows' where
          y: "y = ((st, ab'), h', w')" "grows h1 rows' h'" "lock_ok h'"
          "st = SANE_STATUS_GOOD \<and> ab' = None \<longrightarrow> page_running h'"
          "st \<noteq> SANE_STATUS_GOOD \<or> ab' \<noteq> None \<longrightarrow> flags_ended h'"
          by (auto split: prod.splits)
        with grows_trans [OF g(1) y(2)] show ?thesis by auto
      qed
    qed
  qed
  from this [OF assms(1,2,3)] assms(4,5) show ?thesis by auto
qed

section \<open>Running and resuming a job\<close>

definition page_ready :: "pantum_handle \<Rightarrow> bool" where
  "page_ready h \<longleftrightarrow> page_wf h \<and> p_lines (h_params h) < 2 ^ 31"

definition fresh_page :: "pantum_handle \<Rightarrow> pantum_handle" where
  "fresh_page h = h\<lparr>h_next_row := 0, h_out := [], h_out_pos := 0, h_eof := False\<rparr>"

lemma fresh_page_ok: "page_ready h \<Longrightarrow> page_ok (fresh_page h)"
  by (auto simp: page_ready_def page_ok_def fresh_page_def queue_ok_def page_wf_def margins_ok_def params_wf_def)

lemma fresh_page_simps [simp]:
  "h_next_row (fresh_page h) = 0" "unread (fresh_page h) = []" "same_session h (fresh_page h)"
  "h_scanning (fresh_page h) = h_scanning h" "h_locked (fresh_page h) = h_locked h"
  "h_feeding (fresh_page h) = h_feeding h" "h_eof (fresh_page h) = False" "bpl_of (fresh_page h) = bpl_of h"
  by (simp_all add: fresh_page_def unread_def same_session_def bpl_of_def)

text \<open>The rows delivered so far, read and unread ones.\<close>

definition delivered :: "pantum_handle \<Rightarrow> byte list \<Rightarrow> bool" where
  "delivered h data \<longleftrightarrow> (\<exists>rows. data @ unread h = concat rows \<and> int (length rows) = h_next_row h
     \<and> (\<forall>row \<in> set rows. length row = bpl_of h))"

lemma delivered_fresh: "grows (fresh_page h) rows h' \<Longrightarrow> delivered h' []"
  by (auto simp: delivered_def grows_def same_session_def bpl_of_def fresh_page_def unread_def)

lemma run_job_running:
  assumes "run_job E dm dbg h w = Some ((st, ab), h', w')"
    "length dm = 16384" "page_ready h" "flags_ended h"
  shows "same_session h h'" "lock_ok h'" "page_ok h'"
    "st = SANE_STATUS_GOOD \<Longrightarrow> ab = None \<Longrightarrow> page_running h' \<and> delivered h' []"
    "st \<noteq> SANE_STATUS_GOOD \<or> ab \<noteq> None \<Longrightarrow> flags_ended h'"
proof -
  have ok0: "page_ok (fresh_page h)" by (rule fresh_page_ok [OF assms(3)])
  obtain st1 h1 w1 where l: "lock_device E (fresh_page h) w = (st1, h1, w1)" by (rule prod_cases3)
  note lh = lock_device_handle [OF l]
  obtain st2 present loaded w2 where c:
    "(if source_is_adf h1 then check_adf E w1 else ((SANE_STATUS_GOOD, False, False), w1)) = ((st2, present, loaded), w2)"
    by (metis surj_pair)
  obtain st3 w3 where s: "setup_job E h1 w2 = (st3, w3)" by (metis surj_pair)
  have run: "run_job E dm dbg h w =
     (let fails = (\<lambda>st h w. case unlock_device E h w of (h1, w1) \<Rightarrow> Some ((st, None), h1, w1)) in
      if st1 \<noteq> SANE_STATUS_GOOD then Some ((st1, None), h1, w1)
      else if source_is_adf h1 \<and> st2 \<noteq> SANE_STATUS_GOOD then fails st2 h1 w2
      else if source_is_adf h1 \<and> (\<not> present \<or> \<not> loaded) then
                fails (if present then SANE_STATUS_NO_DOCS else SANE_STATUS_UNSUPPORTED) h1 w2
      else if st3 \<noteq> SANE_STATUS_GOOD then fails st3 h1 w3
      else await_first_rows E dm dbg None (h1\<lparr>h_scanning := True\<rparr>) w3)"
    unfolding run_job_def Let_def fresh_page_def [symmetric] using l c s by (simp cong: if_cong split del: if_split)
  have all: "same_session h h' \<and> lock_ok h' \<and> page_ok h'
    \<and> (st = SANE_STATUS_GOOD \<and> ab = None \<longrightarrow> page_running h' \<and> delivered h' [])
    \<and> (st \<noteq> SANE_STATUS_GOOD \<or> ab \<noteq> None \<longrightarrow> flags_ended h')"
  proof -
    have stop: ?thesis if "h' = unlocked (fresh_page h)" "st \<noteq> SANE_STATUS_GOOD"
      using that assms(4) ok0 by (auto simp: flags_ended_def, simp_all add: unlocked_def lock_ok_def)
    have twice: "unlocked (fresh_page h\<lparr>h_locked := True\<rparr>) = unlocked (fresh_page h)"
      by (simp add: unlocked_def)
    consider (lock) "st1 \<noteq> SANE_STATUS_GOOD"
      | (adf) "st1 = SANE_STATUS_GOOD" "source_is_adf h1" "st2 \<noteq> SANE_STATUS_GOOD \<or> \<not> present \<or> \<not> loaded"
      | (config) "st1 = SANE_STATUS_GOOD" "\<not> (source_is_adf h1 \<and> (st2 \<noteq> SANE_STATUS_GOOD \<or> \<not> present \<or> \<not> loaded))"
          "st3 \<noteq> SANE_STATUS_GOOD"
      | (go) "st1 = SANE_STATUS_GOOD" "\<not> (source_is_adf h1 \<and> (st2 \<noteq> SANE_STATUS_GOOD \<or> \<not> present \<or> \<not> loaded))"
          "st3 = SANE_STATUS_GOOD"
      by blast
    then show ?thesis
    proof cases
      case lock
      with assms(1) run lh show ?thesis by (intro stop) auto
    next
      case adf
      with assms(1) run lh twice show ?thesis
        by (intro stop) (auto simp: Let_def split: prod.splits if_splits dest!: unlock_device_unlocked)
    next
      case config
      with assms(1) run lh twice show ?thesis
        by (intro stop) (auto simp: Let_def split: prod.splits if_splits dest!: unlock_device_unlocked)
    next
      case go
      define h2 where "h2 = fresh_page h\<lparr>h_locked := True\<rparr>\<lparr>h_scanning := True\<rparr>"
      have a: "await_first_rows E dm dbg None h2 w3 = Some ((st, ab), h', w')"
        using assms(1) unfolding run Let_def using go lh by (auto simp: h2_def split: if_splits)
      have ok2: "page_ok h2" using ok0 by (simp add: h2_def)
      have "page_running h2"
        using ok2 by (auto simp: page_running_def h2_def lock_ok_def)
      with await_first_rows_running [OF a assms(2) ok2] obtain rows where r: "grows h2 rows h'" "lock_ok h'"
        "st = SANE_STATUS_GOOD \<and> ab = None \<longrightarrow> page_running h'" "st \<noteq> SANE_STATUS_GOOD \<or> ab \<noteq> None \<longrightarrow> flags_ended h'"
        by auto
      have g: "grows (fresh_page h) rows h'" using r(1) by (simp add: grows_def h2_def same_session_def bpl_of_def unread_def)
      then have "same_session h h'" "page_ok h'"
        using same_session_trans [OF fresh_page_simps(3)] by (auto simp: grows_def)
      with r delivered_fresh [OF g] show ?thesis by simp
    qed
  qed
  then show "same_session h h'" "lock_ok h'" "page_ok h'"
    "st = SANE_STATUS_GOOD \<Longrightarrow> ab = None \<Longrightarrow> page_running h' \<and> delivered h' []"
    "st \<noteq> SANE_STATUS_GOOD \<or> ab \<noteq> None \<Longrightarrow> flags_ended h'"
    by blast+
qed

text \<open>The next page of a feeder job. Only a running job is between pages.\<close>

lemma resume_job_running:
  assumes "resume_job E dm dbg h w = Some (st, h', w')"
    "length dm = 16384" "page_ready h" "h_scanning h" "lock_ok h"
  shows "same_session h h'" "lock_ok h'" "page_ok h'" "page_running h' \<or> flags_ended h'"
    "st = SANE_STATUS_GOOD \<Longrightarrow> page_running h' \<and> delivered h' []"
proof -
  define h2 where "h2 = fresh_page h\<lparr>h_feeding := False\<rparr>"
  have eq: "h\<lparr>h_next_row := 0, h_out := [], h_out_pos := 0, h_eof := False, h_feeding := False\<rparr> = h2"
    by (simp add: h2_def fresh_page_def)
  have ok2: "page_ok h2" "page_running h2"
    using fresh_page_ok [OF assms(3)] assms(4,5) by (simp_all add: page_running_def h2_def lock_ok_def)
  obtain st0 ab h0 w0 where a: "await_first_rows E dm dbg None h2 w = Some ((st0, ab), h0, w0)" "h' = h0"
    "st = (if st0 \<noteq> SANE_STATUS_GOOD then st0
                   else (case ab of
                           Some s \<Rightarrow> (if s \<noteq> 0 then map_status s else SANE_STATUS_NO_DOCS)
                         | None \<Rightarrow> (if h_out h0 = [] then SANE_STATUS_NO_DOCS else SANE_STATUS_GOOD)))"
    using assms(1) unfolding resume_job_def Let_def eq by (auto split: option.splits)
  obtain rows where r: "grows h2 rows h'" "lock_ok h'"
        "st0 = SANE_STATUS_GOOD \<and> ab = None \<longrightarrow> page_running h'"
        "st0 \<noteq> SANE_STATUS_GOOD \<or> ab \<noteq> None \<longrightarrow> flags_ended h'"
    using await_first_rows_running [OF a(1) assms(2) ok2(1)] ok2(2) a(2) by auto
  have g: "grows (fresh_page h) rows h'" using r(1) by (simp add: grows_def h2_def same_session_def bpl_of_def unread_def)
  then show "same_session h h'" "page_ok h'"
    using same_session_trans [OF fresh_page_simps(3)] by (auto simp: grows_def)
  show "lock_ok h'" by fact
  show "page_running h' \<or> flags_ended h'" using r(3,4) by blast
  show "page_running h' \<and> delivered h' []" if "st = SANE_STATUS_GOOD"
  proof -
    have "st0 = SANE_STATUS_GOOD" "ab = None"
      using that a(3) by (auto split: if_splits option.splits)
    with r(3) delivered_fresh [OF g] show ?thesis by simp
  qed
qed

section \<open>Starting\<close>

lemma start_tries_running:
  "start_tries E dm dbg n h w = Some (st, h', w') \<Longrightarrow> length dm = 16384 \<Longrightarrow> page_ready h \<Longrightarrow> flags_ended h \<Longrightarrow>
   queue_ok h \<Longrightarrow>
   same_session h h' \<and> lock_ok h' \<and> queue_ok h' \<and> (page_running h' \<or> flags_ended h')
   \<and> (st = SANE_STATUS_GOOD \<longrightarrow> page_running h' \<and> delivered h' [])"
proof (induction n arbitrary: h w)
  case 0
  then show ?case by (auto simp: flags_ended_def lock_ok_def)
next
  case (Suc n)
  obtain st1 ab h1 w1 where r: "run_job E dm dbg h w = Some ((st1, ab), h1, w1)"
    using Suc.prems(1) by (auto split: option.splits)
  note j = run_job_running [OF r Suc.prems(2,3,4)]
  have q: "queue_ok h1" using j(3) by (simp add: page_ok_def)
  show ?case
  proof (cases "st1 = SANE_STATUS_GOOD \<and> (\<exists>s. ab = Some s \<and> (s = 0 \<or> s = 2))")
    case False
    with Suc.prems(1) r have "h' = h1" "st = SANE_STATUS_GOOD \<Longrightarrow> st1 = SANE_STATUS_GOOD \<and> ab = None"
      by (auto split: if_splits option.splits)
    with j q show ?thesis by auto
  next
    case True
    with Suc.prems(1) r have "start_tries E dm dbg n h1 (sleep_ms E 2000 w1) = Some (st, h', w')"
      by auto
    moreover have "page_ready h1"
      using j(1) Suc.prems(3) by (simp add: page_ready_def page_wf_def margins_ok_def same_session_def)
    moreover have "flags_ended h1" using j(5) True by auto
    ultimately show ?thesis
      using Suc.IH [of h1 "sleep_ms E 2000 w1"] Suc.prems(2) q same_session_trans [OF j(1)] by auto
  qed
qed

lemma options_inv_same: "h_opt h' = h_opt h \<Longrightarrow> h_val_w h' = h_val_w h \<Longrightarrow> h_val_s h' = h_val_s h \<Longrightarrow>
    h_has_adf h' = h_has_adf h \<Longrightarrow> options_inv h' = options_inv h"
proof -
  assume eq: "h_opt h' = h_opt h" "h_val_w h' = h_val_w h" "h_val_s h' = h_val_s h" "h_has_adf h' = h_has_adf h"
  have "mode_is h' = mode_is h" "source_is_adf h' = source_is_adf h"
    using eq(3) by (simp_all add: fun_eq_iff mode_is_def source_is_adf_def source_code_def)
  then have "expected_descriptor h' x = expected_descriptor h x" for x
    by (simp only: expected_descriptor_def eq(4))
  then have "expected_descriptor h' = expected_descriptor h" by (rule ext)
  with eq show "options_inv h' = options_inv h" by (simp add: options_inv_def)
qed

lemma options_inv_session: "same_session h h' \<Longrightarrow> options_inv h' = options_inv h"
  by (rule options_inv_same) (simp_all add: same_session_def)

lemma compute_parameters_same: "h_val_w h' = h_val_w h \<Longrightarrow> h_val_s h' = h_val_s h \<Longrightarrow>
    compute_parameters h' = compute_parameters h"
proof -
  assume eq: "h_val_w h' = h_val_w h" "h_val_s h' = h_val_s h"
  have e: "mode_is h' = mode_is h" "source_is_adf h' = source_is_adf h"
    using eq(2) by (simp_all add: fun_eq_iff mode_is_def source_is_adf_def source_code_def)
  then have "effective_resolution h' = effective_resolution h" "compute_window h' = compute_window h"
    by (simp_all only: effective_resolution_def compute_window_def eq)
  with e show "compute_parameters h' = compute_parameters h"
    by (simp only: compute_parameters_def)
qed

lemma set_margins_fields:
  "h_params (set_margins h) = h_params h" "h_opt (set_margins h) = h_opt h" "h_val_w (set_margins h) = h_val_w h"
  "h_val_s (set_margins h) = h_val_s h" "h_has_adf (set_margins h) = h_has_adf h"
  "h_scanning (set_margins h) = h_scanning h" "h_locked (set_margins h) = h_locked h"
  "h_feeding (set_margins h) = h_feeding h" "h_cancelled (set_margins h) = h_cancelled h"
  "h_out (set_margins h) = h_out h" "h_out_pos (set_margins h) = h_out_pos h"
  "h_halftone (set_margins h) = h_halftone h" "h_threshold (set_margins h) = h_threshold h"
  "h_gamma (set_margins h) = h_gamma h"
  by (auto simp: set_margins_def Let_def split: prod.splits)

lemma set_margins_ok:
  assumes "options_inv h"
  shows "margins_ok (set_margins h)"
proof -
  have "0 \<le> effective_resolution h" using effective_resolution_range(1) [OF assms] by auto
  then have "0 \<le> effective_resolution h * k sdiv 254" if "0 \<le> k" for k
    using that by (simp add: sdiv_nonneg pos_imp_zdiv_nonneg_iff)
  then show ?thesis by (auto simp: set_margins_def margins_ok_def Let_def split: prod.splits)
qed

text \<open>The mask is a full mask whether it was built or not.\<close>

definition mask_ok :: "byte list option \<Rightarrow> bool" where
  "mask_ok dmask \<longleftrightarrow> length (mask_bytes dmask) = 16384"

lemma dither_thin_length: "length (snd (dither_thin F k n s rank)) = length rank"
  by (induction n arbitrary: s rank) (auto simp: Let_def)

lemma dither_fill_length: "length (snd (dither_fill F k is s rank)) = length rank"
  by (induction "is" arbitrary: s rank) (auto simp: Let_def)

lemma dither_ranks_length: "length (dither_ranks F k n s) = DITHER_CELLS"
  using dither_thin_length [of F k n s "replicate DITHER_CELLS 0"]
  by (auto simp: dither_ranks_def Let_def dither_fill_length split: prod.splits)

lemma build_dither_mask_ok:
  assumes "build_dither_mask F E dmask w = Some ((st, dmask'), w')" "mask_ok dmask"
  shows "mask_ok dmask'"
  using assms
  by (auto simp: build_dither_mask_def mask_ok_def mask_bytes_def Let_def spread_ranks_def dither_ranks_length
      DITHER_CELLS_def DITHER_SIZE_def split: option.splits prod.splits if_splits)

section \<open>The operations of the interface\<close>

definition session_ok :: "pantum_handle \<Rightarrow> bool" where
  "session_ok h \<longleftrightarrow> options_inv h \<and> lock_ok h \<and> queue_ok h \<and> (h_scanning h \<longrightarrow> page_running h)"

lemma page_running_queue: "page_running h \<Longrightarrow> queue_ok h \<and> lock_ok h"
  by (simp add: page_running_def page_ok_def)

lemma end_scan_ok:
  assumes "end_scan E h w = (h', w')"
  shows "flags_ended h'" "same_session h h'" "queue_ok h' = queue_ok h"
  using end_scan_unlocked [OF assms] by (simp_all add: unlocked_def same_session_def queue_ok_def flags_ended_def)

lemma prepare_job_fields:
  "h_params (prepare_job h) = compute_parameters h" "h_cancelled (prepare_job h) = False"
  "h_opt (prepare_job h) = h_opt h" "h_val_w (prepare_job h) = h_val_w h" "h_val_s (prepare_job h) = h_val_s h"
  "h_has_adf (prepare_job h) = h_has_adf h" "h_scanning (prepare_job h) = h_scanning h"
  "h_locked (prepare_job h) = h_locked h" "h_feeding (prepare_job h) = h_feeding h"
  "h_out (prepare_job h) = h_out h" "h_out_pos (prepare_job h) = h_out_pos h"
  by (simp_all add: prepare_job_def)

text \<open>The handle a new job runs with.\<close>

definition job_handle :: "pantum_handle \<Rightarrow> pantum_handle" where
  "job_handle h =
     (let h = prepare_job h
      in set_margins (h\<lparr>h_gamma := build_gamma (p_format (h_params h) = SANE_FRAME_RGB)\<rparr>))"

lemma job_handle_ok:
  assumes "session_ok h" "\<not> h_scanning h"
  shows "options_inv (job_handle h)" "queue_ok (job_handle h)" "flags_ended (job_handle h)"
    "\<not> h_cancelled (job_handle h)" "h_params (job_handle h) = compute_parameters h" "page_ready (job_handle h)"
proof -
  define h2 where "h2 = prepare_job h"
  have opts: "options_inv h" "queue_ok h" "flags_ended h"
    using assms by (auto simp: session_ok_def flags_ended_def lock_ok_def)
  have h2: "options_inv h2" "queue_ok h2" "flags_ended h2" "\<not> h_cancelled h2"
    using opts by (simp_all add: h2_def options_inv_same [OF prepare_job_fields(3,4,5,6)]
        prepare_job_fields queue_ok_def flags_ended_def)
  have opts3: "options_inv (h2\<lparr>h_gamma := g\<rparr>)" for g
    using h2(1) by (simp add: options_inv_same [of "h2\<lparr>h_gamma := g\<rparr>" h2])
  have j: "job_handle h = set_margins (h2\<lparr>h_gamma := build_gamma (p_format (h_params h2) = SANE_FRAME_RGB)\<rparr>)"
    by (simp add: job_handle_def h2_def Let_def)
  show h3: "options_inv (job_handle h)" "queue_ok (job_handle h)" "flags_ended (job_handle h)"
    "\<not> h_cancelled (job_handle h)" "h_params (job_handle h) = compute_parameters h"
    using h2 opts3 unfolding j
    by (simp_all add: options_inv_same [OF set_margins_fields(2,3,4,5)] set_margins_fields queue_ok_def
        flags_ended_def) (simp add: h2_def prepare_job_fields)
  have "margins_ok (job_handle h)" using set_margins_ok [OF opts3] by (simp add: j)
  then show "page_ready (job_handle h)"
    using h3(5) compute_parameters_wf [of h] compute_parameters_size [OF opts(1)]
    by (simp add: page_ready_def page_wf_def)
qed

lemma start_new_job_ok:
  assumes "start_new_job F E dbg dmask h w = Some ((st, dmask'), h', w')" "session_ok h" "mask_ok dmask"
    "\<not> h_scanning h"
  shows "session_ok h'" "mask_ok dmask'"
    "st = SANE_STATUS_GOOD \<Longrightarrow> page_running h' \<and> delivered h' [] \<and> \<not> h_cancelled h'"
proof -
  define h2 where "h2 = prepare_job h"
  have h2: "options_inv h2" "queue_ok h2" "flags_ended h2"
    using assms(2,4) by (auto simp: h2_def options_inv_same [OF prepare_job_fields(3,4,5,6)]
        prepare_job_fields queue_ok_def flags_ended_def session_ok_def lock_ok_def)
  obtain st1 dmask1 w1 where b: "(if h_halftone h2 then build_dither_mask F E dmask w
      else Some ((SANE_STATUS_GOOD, dmask), w)) = Some ((st1, dmask1), w1)"
    using assms(1) unfolding start_new_job_def Let_def h2_def [symmetric] by (auto split: option.splits)
  have m: "mask_ok dmask1"
    using b assms(3) by (auto dest: build_dither_mask_ok split: if_splits)
  define h3 where "h3 = job_handle h"
  have run: "if st1 \<noteq> SANE_STATUS_GOOD then st = st1 \<and> dmask' = dmask1 \<and> h' = h2
    else start_tries E (mask_bytes dmask1) dbg 4 h3 w1 = Some (st, h', w') \<and> dmask' = dmask1"
    using assms(1) unfolding start_new_job_def Let_def h2_def [symmetric] b
    by (auto simp: h3_def job_handle_def h2_def Let_def split: option.splits)
  note h3 = job_handle_ok [OF assms(2,4), folded h3_def]
  have all: "session_ok h' \<and> (st = SANE_STATUS_GOOD \<longrightarrow> page_running h' \<and> delivered h' [] \<and> \<not> h_cancelled h')"
  proof (cases "st1 = SANE_STATUS_GOOD")
    case False
    with run h2 show ?thesis by (auto simp: session_ok_def flags_ended_def)
  next
    case True
    with run have t: "start_tries E (mask_bytes dmask1) dbg 4 h3 w1 = Some (st, h', w')" by simp
    have r: "same_session h3 h'" "lock_ok h'" "queue_ok h'" "page_running h' \<or> flags_ended h'"
      "st = SANE_STATUS_GOOD \<longrightarrow> page_running h' \<and> delivered h' []"
      using start_tries_running [OF t _ h3(6,3,2)] m by (auto simp: mask_ok_def)
    have "h_cancelled h' = h_cancelled h3" using r(1) by (simp add: same_session_def)
    with r(2-5) options_inv_session [OF r(1)] h3(1,4) show ?thesis
      by (auto simp: session_ok_def flags_ended_def)
  qed
  then show "session_ok h'" "st = SANE_STATUS_GOOD \<Longrightarrow> page_running h' \<and> delivered h' [] \<and> \<not> h_cancelled h'"
    by blast+
  show "mask_ok dmask'" using run m by (auto split: if_splits)
qed

lemma sane_start_ok:
  assumes "sane_start F E dbg dmask h w = Some ((st, dmask'), h', w')" "session_ok h" "mask_ok dmask"
  shows "session_ok h'" "mask_ok dmask'"
    "st = SANE_STATUS_GOOD \<Longrightarrow> page_running h' \<and> delivered h' [] \<and> \<not> h_cancelled h'"
proof -
  obtain h0 w0 where c: "(if h_cancelled h then end_scan E h w else (h, w)) = (h0, w0)" by (metis surj_pair)
  have h0: "options_inv h0" "lock_ok h0" "queue_ok h0" "h_scanning h0 \<longrightarrow> page_running h0"
    "h_cancelled h0 \<longrightarrow> flags_ended h0"
    using c assms(2) end_scan_ok [of E h w h0 w0]
    by (auto simp: session_ok_def options_inv_session flags_ended_def split: if_splits)
  have dm: "length (mask_bytes dmask) = 16384" using assms(3) by (simp add: mask_ok_def)
  note start = assms(1) [unfolded sane_start_def c prod.case]
  have all: "session_ok h' \<and> mask_ok dmask' \<and>
    (st = SANE_STATUS_GOOD \<longrightarrow> page_running h' \<and> delivered h' [] \<and> \<not> h_cancelled h')"
  proof (cases "h_feeding h0")
    case True
    then have sc: "h_scanning h0" using h0(2) by (simp add: lock_ok_def)
    with h0(4) have ready: "page_ready h0" by (simp add: page_running_def page_ok_def page_ready_def)
    from True start have r: "resume_job E (mask_bytes dmask) dbg h0 w0 = Some (st, h', w')" "dmask' = dmask"
      by (auto split: option.splits)
    note j = resume_job_running [OF r(1) dm ready sc h0(2)]
    have "\<not> h_cancelled h'"
      using j(1) h0(5) sc by (auto simp: same_session_def flags_ended_def)
    with j h0(1) r(2) assms(3) options_inv_session [OF j(1)] show ?thesis
      by (auto simp: session_ok_def flags_ended_def page_ok_def)
  next
    case False
    show ?thesis
    proof (cases "h_scanning h0")
      case True
      with False start have "st = SANE_STATUS_DEVICE_BUSY" "h' = h0" "dmask' = dmask" by auto
      with h0 assms(3) show ?thesis by (simp add: session_ok_def)
    next
      case idle: False
      with False start have n: "start_new_job F E dbg dmask h0 w0 = Some ((st, dmask'), h', w')" by simp
      have "session_ok h0" using h0 by (simp add: session_ok_def)
      from start_new_job_ok [OF n this assms(3) idle] show ?thesis by simp
    qed
  qed
  then show "session_ok h'" "mask_ok dmask'"
    "st = SANE_STATUS_GOOD \<Longrightarrow> page_running h' \<and> delivered h' [] \<and> \<not> h_cancelled h'"
    by blast+
qed


section \<open>Reading\<close>

lemma read_pump_stopped:
  "\<not> h_scanning h \<Longrightarrow> read_pump E dm dbg h w =
    Some (None, if h_out_pos h = length (h_out h) \<and> \<not> h_eof h then h\<lparr>h_eof := True\<rparr> else h, w)"
  by (subst read_pump.simps) simp

text \<open>\<open>None\<close>: there is something to hand out, or the page is complete.\<close>

lemma read_pump_running:
  assumes "read_pump E dm dbg h w = Some (early, h', w')" "length dm = 16384" "page_running h"
  shows "\<exists>rows. grows h rows h' \<and> lock_ok h'
    \<and> (early = None \<or> early = Some SANE_STATUS_GOOD \<longrightarrow> page_running h')
    \<and> (early \<noteq> None \<and> early \<noteq> Some SANE_STATUS_GOOD \<longrightarrow> flags_ended h')
    \<and> (early = None \<longrightarrow> unread h' \<noteq> [] \<or> h_eof h')"
proof -
  have "length dm = 16384 \<Longrightarrow> page_running h \<Longrightarrow>
      (case y of (early, h', w') \<Rightarrow> \<exists>rows. grows h rows h' \<and> lock_ok h'
        \<and> (early = None \<or> early = Some SANE_STATUS_GOOD \<longrightarrow> page_running h')
        \<and> (early \<noteq> None \<and> early \<noteq> Some SANE_STATUS_GOOD \<longrightarrow> flags_ended h')
        \<and> (early = None \<longrightarrow> unread h' \<noteq> [] \<or> h_eof h'))"
    if "read_pump E dm dbg h w = Some y" for y
    using that
  proof (induction E dm dbg h w y rule: read_pump.raw_induct [rotated, consumes 1, case_names step])
    case (step pump E dm dbg h w y)
    have ok: "page_ok h" using step.prems(2) by (simp add: page_running_def)
    show ?case
    proof (cases "h_out_pos h = length (h_out h) \<and> \<not> h_eof h")
      case False
      with step.hyps have "y = (None, h, w)" by (auto split: if_splits)
      moreover have "unread h \<noteq> [] \<or> h_eof h"
        using False ok by (auto simp: unread_def page_ok_def queue_ok_def)
      ultimately show ?thesis
        using step.prems(2) ok by (auto simp: page_running_def intro!: exI [of _ "[]"] grows_refl)
    next
      case True
      then have sc: "h_scanning h" using step.prems(2) by (simp add: page_running_def)
      obtain r h1 w1 where p: "pump_frame E dm dbg (h_non_blocking h) False h w = (r, h1, w1)" by (rule prod_cases3)
      show ?thesis
      proof (rule pump_frame_running [OF step.prems(2) sc step.prems(1) p])
        fix rows
        assume g: "grows h rows h1" "lock_ok h1"
          "pr_status r = SANE_STATUS_GOOD \<Longrightarrow> pr_aborted r = None \<Longrightarrow> page_running h1"
          "pr_aborted r \<noteq> None \<Longrightarrow> False \<and> flags_ended h1"
        show ?thesis
        proof (cases "pr_status r = SANE_STATUS_GOOD")
          case False
          obtain h2 w2 where u: "unlock_device E (h1\<lparr>h_scanning := False\<rparr>) w1 = (h2, w2)" by (metis surj_pair)
          from True sc step.hyps p False u have "y = (Some (pr_status r), h2, w2)" by simp
          with unlock_device_unlocked [OF u] g(1) False show ?thesis
            by (auto intro!: exI [of _ rows])
        next
          case good: True
          with g(3,4) have run: "page_running h1" by auto
          show ?thesis
          proof (cases "pr_idle r")
            case idle: True
            with True sc step.hyps p good have "y = (Some SANE_STATUS_GOOD, h1, w1)" by simp
            with g run show ?thesis by (auto intro!: exI [of _ rows])
          next
            case False
            with True sc step.hyps p good have a: "pump E dm dbg h1 w1 = Some y" by simp
            from step.IH [OF a step.prems(1) run] obtain early h' w' rows' where
              y: "y = (early, h', w')" "grows h1 rows' h'" "lock_ok h'"
              "early = None \<or> early = Some SANE_STATUS_GOOD \<longrightarrow> page_running h'"
              "early \<noteq> None \<and> early \<noteq> Some SANE_STATUS_GOOD \<longrightarrow> flags_ended h'"
              "early = None \<longrightarrow> unread h' \<noteq> [] \<or> h_eof h'"
              by (auto split: prod.splits)
            with grows_trans [OF g(1) y(2)] show ?thesis by auto
          qed
        qed
      qed
    qed
  qed
  from this [OF assms(1,2,3)] show ?thesis by simp
qed

lemma delivered_grows:
  "delivered h data \<Longrightarrow> grows h rows h' \<Longrightarrow> delivered h' data"
proof -
  assume d: "delivered h data" and g: "grows h rows h'"
  from d obtain rs where rs: "data @ unread h = concat rs" "int (length rs) = h_next_row h"
    "\<forall>row \<in> set rs. length row = bpl_of h"
    by (auto simp: delivered_def)
  have b: "bpl_of h' = bpl_of h" using g by (simp add: grows_def same_session_def bpl_of_def)
  have "data @ unread h' = concat (rs @ rows)" "int (length (rs @ rows)) = h_next_row h'"
    "\<forall>row \<in> set (rs @ rows). length row = bpl_of h'"
    using rs g b by (auto simp: grows_def simp flip: append_assoc)
  then show "delivered h' data" unfolding delivered_def by blast
qed

text \<open>Taking bytes out of the queue.\<close>

lemma take_out:
  assumes "page_running h" "n \<le> length (h_out h) - h_out_pos h"
  defines "h' \<equiv> h\<lparr>h_out_pos := h_out_pos h + n\<rparr>"
  shows "page_running h'" "unread h = take n (unread h) @ unread h'"
    "delivered h data \<Longrightarrow> delivered h' (data @ take n (unread h))"
proof -
  have u: "unread h = take n (unread h) @ unread h'"
    using append_take_drop_id [of n "drop (h_out_pos h) (h_out h)"]
    by (simp add: h'_def unread_def add.commute)
  then show "unread h = take n (unread h) @ unread h'" .
  show "page_running h'"
    using assms(1,2) unfolding h'_def page_running_def
    by (auto simp: page_ok_def queue_ok_def page_wf_def margins_ok_def lock_ok_def)
  show "delivered h' (data @ take n (unread h))" if "delivered h data"
    using that u unfolding delivered_def
    by (simp add: h'_def bpl_of_def)
qed

text \<open>No error of the link or the device is reported as the end of the page.\<close>

lemma in_status: "usb_read E n t w = ((st, bs), w') \<Longrightarrow> st \<noteq> SANE_STATUS_EOF"
proof -
  have "usb_read_loop E n t got w = ((st, bs), w') \<Longrightarrow> st \<noteq> SANE_STATUS_EOF" for got
  proof (induction E n t got w rule: usb_read_loop.induct)
    case (1 E len t got w)
    obtain rc dat w1 where i: "in_tries E 3 (len - length got) t (LIBUSB_ERROR_OTHER, []) w = ((rc, dat), w1)"
      by (metis surj_pair)
    show ?case
    proof (cases "length got < len \<and> rc = LIBUSB_SUCCESS \<and> dat \<noteq> []")
      case False
      with "1.prems" i show ?thesis
        by (auto simp: usb_read_loop.simps [of E len t got w] split: if_splits)
    next
      case True
      with "1.prems" i have "usb_read_loop E len t (got @ dat) w1 = ((st, bs), w')"
        by (simp add: usb_read_loop.simps [of E len t got w])
      from "1.IH" [OF _ i [symmetric] refl _ this] True show ?thesis by simp
    qed
  qed
  then show "usb_read E n t w = ((st, bs), w') \<Longrightarrow> st \<noteq> SANE_STATUS_EOF" by (simp add: usb_read_def)
qed

lemma drain_status: "drain_payload E n t w = (st, w') \<Longrightarrow> st \<noteq> SANE_STATUS_EOF"
proof (induction E n t w rule: drain_payload.induct)
  case (1 E n t w)
  obtain st1 bs w1 where u: "usb_read E (if 512 < n then 512 else n) t w = ((st1, bs), w1)" by (metis surj_pair)
  show ?case
  proof (cases "n \<noteq> 0 \<and> st1 = SANE_STATUS_GOOD")
    case False
    with "1.prems" u in_status [OF u] show ?thesis
      by (auto simp: drain_payload.simps [of E n t w] Let_def split: if_splits)
  next
    case True
    with "1.prems" u have "drain_payload E (n - (if 512 < n then 512 else n)) t w1 = (st, w')"
      by (simp add: drain_payload.simps [of E n t w] Let_def split del: if_split)
    from "1.IH" [OF _ refl u [symmetric] refl _ this] True show ?thesis by simp
  qed
qed

lemma out_reserve_status: "out_reserve E n h w = (st, h', w') \<Longrightarrow> st \<in> {SANE_STATUS_GOOD, SANE_STATUS_NO_MEM}"
  by (auto simp: out_reserve_def Let_def split: if_splits prod.splits)

lemma emit_white_rows_status:
  "emit_white_rows E until h w = (st, h', w') \<Longrightarrow> st \<in> {SANE_STATUS_GOOD, SANE_STATUS_NO_MEM}"
proof (induction E until h w rule: emit_white_rows.induct)
  case (1 E until h w)
  obtain st1 h1 w1 where r: "out_reserve E (nat (p_bytes_per_line (h_params h))) h w = (st1, h1, w1)"
    by (rule prod_cases3)
  show ?case
  proof (cases "h_next_row h < until \<and> h_next_row h < p_lines (h_params h) \<and> st1 = SANE_STATUS_GOOD")
    case False
    with "1.prems" r out_reserve_status [OF r] show ?thesis
      by (auto simp: emit_white_rows.simps [of E until h w] Let_def split: if_splits)
  next
    case True
    with "1.prems" r have "emit_white_rows E until (out_put (white_row (h_params h1)) h1
        \<lparr>h_next_row := h_next_row (out_put (white_row (h_params h1)) h1) + 1\<rparr>) w1 = (st, h', w')"
      by (simp add: emit_white_rows.simps [of E until h w] Let_def)
    from "1.IH" [OF _ r [symmetric] refl _ refl this] True show ?thesis by simp
  qed
qed

lemma data_rows_status:
  "data_rows E dm first stride avail is h w = (st, h', w') \<Longrightarrow> st \<in> {SANE_STATUS_GOOD, SANE_STATUS_NO_MEM}"
  by (induction E dm first stride avail "is" h w rule: data_rows.induct)
     (auto simp: Let_def split: if_splits prod.splits dest: out_reserve_status)

lemma handle_data_block_status: "handle_data_block E dm plen h w = (st, h', w') \<Longrightarrow> st \<noteq> SANE_STATUS_EOF"
  by (auto simp: handle_data_block_def store_block_def Let_def split: if_splits prod.splits
      dest: in_status emit_white_rows_status data_rows_status)

lemma recv_frame_status: "recv_frame E t probe w = (Recv_Err st, w') \<Longrightarrow> st \<noteq> SANE_STATUS_EOF"
  by (auto simp: recv_frame_def recv_rest_def parse_header_def Let_def split: if_splits prod.splits dest: in_status)

lemma pump_frame_status:
  assumes "pump_frame E dm dbg probe want h w = (r, h', w')"
  shows "pr_status r \<noteq> SANE_STATUS_EOF"
  using assms
  by (auto simp: pump_frame_def pumped_def log_settings_echo_def map_status_def
      split: if_splits prod.splits recv_result.splits
      dest: recv_frame_status handle_data_block_status emit_white_rows_status drain_status)

lemma read_pump_not_EOF: "read_pump E dm dbg h w = Some (Some st, h', w') \<Longrightarrow> st \<noteq> SANE_STATUS_EOF"
proof -
  have "fst y \<noteq> Some SANE_STATUS_EOF" if "read_pump E dm dbg h w = Some y" for y
    using that
    by (induction E dm dbg h w y rule: read_pump.raw_induct [rotated, consumes 1])
       (auto split: if_splits prod.splits dest: pump_frame_status)
  from this [of "(Some st, h', w')"] show "read_pump E dm dbg h w = Some (Some st, h', w') \<Longrightarrow> st \<noteq> SANE_STATUS_EOF"
    by simp
qed

lemma sane_read_cases:
  assumes "sane_read E dbg dmask n h w = Some ((st, data), h', w')"
  obtains (invalid) "h' = h" "st = SANE_STATUS_INVAL" "data = []"
  | (cancelled) h1 where "h_cancelled h" "end_scan E h w = (h1, w')"
      "h' = h1\<lparr>h_out := [], h_out_pos := 0, h_eof := True\<rparr>" "st = SANE_STATUS_CANCELLED" "data = []"
  | (early) "\<not> h_cancelled h" "read_pump E (mask_bytes dmask) dbg h w = Some (Some st, h', w')" "data = []"
  | (eof) "\<not> h_cancelled h" "read_pump E (mask_bytes dmask) dbg h w = Some (None, h', w')"
      "length (h_out h') - h_out_pos h' = 0" "st = SANE_STATUS_EOF" "data = []"
  | (some) h1 k where "\<not> h_cancelled h" "read_pump E (mask_bytes dmask) dbg h w = Some (None, h1, w')"
      "0 < k" "k \<le> length (h_out h1) - h_out_pos h1" "int k \<le> n" "st = SANE_STATUS_GOOD"
      "data = take k (unread h1)" "h' = h1\<lparr>h_out_pos := h_out_pos h1 + k\<rparr>"
proof -
  consider "n \<le> 0" | "0 < n" "h_cancelled h" | "0 < n" "\<not> h_cancelled h" by linarith
  then show thesis
  proof cases
    case 1
    with assms show ?thesis by (intro invalid) (auto simp: sane_read_def)
  next
    case 2
    obtain h1 w1 where e: "end_scan E h w = (h1, w1)" by (metis surj_pair)
    with 2 assms show ?thesis by (intro cancelled [of h1]) (auto simp: sane_read_def)
  next
    case 3
    obtain e h1 w1 where p: "read_pump E (mask_bytes dmask) dbg h w = Some (e, h1, w1)"
      using assms 3 by (auto simp: sane_read_def split: option.splits)
    show ?thesis
    proof (cases e)
      case (Some s)
      with 3 assms p show ?thesis by (intro early) (auto simp: sane_read_def)
    next
      case None
      define k where "k = (if nat n < length (h_out h1) - h_out_pos h1 then nat n else length (h_out h1) - h_out_pos h1)"
      show ?thesis
      proof (cases "length (h_out h1) - h_out_pos h1 = 0")
        case True
        with None 3 assms p show ?thesis by (intro eof) (auto simp: sane_read_def)
      next
        case False
        with None 3 assms p show ?thesis
          by (intro some [of h1 k]) (auto simp: sane_read_def Let_def k_def unread_def)
      qed
    qed
  qed
qed

lemma sane_read_ok:
  assumes "sane_read E dbg dmask n h w = Some ((st, data), h', w')" "session_ok h" "mask_ok dmask"
  shows "session_ok h'"
    "page_running h \<Longrightarrow> st = SANE_STATUS_GOOD \<Longrightarrow> delivered h d \<Longrightarrow>
       page_running h' \<and> \<not> h_cancelled h' \<and> delivered h' (d @ data) \<and> h_params h' = h_params h"
    "page_running h \<Longrightarrow> st = SANE_STATUS_EOF \<Longrightarrow> delivered h d \<Longrightarrow>
       delivered h' d \<and> unread h' = [] \<and> h_next_row h' = p_lines (h_params h') \<and> h_params h' = h_params h"
proof -
  have dm: "length (mask_bytes dmask) = 16384" using assms(3) by (simp add: mask_ok_def)
  have pump: "session_ok h1 \<and> (early = None \<longrightarrow> page_running h \<longrightarrow> page_running h1)
      \<and> (h_cancelled h1 = h_cancelled h) \<and> (h_params h1 = h_params h)
      \<and> (page_running h \<longrightarrow> delivered h d \<longrightarrow> delivered h1 d)
      \<and> (early = Some SANE_STATUS_GOOD \<longrightarrow> page_running h \<longrightarrow> page_running h1)
      \<and> (page_running h \<longrightarrow> early = None \<longrightarrow> unread h1 \<noteq> [] \<or> h_eof h1)"
    if p: "read_pump E (mask_bytes dmask) dbg h w = Some (early, h1, w1)" for early h1 w1
  proof (cases "page_running h")
    case True
    obtain rows where g: "grows h rows h1" "lock_ok h1"
      "early = None \<or> early = Some SANE_STATUS_GOOD \<longrightarrow> page_running h1"
      "early \<noteq> None \<and> early \<noteq> Some SANE_STATUS_GOOD \<longrightarrow> flags_ended h1"
      "early = None \<longrightarrow> unread h1 \<noteq> [] \<or> h_eof h1"
      using read_pump_running [OF p dm True] by auto
    from g(1) have s: "same_session h h1" "queue_ok h1" by (auto simp: grows_def page_ok_def)
    have "session_ok h1"
      using assms(2) options_inv_session [OF s(1)] s(2) g by (auto simp: session_ok_def flags_ended_def)
    moreover have "h_cancelled h1 = h_cancelled h" "h_params h1 = h_params h"
      using s(1) by (simp_all add: same_session_def)
    ultimately show ?thesis using g delivered_grows [OF _ g(1)] by auto
  next
    case False
    then have "\<not> h_scanning h" using assms(2) by (auto simp: session_ok_def)
    from p [unfolded read_pump_stopped [OF this]] have e: "early = None"
      "h1 = (if h_out_pos h = length (h_out h) \<and> \<not> h_eof h then h\<lparr>h_eof := True\<rparr> else h)"
      by auto
    have "options_inv (h\<lparr>h_eof := True\<rparr>) = options_inv h" by (rule options_inv_same) simp_all
    with e False assms(2) \<open>\<not> h_scanning h\<close> show ?thesis
      by (auto simp: session_ok_def lock_ok_def queue_ok_def)
  qed
  have taken: "session_ok (h1\<lparr>h_out_pos := h_out_pos h1 + k\<rparr>)"
    if "session_ok h1" "k \<le> length (h_out h1) - h_out_pos h1" for h1 k
  proof -
    have "options_inv (h1\<lparr>h_out_pos := h_out_pos h1 + k\<rparr>) = options_inv h1"
      by (rule options_inv_same) simp_all
    with that take_out(1) [OF _ that(2)] show ?thesis
      by (auto simp: session_ok_def lock_ok_def queue_ok_def)
  qed
  have all: "session_ok h' \<and> (page_running h \<and> delivered h d \<longrightarrow>
      (st = SANE_STATUS_GOOD \<longrightarrow> page_running h' \<and> \<not> h_cancelled h' \<and> delivered h' (d @ data) \<and> h_params h' = h_params h)
      \<and> (st = SANE_STATUS_EOF \<longrightarrow> delivered h' d \<and> unread h' = [] \<and> h_next_row h' = p_lines (h_params h') \<and> h_params h' = h_params h))"
    using assms(1)
  proof (cases rule: sane_read_cases)
    case invalid
    with assms(2) show ?thesis by simp
  next
    case (cancelled h1)
    note e = end_scan_ok [OF cancelled(2)]
    have "options_inv h' = options_inv h1" unfolding cancelled(3) by (rule options_inv_same) simp_all
    then have "options_inv h'" using assms(2) options_inv_session [OF e(2)] by (simp add: session_ok_def)
    with e cancelled show ?thesis
      by (auto simp: session_ok_def flags_ended_def lock_ok_def queue_ok_def)
  next
    case early
    from pump [OF early(2)] early read_pump_not_EOF [OF early(2)] show ?thesis by auto
  next
    case eof
    from pump [OF eof(2)] eof show ?thesis
      by (auto simp: unread_def page_running_def)
  next
    case (some h1 k)
    have t: "page_running h1 \<Longrightarrow> page_running h'" "page_running h1 \<Longrightarrow> delivered h1 d \<Longrightarrow> delivered h' (d @ data)"
      using take_out(1) [OF _ some(4)] take_out(3) [OF _ some(4), of d] by (simp_all add: some)
    have "h_cancelled h' = h_cancelled h1" "h_params h' = h_params h1" "session_ok h1 \<Longrightarrow> session_ok h'"
      using taken [OF _ some(4)] by (simp_all add: some)
    with pump [OF some(2)] some(1,6) t show ?thesis by auto
  qed
  then show "session_ok h'"
    "page_running h \<Longrightarrow> st = SANE_STATUS_GOOD \<Longrightarrow> delivered h d \<Longrightarrow>
       page_running h' \<and> \<not> h_cancelled h' \<and> delivered h' (d @ data) \<and> h_params h' = h_params h"
    "page_running h \<Longrightarrow> st = SANE_STATUS_EOF \<Longrightarrow> delivered h d \<Longrightarrow>
       delivered h' d \<and> unread h' = [] \<and> h_next_row h' = p_lines (h_params h') \<and> h_params h' = h_params h"
    by blast+
qed

end
