(* ===== verification/Job_Wire.thy ===== *)
theory Job_Wire
  imports Session_Laws
begin

text \<open>
  A session as it is seen on the wire: the requests that leave the host and the settings
  they carry, the frames the pump takes off the stream, the waits that end because the
  device has only so much to say, and the conversation with a device that answers.
\<close>

unbundle bit_operations_syntax

section \<open>What leaves the host\<close>

text \<open>Reading and waiting send nothing.\<close>

definition in_silent :: "'w env \<Rightarrow> ('w \<Rightarrow> byte list) \<Rightarrow> bool" where
  "in_silent E sent \<longleftrightarrow> (\<forall>n t w. sent (snd (bulk_in E n t w)) = sent w)"

lemma in_silentD: "in_silent E sent \<Longrightarrow> bulk_in E n t w = (r, w') \<Longrightarrow> sent w' = sent w"
  unfolding in_silent_def by (metis snd_conv)

definition request :: "u32 \<Rightarrow> byte list \<Rightarrow> byte list" where
  "request cmd payload = header_bytes \<lparr>f_cmd = cmd, f_arg0 = 0, f_status = 0,
     f_plen = of_nat (length payload)\<rparr> 0 (replicate 8 0) @ payload"

lemma in_tries_silent:
  "in_tries E k n t r w = (r', w') \<Longrightarrow> in_silent E sent \<Longrightarrow> link_out E sent \<Longrightarrow> sent w' = sent w"
  by (induction k arbitrary: r w) (auto split: prod.splits if_splits dest: in_silentD)

lemma usb_read_silent:
  assumes "usb_read E n t w = (r, w')" "in_silent E sent" "link_out E sent"
  shows "sent w' = sent w"
proof -
  have "usb_read_loop E n t got w = (r, w') \<Longrightarrow> in_silent E sent \<Longrightarrow> link_out E sent \<Longrightarrow> sent w' = sent w" for got
  proof (induction E n t got w rule: usb_read_loop.induct)
    case (1 E len t got w)
    obtain rc dat w1 where i: "in_tries E 3 (len - length got) t (LIBUSB_ERROR_OTHER, []) w = ((rc, dat), w1)"
      by (metis surj_pair)
    note q = in_tries_silent [OF i "1.prems"(2,3)]
    show ?case
    proof (cases "length got < len \<and> rc = LIBUSB_SUCCESS \<and> dat \<noteq> []")
      case False
      with "1.prems"(1) i q show ?thesis
        by (auto simp: usb_read_loop.simps [of E len t got w] split: if_splits)
    next
      case True
      with "1.prems"(1) i have "usb_read_loop E len t (got @ dat) w1 = (r, w')"
        by (simp add: usb_read_loop.simps [of E len t got w])
      from "1.IH" [OF _ i [symmetric] refl _ this "1.prems"(2,3)] True q show ?thesis by simp
    qed
  qed
  then show ?thesis using assms by (simp add: usb_read_def)
qed

lemma drain_payload_silent:
  "drain_payload E n t w = (st, w') \<Longrightarrow> in_silent E sent \<Longrightarrow> link_out E sent \<Longrightarrow> sent w' = sent w"
proof (induction E n t w rule: drain_payload.induct)
  case (1 E n t w)
  obtain st1 bs w1 where u: "usb_read E (if 512 < n then 512 else n) t w = ((st1, bs), w1)" by (metis surj_pair)
  note q = usb_read_silent [OF u "1.prems"(2,3)]
  show ?case
  proof (cases "n \<noteq> 0 \<and> st1 = SANE_STATUS_GOOD")
    case False
    with "1.prems"(1) u q show ?thesis
      by (auto simp: drain_payload.simps [of E n t w] Let_def split: if_splits)
  next
    case True
    with "1.prems"(1) u have "drain_payload E (n - (if 512 < n then 512 else n)) t w1 = (st, w')"
      by (simp add: drain_payload.simps [of E n t w] Let_def split del: if_split)
    from "1.IH" [OF _ refl u [symmetric] refl _ this "1.prems"(2,3)] True q show ?thesis by simp
  qed
qed

lemma recv_frame_silent:
  assumes "recv_frame E t probe w = (r, w')" "in_silent E sent" "link_out E sent"
  shows "sent w' = sent w"
  using assms(1)
  by (auto simp: recv_frame_def recv_rest_def split: if_splits prod.splits
      dest!: usb_read_silent [OF _ assms(2,3)] in_silentD [OF assms(2)])

lemma await_ack_silent:
  "await_ack E cmd t k w = (r, w') \<Longrightarrow> in_silent E sent \<Longrightarrow> link_out E sent \<Longrightarrow> sent w' = sent w"
proof (induction E cmd t k w rule: await_ack.induct)
  case (1 E cmd t k w)
  obtain res w1 where f: "recv_frame E t False w = (res, w1)" by (metis surj_pair)
  note q1 = recv_frame_silent [OF f "1.prems"(2,3)]
  show ?case
  proof (cases res)
    case (Recv_Frame fr)
    obtain st w2 where d: "drain_payload E (unat (f_plen fr)) TIMEOUT_TEARDOWN w1 = (st, w2)" by (metis surj_pair)
    note q2 = drain_payload_silent [OF d "1.prems"(2,3)]
    show ?thesis
    proof (cases "f_cmd fr \<noteq> cmd \<and> st = SANE_STATUS_GOOD \<and> \<not> COMMAND_MAX_SKIP \<le> k + 1")
      case False
      with "1.prems"(1) f Recv_Frame d q1 q2 show ?thesis
        by (auto simp: await_ack.simps [of E cmd t k w] split: if_splits)
    next
      case True
      with "1.prems"(1) f Recv_Frame d have "await_ack E cmd TIMEOUT_TEARDOWN (k + 1) w2 = (r, w')"
        by (simp add: await_ack.simps [of E cmd t k w])
      from "1.IH" [OF f [symmetric] Recv_Frame _ d [symmetric] _ _ this "1.prems"(2,3)] True q1 q2
      show ?thesis by simp
    qed
  qed (use "1.prems"(1) f q1 in \<open>auto simp: await_ack.simps [of E cmd t k w]\<close>)
qed

text \<open>A command that succeeds has sent its request, once and whole.\<close>

lemma command_sent:
  assumes "command E cmd payload want w = (r, w')" "c_status r = SANE_STATUS_GOOD"
    "in_silent E sent" "link_out E sent"
  shows "sent w' = sent w @ request cmd payload"
proof -
  obtain st w1 where s: "send_frame E cmd payload w = (st, w1)" by (metis surj_pair)
  have good: "st = SANE_STATUS_GOOD"
    using assms(1,2) s by (auto simp: command_def command_fails_def split: if_splits)
  obtain ack w2 where a: "await_ack E cmd TIMEOUT_READ 0 w1 = (ack, w2)" by (metis surj_pair)
  have "sent w' = sent w2"
    using assms(1) s good a
    by (auto simp: command_def Let_def split: sum.splits option.splits if_splits prod.splits
        dest: drain_payload_silent [OF _ assms(3,4)] usb_read_silent [OF _ assms(3,4)])
      (metis assms(3,4) drain_payload_silent surjective_pairing)+
  with await_ack_silent [OF a assms(3,4)] send_frame_sent [OF s [unfolded good] assms(4)] show ?thesis
    by (simp add: request_def)
qed

section \<open>The settings of a job\<close>

lemma job_settings_length: "length (job_settings h settings) = 100"
proof -
  have "length (concat (map put_be32 ws)) = 4 * length ws" for ws
    by (induction ws) simp_all
  then show ?thesis
    by (simp add: job_settings_def Let_def protocol_sizes split: prod.splits)
qed

lemma be32_words:
  "k < length ws \<Longrightarrow> get_be32 (drop (4 * k) (concat (map put_be32 ws))) = ws ! k"
proof (induction ws arbitrary: k)
  case Nil
  then show ?case by simp
next
  case (Cons x xs)
  show ?case
  proof (cases k)
    case 0
    then show ?thesis by simp
  next
    case (Suc j)
    with Cons show ?thesis by simp
  qed
qed

lemma job_settings_words:
  assumes "i < 25"
  shows "get_be32 (drop (4 * i) (job_settings h settings)) =
    (let (left, top, right, bottom) = compute_window h in
     if i = SET_RESOLUTION then word_of_int (effective_resolution h)
     else if i = SET_ZERO then 0
     else if i = SET_SOURCE then source_code h
     else if i = SET_TOP then word_of_int top
     else if i = SET_LEFT then word_of_int left
     else if i = SET_BOTTOM then word_of_int bottom
     else if i = SET_RIGHT then word_of_int right
     else if i = SET_COLOUR then (if mode_is h SCAN_MODE_COLOR then 1 else 0)
     else get_be32 (drop (4 * i) settings))"
proof -
  obtain l t r b where w: "compute_window h = (l, t, r, b)" by (metis prod_cases4)
  define ws where "ws = (map (\<lambda>i. get_be32 (drop (4 * i) settings)) [0..<PANTUM_SETTINGS_WORDS])
     [SET_RESOLUTION := word_of_int (effective_resolution h), SET_ZERO := 0, SET_SOURCE := source_code h,
      SET_TOP := word_of_int t, SET_LEFT := word_of_int l, SET_BOTTOM := word_of_int b,
      SET_RIGHT := word_of_int r, SET_COLOUR := (if mode_is h SCAN_MODE_COLOR then 1 else 0)]"
  have len: "length ws = 25" by (simp add: ws_def protocol_sizes)
  have "job_settings h settings = concat (map put_be32 ws)"
    by (simp add: job_settings_def w ws_def Let_def)
  then have "get_be32 (drop (4 * i) (job_settings h settings)) = ws ! i"
    using be32_words [of i ws] assms len by simp
  then show ?thesis
    using assms by (simp add: w ws_def set_words protocol_sizes nth_list_update)
qed

lemma setup_job_sent:
  assumes "setup_job E h w = (SANE_STATUS_GOOD, w')" "in_silent E sent" "link_out E sent"
  shows "\<exists>settings. sent w' = sent w @ request CMD_SET_DEFAULTS [] @ request CMD_GET_SETTINGS []
    @ request CMD_SET_SETTINGS (job_settings h settings) @ request CMD_START []"
proof -
  obtain r1 w1 where 1: "command E CMD_SET_DEFAULTS [] None w = (r1, w1)" by (metis surj_pair)
  obtain r2 w2 where 2: "command E CMD_GET_SETTINGS [] (Some PANTUM_SETTINGS_LEN) w1 = (r2, w2)" by (metis surj_pair)
  obtain r3 w3 where 3: "command E CMD_SET_SETTINGS (job_settings h (c_reply r2)) None w2 = (r3, w3)" by (metis surj_pair)
  obtain r4 w4 where 4: "command E CMD_START [] None w3 = (r4, w4)" by (metis surj_pair)
  have g: "c_status r1 = SANE_STATUS_GOOD" "c_status r2 = SANE_STATUS_GOOD" "c_status r3 = SANE_STATUS_GOOD"
    "c_status r4 = SANE_STATUS_GOOD" "w' = w4"
    using assms(1) 1 2 3 4 by (auto simp: setup_job_def split: if_splits)
  show ?thesis
    using command_sent [OF 1 g(1) assms(2,3)] command_sent [OF 2 g(2) assms(2,3)]
      command_sent [OF 3 g(3) assms(2,3)] command_sent [OF 4 g(4) assms(2,3)] g(5)
    by auto
qed

section \<open>A device that answers\<close>

text \<open>A command whose acknowledgement is next on the wire.\<close>

lemma command_answered:
  assumes link: "link_in E pend" "link_ready E pend" and request: "length payload \<le> PANTUM_SETTINGS_LEN"
    and ack: "frame_wf (f, x, y, body)" "f_cmd f = cmd" "f_status f = 0"
    and want: "want = None \<or> (want = Some (length body) \<and> body \<noteq> [])"
    and queued: "pend w = frame_wire (f, x, y, body) @ rest"
  obtains w' where "command E cmd payload want w =
      (\<lparr>c_status = SANE_STATUS_GOOD, c_ack = Some f, c_reply = (if want = None then [] else body)\<rparr>, w')"
    "pend w' = rest"
proof -
  obtain w1 where 1: "send_frame E cmd payload w = (SANE_STATUS_GOOD, w1)" "pend w1 = pend w"
    using send_frame_ready [OF link(2) request] .
  from ack have wf: "length y = 8" "length body = unat (f_plen f)" "f_plen f \<le> PANTUM_MAX_PAYLOAD"
    by simp_all
  obtain w2 where 2: "await_ack E cmd TIMEOUT_READ 0 w1 = (Inr f, w2)" "pend w2 = body @ rest"
    using await_ack_skips [OF link ack(2) wf(3,1), of "[]" 0 w1 x "body @ rest" TIMEOUT_READ] queued 1(2)
    by (auto simp: COMMAND_MAX_SKIP_def)
  obtain w3 where 3: "drain_payload E (length body) TIMEOUT_READ w2 = (SANE_STATUS_GOOD, w3)" "pend w3 = rest"
    using drain_payload_ready [OF link, of "length body" w2 TIMEOUT_READ] 2(2) by auto
  obtain w4 where 4: "usb_read E (length body) TIMEOUT_READ w2 = ((SANE_STATUS_GOOD, body), w4)" "pend w4 = rest"
    using usb_read_ready [OF link, of "length body" w2 TIMEOUT_READ] 2(2) by auto
  show thesis
  proof (cases "body = []")
    case True
    then have "f_plen f = 0" using wf(2) by (simp add: unat_eq_0)
    with True want 1 2 ack(3) show thesis
      by (intro that [of w2]) (simp_all add: command_def command_done_def)
  next
    case False
    then have "f_plen f \<noteq> 0" using wf(2) by auto
    with False want 1 2 3 4 wf(2) [symmetric] ack(3) show thesis
      by (cases want) (auto intro: that simp: command_def command_done_def)
  qed
qed

section \<open>The stream stays on frame boundaries\<close>

lemma store_block_link:
  assumes "store_block E dm first n stride avail body h w = (st, h', w')"
    "link_in E pend" "alloc_quiet E pend"
  shows "\<exists>d. pend w = d @ pend w' \<and> (st = SANE_STATUS_GOOD \<longrightarrow> length d = body)"
proof -
  obtain ok h1 w1 where a: "(if h_raw_cap h < body then
              (case alloc_ok E body w of (ok, w1) \<Rightarrow>
                 if ok then (True, h\<lparr>h_raw_cap := body\<rparr>, w1) else (False, h, w1))
            else (True, h, w)) = (ok, h1, w1)"
    by (rule prod_cases3)
  have w1: "pend w1 = pend w"
  proof (cases "h_raw_cap h < body")
    case True
    have "w1 = snd (alloc_ok E body w)"
      using a True by (simp add: case_prod_beta split: if_split_asm)
    then show ?thesis using assms(3) by (simp add: alloc_quiet_def)
  qed (use a in simp)
  obtain st2 raw w2 where u: "usb_read E body TIMEOUT_READ w1 = ((st2, raw), w2)" by (metis surj_pair)
  obtain d where d: "pend w1 = d @ pend w2" "st2 = SANE_STATUS_GOOD \<longrightarrow> raw = d \<and> length raw = body"
    using usb_read_link [OF u assms(2)] by blast
  obtain st3 h3 w3 where e: "emit_white_rows E (if first < word_of_int (p_lines (h_params h1)) then sint first
       else p_lines (h_params h1)) (h1\<lparr>h_raw := raw\<rparr>) w2 = (st3, h3, w3)"
    by (rule prod_cases3)
  note e' = emit_white_rows_quiet [OF e assms(3)]
  note run = assms(1) [unfolded store_block_stages [OF a u e]]
  obtain d' where d': "pend w1 = d' @ pend (snd (drain_payload E body TIMEOUT_READ w1))"
  proof -
    obtain st4 w4 where "drain_payload E body TIMEOUT_READ w1 = (st4, w4)" by (metis surj_pair)
    with drain_payload_link [OF this assms(2)] that show thesis by auto
  qed
  consider "\<not> ok" | "ok" "st2 \<noteq> SANE_STATUS_GOOD" | "ok" "st2 = SANE_STATUS_GOOD" "st3 \<noteq> SANE_STATUS_GOOD"
    | "ok" "st2 = SANE_STATUS_GOOD" "st3 = SANE_STATUS_GOOD" by blast
  then show ?thesis
  proof cases
    case 1
    with run have "st = SANE_STATUS_NO_MEM" "w' = snd (drain_payload E body TIMEOUT_READ w1)" by simp_all
    with d' w1 show ?thesis by auto
  next
    case 2
    with run have "st \<noteq> SANE_STATUS_GOOD" "w' = w2" by auto
    with d w1 show ?thesis by auto
  next
    case 3
    with run have "st \<noteq> SANE_STATUS_GOOD" "w' = w3" by auto
    with d w1 e' show ?thesis by auto
  next
    case 4
    with run have "data_rows E dm first stride avail [0..<unat n] h3 w3 = (st, h', w')" by simp
    from data_rows_quiet [OF this assms(3)] d w1 e' 4 show ?thesis by auto
  qed
qed

lemma handle_data_block_link:
  assumes "handle_data_block E dm plen h w = (st, h', w')" "link_in E pend" "alloc_quiet E pend"
  shows "\<exists>d. pend w = d @ pend w' \<and> (st = SANE_STATUS_GOOD \<longrightarrow> length d = unat plen)"
proof -
  have drained: "\<exists>d. pend v = d @ pend (snd (drain_payload E k t v))" for k t v
  proof -
    obtain st1 w1 where "drain_payload E k t v = (st1, w1)" by (metis surj_pair)
    with drain_payload_link [OF this assms(2)] show ?thesis by auto
  qed
  show ?thesis
  proof (cases "unat plen < PANTUM_DATA_HEADER_LEN")
    case True
    with assms(1) drained show ?thesis by (auto simp: handle_data_block_def)
  next
    case False
    obtain st1 head w1 where u: "usb_read E PANTUM_DATA_HEADER_LEN TIMEOUT_READ w = ((st1, head), w1)"
      by (metis surj_pair)
    obtain d where d: "pend w = d @ pend w1" "st1 = SANE_STATUS_GOOD \<longrightarrow> head = d \<and> length head = PANTUM_DATA_HEADER_LEN"
      using usb_read_link [OF u assms(2)] by blast
    define body where "body = unat plen - PANTUM_DATA_HEADER_LEN"
    have cases: "st \<noteq> SANE_STATUS_GOOD \<and> (w' = w1 \<or> w' = snd (drain_payload E body TIMEOUT_READ w1))
      \<or> st1 = SANE_STATUS_GOOD \<and> (\<exists>first n stride avail. store_block E dm first n stride avail body h w1 = (st, h', w'))"
      using assms(1) False u unfolding handle_data_block_def body_def
      by (auto simp: Let_def split: if_splits)
    then show ?thesis
    proof (elim disjE conjE exE)
      assume "st \<noteq> SANE_STATUS_GOOD" "w' = w1"
      with d show ?thesis by auto
    next
      assume "st \<noteq> SANE_STATUS_GOOD" "w' = snd (drain_payload E body TIMEOUT_READ w1)"
      with d(1) drained [of w1 body TIMEOUT_READ] show ?thesis by (metis append_assoc)
    next
      fix first n stride avail
      assume g: "st1 = SANE_STATUS_GOOD" "store_block E dm first n stride avail body h w1 = (st, h', w')"
      obtain d' where "pend w1 = d' @ pend w'" "st = SANE_STATUS_GOOD \<longrightarrow> length d' = body"
        using store_block_link [OF g(2) assms(2,3)] by blast
      with d g(1) False show ?thesis by (intro exI [of _ "d @ d'"]) (auto simp: body_def)
    qed
  qed
qed

text \<open>One turn of the pump while the job goes on: nothing was there, or one frame is gone.\<close>

lemma pump_frame_boundary:
  assumes "pump_frame E dm dbg probe want h w = (r, h', w')" "pr_status r = SANE_STATUS_GOOD"
    "link_in E pend" "alloc_quiet E pend" "h_scanning h'" "\<not> h_eof h'"
  shows "pr_idle r \<and> probe \<and> pend w' = pend w \<and> h' = h \<or>
    \<not> pr_idle r \<and> (\<exists>f x y d. pend w = header_bytes f x y @ d @ pend w' \<and> length y = 8
      \<and> (length d = unat (f_plen f) \<or> f_cmd f = EVT_PAGE_END))"
proof -
  obtain res w1 where res: "recv_frame E TIMEOUT_READ probe w = (res, w1)" by (metis surj_pair)
  show ?thesis
  proof (cases res)
    case (Recv_Err st)
    with assms(1,2) res show ?thesis
      by (auto simp: pump_frame_def pumped_def recv_frame_def recv_rest_def parse_header_def Let_def
          split: if_splits prod.splits)
  next
    case Recv_Idle
    with assms(1) res recv_frame_link(2) [OF res assms(3)] show ?thesis
      by (auto simp: pump_frame_def pumped_def)
  next
    case (Recv_Frame f)
    obtain x y where h: "pend w = header_bytes f x y @ pend w1" "length y = 8"
      using recv_frame_link(1) [OF res assms(3) Recv_Frame] by blast
    obtain st2 w2 where dr: "drain_payload E (unat (f_plen f)) TIMEOUT_READ w1 = (st2, w2)" by (metis surj_pair)
    obtain d where d: "pend w1 = d @ pend w2" "st2 = SANE_STATUS_GOOD \<longrightarrow> length d = unat (f_plen f)"
      using drain_payload_link [OF dr assms(3)] by blast
    note defs = pump_frame_def res Recv_Frame dr
    have "\<not> pr_idle r \<and> (\<exists>d. pend w1 = d @ pend w' \<and> (length d = unat (f_plen f) \<or> f_cmd f = EVT_PAGE_END))"
    proof -
      consider "f_cmd f = EVT_DATA" | "f_cmd f = EVT_ABORTED \<or> f_cmd f = EVT_JOB_END" | "f_cmd f = EVT_PAGE_END"
        | "f_cmd f = EVT_SETTINGS" | "f_cmd f \<notin> {EVT_DATA, EVT_ABORTED, EVT_JOB_END, EVT_PAGE_END, EVT_SETTINGS}"
        by blast
      then show ?thesis
      proof cases
        case 1
        obtain st h1 w3 where b: "handle_data_block E dm (f_plen f) h w1 = (st, h1, w3)" by (rule prod_cases3)
        with 1 assms(1) have "r = pumped st" "w' = w3" by (auto simp: defs)
        with handle_data_block_link [OF b assms(3,4)] assms(2) show ?thesis by (auto simp: pumped_def)
      next
        case 2
        have False
          using 2 assms(1,5)
          by (auto simp: defs protocol_codes unlocked_def split: if_splits prod.splits
              dest!: unlock_device_unlocked)
        then show ?thesis ..
      next
        case 3
        have "\<not> source_is_adf h"
          using 3 assms(1,6) by (auto simp: defs protocol_codes split: if_splits prod.splits)
        with 3 assms(1) have "r = pumped SANE_STATUS_GOOD" "w' = w2" by (auto simp: defs protocol_codes)
        with d 3 show ?thesis by (auto simp: pumped_def)
      next
        case 4
        obtain st w3 where l: "log_settings_echo E dbg (f_plen f) w1 = (st, w3)" by (metis surj_pair)
        with 4 assms(1) have r: "r = pumped st" "w' = w3" by (auto simp: defs protocol_codes)
        have "\<exists>d. pend w1 = d @ pend w3 \<and> length d = unat (f_plen f)"
        proof (cases "f_plen f \<noteq> of_nat PANTUM_SETTINGS_LEN \<or> dbg < 2")
          case True
          with l r(1) assms(2) d dr show ?thesis by (auto simp: log_settings_echo_def pumped_def)
        next
          case False
          with l r(1) assms(2) obtain bs where
            "usb_read E PANTUM_SETTINGS_LEN TIMEOUT_READ w1 = ((SANE_STATUS_GOOD, bs), w3)"
            by (auto simp: log_settings_echo_def pumped_def split: prod.splits if_splits)
          from usb_read_good [OF this assms(3)] False show ?thesis by (auto simp: protocol_sizes)
        qed
        with r show ?thesis by (auto simp: pumped_def)
      next
        case 5
        with assms(1) have "r = pumped st2" "w' = w2" by (auto simp: defs)
        with d assms(2) show ?thesis by (auto simp: pumped_def)
      qed
    qed
    with h show ?thesis by (metis append_assoc)
  qed
qed

section \<open>Every wait ends\<close>

lemma await_first_rows_returns:
  assumes "link_in E pend" "alloc_quiet E pend"
  shows "\<exists>y. await_first_rows E dm dbg ab h w = Some y"
proof (induction "length (pend w)" arbitrary: ab h w rule: less_induct)
  case less
  show ?case
  proof (cases "h_scanning h \<and> h_out h = [] \<and> ab = None \<and> \<not> h_eof h")
    case False
    then show ?thesis by (subst await_first_rows.simps) auto
  next
    case True
    obtain r h1 w1 where p: "pump_frame E dm dbg False True h w = (r, h1, w1)" by (rule prod_cases3)
    show ?thesis
    proof (cases "pr_status r = SANE_STATUS_GOOD \<and> h_scanning h1 \<and> \<not> h_eof h1")
      case False
      have "\<exists>y. await_first_rows E dm dbg (pr_aborted r) h1 w1 = Some y" if "pr_status r = SANE_STATUS_GOOD"
        using False that by (subst await_first_rows.simps) auto
      with True p show ?thesis by (subst await_first_rows.simps) (auto split: prod.splits)
    next
      case go: True
      from pump_frame_boundary [OF p _ assms] go have "length (pend w1) < length (pend w)"
        by auto
      from less [OF this] True p go show ?thesis by (subst await_first_rows.simps) auto
    qed
  qed
qed

lemma read_pump_returns:
  assumes "link_in E pend" "alloc_quiet E pend"
  shows "\<exists>y. read_pump E dm dbg h w = Some y"
proof (induction "length (pend w)" arbitrary: h w rule: less_induct)
  case less
  show ?case
  proof (cases "h_out_pos h = length (h_out h) \<and> \<not> h_eof h \<and> h_scanning h")
    case False
    then show ?thesis by (subst read_pump.simps) auto
  next
    case True
    obtain r h1 w1 where p: "pump_frame E dm dbg (h_non_blocking h) False h w = (r, h1, w1)" by (rule prod_cases3)
    show ?thesis
    proof (cases "pr_status r = SANE_STATUS_GOOD \<and> h_scanning h1 \<and> \<not> h_eof h1 \<and> \<not> pr_idle r")
      case False
      have "\<exists>y. read_pump E dm dbg h1 w1 = Some y" if "pr_status r = SANE_STATUS_GOOD" "\<not> pr_idle r"
        using False that by (subst read_pump.simps) auto
      with True p show ?thesis by (subst read_pump.simps) (auto split: prod.splits)
    next
      case go: True
      from pump_frame_boundary [OF p _ assms] go have "length (pend w1) < length (pend w)"
        by auto
      from less [OF this] True p go show ?thesis by (subst read_pump.simps) auto
    qed
  qed
qed

lemma run_job_returns:
  assumes "link_in E pend" "alloc_quiet E pend"
  shows "\<exists>y. run_job E dm dbg h w = Some y"
  using await_first_rows_returns [OF assms]
  by (auto simp: run_job_def Let_def split: prod.splits)

lemma resume_job_returns:
  assumes "link_in E pend" "alloc_quiet E pend"
  shows "\<exists>y. resume_job E dm dbg h w = Some y"
proof -
  obtain st ab h1 w1 where "await_first_rows E dm dbg None
      (h\<lparr>h_next_row := 0, h_out := [], h_out_pos := 0, h_eof := False, h_feeding := False\<rparr>) w = Some ((st, ab), h1, w1)"
    using await_first_rows_returns [OF assms] by (metis surj_pair)
  then show ?thesis by (simp add: resume_job_def)
qed

lemma start_tries_returns:
  assumes "link_in E pend" "alloc_quiet E pend"
  shows "\<exists>y. start_tries E dm dbg n h w = Some y"
proof (induction n arbitrary: h w)
  case 0
  then show ?case by simp
next
  case (Suc n)
  obtain st ab h1 w1 where "run_job E dm dbg h w = Some ((st, ab), h1, w1)"
    using run_job_returns [OF assms, of dm dbg h w] by auto
  with Suc show ?case by (auto split: option.splits)
qed

lemma sane_read_returns:
  assumes "link_in E pend" "alloc_quiet E pend"
  shows "\<exists>y. sane_read E dbg dmask n h w = Some y"
  using read_pump_returns [OF assms, of "mask_bytes dmask" dbg h w]
  by (auto simp: sane_read_def Let_def split: prod.splits option.splits)

lemma sane_start_returns:
  assumes "link_in E pend" "alloc_quiet E pend" "mode_is h SCAN_MODE_HALFTONE \<longrightarrow> dmask \<noteq> None"
  shows "\<exists>y. sane_start F E dbg dmask h w = Some y"
proof -
  obtain h0 w0 where c: "(if h_cancelled h then end_scan E h w else (h, w)) = (h0, w0)" by (metis surj_pair)
  have "mode_is h0 m = mode_is h m" for m
    using c end_scan_ok(2) [of E h w h0 w0] by (auto simp: mode_is_def same_session_def split: if_splits)
  then have m: "h_halftone (prepare_job h0) \<Longrightarrow> dmask \<noteq> None"
    using assms(3) by (simp add: prepare_job_def)
  have new: "\<exists>y. start_new_job F E dbg dmask h0 w0 = Some y"
  proof (cases "h_halftone (prepare_job h0)")
    case False
    then show ?thesis
      using start_tries_returns [OF assms(1,2)]
      by (auto simp: start_new_job_def Let_def split: option.splits)
  next
    case True
    with m obtain b where "dmask = Some b" by auto
    with True show ?thesis
      using start_tries_returns [OF assms(1,2)]
      by (auto simp: start_new_job_def Let_def build_dither_mask_def split: option.splits)
  qed
  obtain st h1 w1 where res: "resume_job E (mask_bytes dmask) dbg h0 w0 = Some (st, h1, w1)"
    using resume_job_returns [OF assms(1,2)] by (metis prod_cases3)
  show ?thesis
    unfolding sane_start_def c prod.case using new res by auto
qed

end
