(* ===== verification/Session_Api.thy ===== *)
theory Session_Api
  imports Job_Wire
begin

text \<open>
  Every history of an open handle. \<open>api_step\<close> is one call of the frontend (or something
  the device does in between); the session invariant of \<open>Session_Laws\<close> is shown to be kept
  by every step, and the bytes a row of reads hands out are followed through it.
\<close>

section \<open>Opening\<close>

lemma session_ok_stopped:
  "flags_ended h \<Longrightarrow> session_ok h \<longleftrightarrow> options_inv h \<and> queue_ok h"
  by (auto simp: session_ok_def flags_ended_def lock_ok_def)

lemma open_handle_ok:
  assumes "open_handle E w = (h, w')"
  shows "session_ok h" "flags_ended h" "unread h = []"
proof -
  obtain h1 w1 where p: "probe_adf E calloc_handle (flush_input E w) = (h1, w1)" by (metis surj_pair)
  have h1: "\<exists>b. h1 = unlocked (calloc_handle\<lparr>h_has_adf := b, h_locked := True\<rparr>)"
    using p by (intro exI [of _ "h_has_adf h1"])
      (auto simp: probe_adf_def Let_def unlocked_def calloc_handle_def split: prod.splits if_splits dest!: unlock_device_unlocked)
  obtain h2 w2 where i: "init_options E h1 w1 = (h2, w2)" by (metis surj_pair)
  have h2: "flags_ended h2" "queue_ok h2" "unread h2 = []"
    using i h1 by (auto simp: init_options_def unlocked_def flags_ended_def queue_ok_def unread_def calloc_handle_def
        split: prod.splits)
  have h: "h = h2\<lparr>h_params := compute_parameters h2\<rparr>"
    using assms p i by (simp add: open_handle_def)
  have inv: "options_inv h"
    using init_options_inv [OF i] options_inv_same [of "h2\<lparr>h_params := compute_parameters h2\<rparr>" h2]
    by (simp add: h)
  show f: "flags_ended h" using h2(1) by (simp add: h flags_ended_def)
  have "queue_ok h" using h2(2) by (simp add: h queue_ok_def)
  with f inv show "session_ok h" by (simp add: session_ok_stopped)
  show "unread h = []" using h2(3) by (simp add: h unread_def)
qed

section \<open>Calls\<close>

text \<open>What a frontend may do with an open handle, one call after another; \<open>device\<close> is
  whatever happens on the other side of the cable in between.\<close>

inductive api_step ::
  "'f float_ops \<Rightarrow> 'w env \<Rightarrow> int \<Rightarrow> pantum_handle \<times> byte list option \<times> 'w
   \<Rightarrow> pantum_handle \<times> byte list option \<times> 'w \<Rightarrow> bool" for F E dbg where
  start: "sane_start F E dbg m h w = Some ((st, m'), h', w') \<Longrightarrow> api_step F E dbg (h, m, w) (h', m', w')"
| read: "sane_read E dbg m n h w = Some (r, h', w') \<Longrightarrow> api_step F E dbg (h, m, w) (h', m, w')"
| cancel: "api_step F E dbg (h, m, w) (sane_cancel h, m, w)"
| io_mode: "api_step F E dbg (h, m, w) (snd (sane_set_io_mode nb h), m, w)"
| parameters: "api_step F E dbg (h, m, w) (snd (sane_get_parameters h), m, w)"
| option: "option_call E (h, w) (h', w') \<Longrightarrow> api_step F E dbg (h, m, w) (h', m, w')"
| device: "api_step F E dbg (h, m, w) (h, m, w')"

inductive_cases api_stepE: "api_step F E dbg s t"

fun api_ok :: "pantum_handle \<times> byte list option \<times> 'w \<Rightarrow> bool" where
  "api_ok (h, m, w) \<longleftrightarrow> session_ok h \<and> mask_ok m"

lemma session_ok_cong:
  assumes "same_session h h'" "h_scanning h' = h_scanning h" "h_locked h' = h_locked h" "h_feeding h' = h_feeding h"
    "h_eof h' = h_eof h" "h_next_row h' = h_next_row h" "h_out h' = h_out h" "h_out_pos h' = h_out_pos h"
  shows "session_ok h' = session_ok h"
  using assms options_inv_session [OF assms(1)]
  by (auto simp: session_ok_def lock_ok_def queue_ok_def page_running_def page_ok_def page_wf_def margins_ok_def same_session_def)

lemma cancel_ok [simp]: "session_ok (sane_cancel h) = session_ok h"
  by (auto simp: sane_cancel_def session_ok_def options_inv_same [of "h\<lparr>h_cancelled := True\<rparr>" h] lock_ok_def queue_ok_def
      page_running_def page_ok_def page_wf_def margins_ok_def)

lemma io_mode_ok [simp]: "session_ok (snd (sane_set_io_mode nb h)) = session_ok h"
  by (auto simp: sane_set_io_mode_def session_ok_def options_inv_same [of "h\<lparr>h_non_blocking := nb\<rparr>" h] lock_ok_def queue_ok_def
      page_running_def page_ok_def page_wf_def margins_ok_def)

lemma get_parameters_ok [simp]: "session_ok h \<Longrightarrow> session_ok (snd (sane_get_parameters h))"
  by (auto simp: sane_get_parameters_def Let_def session_ok_def options_inv_same [of "h\<lparr>h_params := _\<rparr>" h] lock_ok_def queue_ok_def)

lemma update_option_state_session:
  "\<exists>a b. update_option_state h = h\<lparr>h_opt := a, h_val_w := b\<rparr>"
  unfolding update_option_state_def Let_def by blast

lemma control_option_frame:
  assumes "control_option E h i action value w = (r, h', w')"
  shows "\<exists>a b c. h' = h\<lparr>h_opt := a, h_val_w := b, h_val_s := c\<rparr>" "h_scanning h \<Longrightarrow> h' = h"
proof -
  have triv: "\<exists>a b c. h = h\<lparr>h_opt := a, h_val_w := b, h_val_s := c\<rparr>"
    by (intro exI [of _ "h_opt h"] exI [of _ "h_val_w h"] exI [of _ "h_val_s h"]) simp
  have s: "\<exists>a b c. h1 = h\<lparr>h_opt := a, h_val_w := b, h_val_s := c\<rparr>"
    if "set_string E h opt x w = ((st, info), h1, w1)" for opt x st info h1 w1
  proof -
    have "h1 = h \<or> (\<exists>s. h1 = h\<lparr>h_val_s := s\<rparr> \<or> h1 = update_option_state (h\<lparr>h_val_s := s\<rparr>))"
      using that by (auto simp: set_string_def Let_def split: sane_constraint.splits option.splits prod.splits if_splits)
    then consider "h1 = h" | s where "h1 = h\<lparr>h_val_s := s\<rparr>" | s where "h1 = update_option_state (h\<lparr>h_val_s := s\<rparr>)"
      by blast
    then show ?thesis
    proof cases
      case 1
      with triv show ?thesis by simp
    next
      case (2 s)
      then have "h1 = h\<lparr>h_opt := h_opt h, h_val_w := h_val_w h, h_val_s := s\<rparr>" by simp
      then show ?thesis by blast
    next
      case (3 s)
      obtain a b where "update_option_state (h\<lparr>h_val_s := s\<rparr>) = (h\<lparr>h_val_s := s\<rparr>)\<lparr>h_opt := a, h_val_w := b\<rparr>"
        using update_option_state_session by blast
      with 3 have "h1 = h\<lparr>h_opt := a, h_val_w := b, h_val_s := s\<rparr>" by simp
      then show ?thesis by blast
    qed
  qed
  have wd: "\<exists>a b c. h1 = h\<lparr>h_opt := a, h_val_w := b, h_val_s := c\<rparr>"
    if "set_word h opt v = (v1, info, h1)" for opt v v1 info h1
  proof -
    have "h1 = h\<lparr>h_opt := h_opt h, h_val_w := h_val_w h1, h_val_s := h_val_s h\<rparr>"
      using that by (auto simp: set_word_def Let_def split: prod.splits)
    then show ?thesis by blast
  qed
  show "\<exists>a b c. h' = h\<lparr>h_opt := a, h_val_w := b, h_val_s := c\<rparr>"
    using assms triv
    by (auto simp: control_option_def split: option.splits if_splits sane_action.splits prod.splits
        dest: s wd)
  show "h_scanning h \<Longrightarrow> h' = h"
    using assms by (auto simp: control_option_def split: option.splits)
qed

lemma option_call_ok:
  assumes "option_call E (h, w) (h', w')" "session_ok h"
  shows "session_ok h'"
proof -
  obtain i action v r where c: "control_option E h i action v w = (r, h', w')" "r_status r \<noteq> SANE_STATUS_NO_MEM"
    using assms(1) by (auto elim: option_callE)
  have inv: "options_inv h'" using control_option_inv [OF _ c] assms(2) by (simp add: session_ok_def)
  show ?thesis
  proof (cases "h_scanning h")
    case True
    with control_option_frame(2) [OF c(1)] assms(2) show ?thesis by simp
  next
    case False
    with control_option_frame(1) [OF c(1)] assms(2) inv show ?thesis
      by (auto simp: session_ok_def lock_ok_def queue_ok_def)
  qed
qed

interpretation sessions: step_invariant "api_step F E dbg" "api_ok"
proof
  fix s t :: "pantum_handle \<times> byte list option \<times> 'b"
  assume "api_step F E dbg s t" "api_ok s"
  then show "api_ok t"
    by (elim api_stepE) (auto dest: sane_start_ok(1,2) sane_read_ok(1) option_call_ok)
qed

lemma mask_ok_None [simp]: "mask_ok None"
  by (simp add: mask_ok_def mask_bytes_def DITHER_CELLS_def DITHER_SIZE_def)

lemma opened_session:
  assumes "open_handle E w0 = (h0, w1)" "(api_step F E dbg)\<^sup>*\<^sup>* (h0, None, w1) (h, m, w)"
  shows "session_ok h" "mask_ok m"
  using sessions.run_inv [OF assms(2)] open_handle_ok(1) [OF assms(1)] by simp_all

section \<open>Reading a page\<close>

text \<open>Reads one after another, with the given buffer sizes, until one does not succeed: its
  status and all the bytes handed out.\<close>

fun sane_reads ::
  "'w env \<Rightarrow> int \<Rightarrow> byte list option \<Rightarrow> int list \<Rightarrow> pantum_handle \<Rightarrow> 'w
   \<Rightarrow> ((sane_status \<times> byte list) \<times> pantum_handle \<times> 'w) option" where
  "sane_reads E dbg m [] h w = Some ((SANE_STATUS_GOOD, []), h, w)"
| "sane_reads E dbg m (n # ns) h w =
     (case sane_read E dbg m n h w of
        None \<Rightarrow> None
      | Some ((st, data), h1, w1) \<Rightarrow>
          if st \<noteq> SANE_STATUS_GOOD then Some ((st, data), h1, w1)
          else (case sane_reads E dbg m ns h1 w1 of
                  None \<Rightarrow> None
                | Some ((st, rest), h2, w2) \<Rightarrow> Some ((st, data @ rest), h2, w2)))"

lemma sane_read_no_data: "sane_read E dbg m n h w = Some ((st, data), h', w') \<Longrightarrow> st \<noteq> SANE_STATUS_GOOD \<Longrightarrow> data = []"
  by (auto simp: sane_read_def Let_def split: if_splits prod.splits option.splits)

lemma sane_reads_deliver:
  assumes "sane_reads E dbg m ns h w = Some ((st, data), h', w')"
    "session_ok h" "page_running h" "mask_ok m" "delivered h d"
  shows "(st = SANE_STATUS_GOOD \<longrightarrow> page_running h' \<and> delivered h' (d @ data) \<and> h_params h' = h_params h)
    \<and> (st = SANE_STATUS_EOF \<longrightarrow> delivered h' (d @ data) \<and> unread h' = []
         \<and> h_next_row h' = p_lines (h_params h') \<and> h_params h' = h_params h)"
  using assms
proof (induction ns arbitrary: h w d data)
  case Nil
  then show ?case by simp
next
  case (Cons n ns)
  obtain st1 d1 h1 w1 where r: "sane_read E dbg m n h w = Some ((st1, d1), h1, w1)"
    using Cons.prems(1) by (auto split: option.splits)
  note ok = sane_read_ok [OF r Cons.prems(2,4)]
  show ?case
  proof (cases "st1 = SANE_STATUS_GOOD")
    case True
    then obtain rest where rest: "sane_reads E dbg m ns h1 w1 = Some ((st, rest), h', w')" "data = d1 @ rest"
      using Cons.prems(1) r by (auto split: option.splits)
    from ok(2) [OF Cons.prems(3) True Cons.prems(5)]
    have 1: "page_running h1" "delivered h1 (d @ d1)" "h_params h1 = h_params h" by simp_all
    show ?thesis using Cons.IH [OF rest(1) ok(1) 1(1) Cons.prems(4) 1(2)] rest(2) 1(3) by simp
  next
    case False
    with Cons.prems(1) r have same: "st = st1" "data = d1" "h' = h1" by auto
    show ?thesis
      using ok(3) [OF Cons.prems(3) _ Cons.prems(5)] False sane_read_no_data [OF r False]
      by (auto simp: same)
  qed
qed

end
