(* ===== verification/Session_World.thy ===== *)
theory Session_World
  imports Session_Api
begin

text \<open>
  What a session does to the world outside it goes through the five operations of \<open>env\<close>:
  whatever they keep, every call keeps. The interface is a locale; a component that shares the
  world with the sessions instantiates it with what it cares about.
\<close>

locale world_invariant =
  fixes E :: "'w env" and P :: "'w \<Rightarrow> bool"
  assumes keep_in: "bulk_in E n t w = (r, w') \<Longrightarrow> P w \<Longrightarrow> P w'"
    and keep_out: "bulk_out E bs t w = (s, w') \<Longrightarrow> P w \<Longrightarrow> P w'"
    and keep_halt: "P w \<Longrightarrow> P (clear_halt E e w)"
    and keep_sleep: "P w \<Longrightarrow> P (nanosleep E x y w)"
    and keep_alloc: "alloc_ok E n w = (ok, w') \<Longrightarrow> P w \<Longrightarrow> P w'"
begin

text \<open>Transfers and frames.\<close>

lemma sleep_ms_keeps: "P w \<Longrightarrow> P (sleep_ms E ms w)"
  by (simp add: sleep_ms_def keep_sleep)

lemma out_tries_keeps: "out_tries E k buf r w = (r', w') \<Longrightarrow> P w \<Longrightarrow> P w'"
proof (induction k arbitrary: r w)
  case (Suc k)
  obtain rc x w1 where o: "bulk_out E buf TIMEOUT_WRITE w = ((rc, x), w1)" by (metis surj_pair)
  have w1: "P w1" "P (sleep_ms E 10 (clear_halt E EP_OUT w1))"
    using keep_out [OF o Suc.prems(2)] by (simp_all add: sleep_ms_keeps keep_halt)
  show ?case
    using Suc.prems(1) Suc.IH [OF _ w1(2)] o w1(1) by (simp split: if_splits)
qed simp

lemma usb_write_keeps: "usb_write E buf w = (st, w') \<Longrightarrow> P w \<Longrightarrow> P w'"
proof (induction "length buf" arbitrary: buf w rule: less_induct)
  case less
  show ?case
  proof (cases "buf = []")
    case True
    with less.prems show ?thesis by (simp add: usb_write.simps)
  next
    case False
    obtain rc n w1 where t: "out_tries E 3 buf (LIBUSB_ERROR_OTHER, 0) w = ((rc, n), w1)" by (metis surj_pair)
    note w1 = out_tries_keeps [OF t less.prems(2)]
    show ?thesis
      using less.prems(1) less.hyps [of "drop n buf" w1] False t w1
      by (simp add: usb_write.simps [of E buf w] split: if_splits)
  qed
qed

lemma in_tries_keeps: "in_tries E k n t r w = (r', w') \<Longrightarrow> P w \<Longrightarrow> P w'"
proof (induction k arbitrary: r w)
  case (Suc k)
  obtain rc x w1 where o: "bulk_in E n t w = ((rc, x), w1)" by (metis surj_pair)
  have w1: "P w1" "P (sleep_ms E 10 (clear_halt E EP_IN w1))"
    using keep_in [OF o Suc.prems(2)] by (simp_all add: sleep_ms_keeps keep_halt)
  show ?case
    using Suc.prems(1) Suc.IH [OF _ w1(2)] o w1(1) by (simp split: if_splits)
qed simp

lemma usb_read_loop_keeps: "usb_read_loop E n t got w = (r, w') \<Longrightarrow> P w \<Longrightarrow> P w'"
proof (induction "n - length got" arbitrary: got w rule: less_induct)
  case less
  show ?case
  proof (cases "length got < n")
    case False
    with less.prems show ?thesis by (simp add: usb_read_loop.simps)
  next
    case True
    obtain rc d w1 where t: "in_tries E 3 (n - length got) t (LIBUSB_ERROR_OTHER, []) w = ((rc, d), w1)" by (metis surj_pair)
    note w1 = in_tries_keeps [OF t less.prems(2)]
    show ?thesis
    proof (cases "rc \<noteq> LIBUSB_SUCCESS \<or> d = []")
      case True
      with less.prems(1) \<open>length got < n\<close> t w1 show ?thesis by (simp add: usb_read_loop.simps [of E n t got w])
    next
      case False
      then have "n - length (got @ d) < n - length got" using True by (simp add: diff_less_mono2)
      from less.hyps [OF this _ w1] less.prems(1) False True t show ?thesis
        by (simp add: usb_read_loop.simps [of E n t got w])
    qed
  qed
qed

lemma usb_read_keeps: "usb_read E n t w = (r, w') \<Longrightarrow> P w \<Longrightarrow> P w'"
  by (auto simp: usb_read_def dest: usb_read_loop_keeps)

lemma flush_loop_keeps: "P w \<Longrightarrow> P (flush_loop E k w)"
  by (induction k arbitrary: w) (auto split: prod.splits dest: keep_in)

lemma flush_input_keeps: "P w \<Longrightarrow> P (flush_input E w)"
  by (simp add: flush_input_def flush_loop_keeps)

lemma send_frame_keeps: "send_frame E c payload w = (st, w') \<Longrightarrow> P w \<Longrightarrow> P w'"
  by (auto simp: send_frame_def Let_def split: if_splits dest: usb_write_keeps)

lemma recv_rest_keeps: "recv_rest E t got w = (r, w') \<Longrightarrow> P w \<Longrightarrow> P w'"
  by (auto simp: recv_rest_def split: if_splits prod.splits dest: usb_read_keeps)

lemma recv_frame_keeps: "recv_frame E t probe w = (r, w') \<Longrightarrow> P w \<Longrightarrow> P w'"
  by (auto simp: recv_frame_def split: if_splits prod.splits dest: keep_in recv_rest_keeps)

lemma drain_payload_keeps: "drain_payload E n t w = (st, w') \<Longrightarrow> P w \<Longrightarrow> P w'"
proof (induction n arbitrary: w rule: less_induct)
  case (less n)
  show ?case
  proof (cases "n = 0")
    case True
    with less.prems show ?thesis by (simp add: drain_payload.simps)
  next
    case False
    define chunk where "chunk = (if 512 < n then 512 else n)"
    have c: "n - chunk < n" using False by (simp add: chunk_def)
    obtain st1 bs w1 where u: "usb_read E chunk t w = ((st1, bs), w1)" by (metis surj_pair)
    note w1 = usb_read_keeps [OF u less.prems(2)]
    show ?thesis
      using less.prems(1) less.IH [OF c _ w1] False u w1
      by (simp add: drain_payload.simps [of E n t w] Let_def chunk_def [symmetric] split: if_splits)
  qed
qed

lemma drain_payload_snd: "P w \<Longrightarrow> P (snd (drain_payload E n t w))"
  by (metis drain_payload_keeps prod.collapse)

lemma await_ack_keeps: "await_ack E c t skipped w = (r, w') \<Longrightarrow> P w \<Longrightarrow> P w'"
proof (induction "COMMAND_MAX_SKIP - skipped" arbitrary: t skipped w rule: less_induct)
  case less
  obtain r1 w1 where r: "recv_frame E t False w = (r1, w1)" by (metis surj_pair)
  note w1 = recv_frame_keeps [OF r less.prems(2)]
  show ?case
  proof (cases r1)
    case (Recv_Frame f)
    obtain st w2 where d: "drain_payload E (unat (f_plen f)) TIMEOUT_TEARDOWN w1 = (st, w2)" by (metis surj_pair)
    note w2 = drain_payload_keeps [OF d w1]
    show ?thesis
      using less.prems(1) less.hyps [of "skipped + 1" TIMEOUT_TEARDOWN w2] r d w1 w2
      by (auto simp: await_ack.simps [of E c t skipped w] Recv_Frame split: if_splits)
  qed (use less.prems(1) r w1 in \<open>simp_all add: await_ack.simps [of E c t skipped w]\<close>)
qed

lemma command_keeps: "command E c payload n w = (r, w') \<Longrightarrow> P w \<Longrightarrow> P w'"
  by (auto simp: command_def Let_def intro: drain_payload_snd split: if_splits prod.splits sum.splits option.splits
      dest: send_frame_keeps await_ack_keeps drain_payload_keeps usb_read_keeps)

lemmas link_keeps = send_frame_keeps recv_frame_keeps drain_payload_keeps usb_read_keeps command_keeps keep_alloc

text \<open>The lock and the queue.\<close>

lemma unlock_device_keeps: "unlock_device E h w = (h', w') \<Longrightarrow> P w \<Longrightarrow> P w'"
  by (auto simp: unlock_device_def Let_def intro: drain_payload_snd split: if_splits prod.splits recv_result.splits
      dest: send_frame_keeps recv_frame_keeps)

lemma unlock_device_snd: "P w \<Longrightarrow> P (snd (unlock_device E h w))"
  by (metis unlock_device_keeps prod.collapse)

lemma out_reserve_keeps: "out_reserve E n h w = (st, h', w') \<Longrightarrow> P w \<Longrightarrow> P w'"
  by (auto simp: out_reserve_def Let_def split: if_splits prod.splits dest: keep_alloc)

lemma emit_white_rows_keeps: "emit_white_rows E until h w = (st, h', w') \<Longrightarrow> P w \<Longrightarrow> P w'"
proof (induction "nat (until - h_next_row h)" arbitrary: h w rule: less_induct)
  case less
  show ?case
  proof (cases "h_next_row h < until \<and> h_next_row h < p_lines (h_params h)")
    case False
    with less.prems show ?thesis by (simp add: emit_white_rows.simps [of E until h w])
  next
    case True
    obtain st1 h1 w1 where o: "out_reserve E (nat (p_bytes_per_line (h_params h))) h w = (st1, h1, w1)" by (metis surj_pair)
    note w1 = out_reserve_keeps [OF o less.prems(2)]
    define h2 where "h2 = (let h2 = out_put (white_row (h_params h1)) h1 in h2\<lparr>h_next_row := h_next_row h2 + 1\<rparr>)"
    have "h_next_row h2 = h_next_row h + 1"
      using out_reserve_frame(2) [OF o] by (simp add: h2_def out_put_def)
    with True have "nat (until - h_next_row h2) < nat (until - h_next_row h)" by simp
    from less.hyps [OF this _ w1] less.prems(1) o w1 True show ?thesis
      by (simp add: emit_white_rows.simps [of E until h w] h2_def Let_def split: if_splits)
  qed
qed

lemma data_rows_keeps: "data_rows E dm first stride avail is h w = (st, h', w') \<Longrightarrow> P w \<Longrightarrow> P w'"
proof (induction "is" arbitrary: h w)
  case (Cons i "is")
  obtain st1 h1 w1 where o: "out_reserve E (nat (p_bytes_per_line (h_params h))) h w = (st1, h1, w1)" by (metis surj_pair)
  note w1 = out_reserve_keeps [OF o Cons.prems(2)]
  from Cons.prems o w1 show ?case
    by (auto simp: Let_def split: if_splits dest: Cons.IH)
qed simp

lemma store_block_keeps: "store_block E dm first rows stride avail body h w = (st, h', w') \<Longrightarrow> P w \<Longrightarrow> P w'"
  by (auto simp: store_block_def Let_def intro: drain_payload_snd split: if_splits prod.splits
      dest: keep_alloc usb_read_keeps emit_white_rows_keeps data_rows_keeps)

lemma handle_data_block_keeps: "handle_data_block E dm plen h w = (st, h', w') \<Longrightarrow> P w \<Longrightarrow> P w'"
  by (auto simp: handle_data_block_def Let_def intro: drain_payload_snd split: if_splits prod.splits
      dest: usb_read_keeps store_block_keeps)

lemmas page_keeps = unlock_device_keeps emit_white_rows_keeps handle_data_block_keeps

text \<open>The job.\<close>

lemma log_settings_echo_keeps: "log_settings_echo E dbg plen w = (st, w') \<Longrightarrow> P w \<Longrightarrow> P w'"
  by (auto simp: log_settings_echo_def split: if_splits prod.splits dest: link_keeps)

lemma pump_frame_keeps: "pump_frame E dm dbg probe want h w = (r, h', w') \<Longrightarrow> P w \<Longrightarrow> P w'"
proof -
  assume run: "pump_frame E dm dbg probe want h w = (r, h', w')" and w: "P w"
  obtain r1 w1 where f: "recv_frame E TIMEOUT_READ probe w = (r1, w1)" by (metis surj_pair)
  note w1 = recv_frame_keeps [OF f w]
  show "P w'"
  proof (cases r1)
    case (Recv_Frame fr)
    obtain st w2 where d: "drain_payload E (unat (f_plen fr)) TIMEOUT_READ w1 = (st, w2)" by (metis surj_pair)
    note w2 = drain_payload_keeps [OF d w1]
    show ?thesis
      using run f d w1 w2
      by (auto simp: pump_frame_def Recv_Frame split: if_splits prod.splits dest: page_keeps log_settings_echo_keeps)
  qed (use run f w1 in \<open>simp_all add: pump_frame_def\<close>)
qed

lemma lock_tries_keeps: "lock_tries E k h w = (st, h', w') \<Longrightarrow> P w \<Longrightarrow> P w'"
proof (induction k arbitrary: h w)
  case 0
  then show ?case by (auto split: prod.splits dest: unlock_device_keeps)
next
  case (Suc k)
  obtain r w1 where c: "command E CMD_LOCK [] None w = (r, w1)" by (metis surj_pair)
  note w1 = command_keeps [OF c Suc.prems(2)]
  show ?case
    using Suc.prems(1) Suc.IH [OF _ sleep_ms_keeps [OF w1]] c w1
    by (auto simp: Let_def split: if_splits prod.splits dest: unlock_device_keeps)
qed

lemma lock_device_keeps: "lock_device E h w = (st, h', w') \<Longrightarrow> P w \<Longrightarrow> P w'"
  by (auto simp: lock_device_def dest: lock_tries_keeps)

lemma check_adf_keeps: "check_adf E w = (r, w') \<Longrightarrow> P w \<Longrightarrow> P w'"
  by (auto simp: check_adf_def Let_def intro: drain_payload_snd split: if_splits prod.splits recv_result.splits
      dest: send_frame_keeps recv_frame_keeps)

lemma probe_adf_keeps: "probe_adf E h w = (h', w') \<Longrightarrow> P w \<Longrightarrow> P w'"
  by (auto simp: probe_adf_def Let_def split: if_splits prod.splits dest: command_keeps check_adf_keeps unlock_device_keeps)

lemma setup_job_keeps: "setup_job E h w = (st, w') \<Longrightarrow> P w \<Longrightarrow> P w'"
proof -
  assume run: "setup_job E h w = (st, w')" and w: "P w"
  obtain r1 w1 where 1: "command E CMD_SET_DEFAULTS [] None w = (r1, w1)" by (metis surj_pair)
  obtain r2 w2 where 2: "command E CMD_GET_SETTINGS [] (Some PANTUM_SETTINGS_LEN) w1 = (r2, w2)" by (metis surj_pair)
  obtain r3 w3 where 3: "command E CMD_SET_SETTINGS (job_settings h (c_reply r2)) None w2 = (r3, w3)" by (metis surj_pair)
  obtain r4 w4 where 4: "command E CMD_START [] None w3 = (r4, w4)" by (metis surj_pair)
  note w1 = command_keeps [OF 1 w]
  note w2 = command_keeps [OF 2 w1]
  note w3 = command_keeps [OF 3 w2]
  note w4 = command_keeps [OF 4 w3]
  show "P w'" using run 1 2 3 4 w1 w2 w3 w4 by (simp add: setup_job_def split: if_splits)
qed

lemma await_first_rows_keeps: "await_first_rows E dm dbg ab h w = Some (r, h', w') \<Longrightarrow> P w \<Longrightarrow> P w'"
proof -
  have "await_first_rows E' dm dbg ab h w = Some y \<Longrightarrow> E' = E \<Longrightarrow> P w \<Longrightarrow> P (snd (snd y))" for E' y
  proof (induction E' dm dbg ab h w y rule: await_first_rows.raw_induct [rotated, consumes 1, case_names step])
    case (step await E' dm dbg ab h w y)
    obtain r h1 w1 where p: "pump_frame E dm dbg False True h w = (r, h1, w1)" by (rule prod_cases3)
    note w1 = pump_frame_keeps [OF p step.prems(2)]
    show ?case
      using step.hyps step.prems p w1 step.IH [of E' dm dbg "pr_aborted r" h1 w1 y]
      by (auto split: if_splits prod.splits intro: unlock_device_snd)
  qed
  from this [of E "(r, h', w')"] show "await_first_rows E dm dbg ab h w = Some (r, h', w') \<Longrightarrow> P w \<Longrightarrow> P w'"
    by simp
qed

lemma run_job_keeps: "run_job E dm dbg h w = Some (r, h', w') \<Longrightarrow> P w \<Longrightarrow> P w'"
  by (auto simp: run_job_def Let_def split: if_splits prod.splits
      dest: lock_device_keeps check_adf_keeps setup_job_keeps unlock_device_keeps await_first_rows_keeps)

lemma resume_job_keeps: "resume_job E dm dbg h w = Some (st, h', w') \<Longrightarrow> P w \<Longrightarrow> P w'"
  by (auto simp: resume_job_def Let_def split: option.splits dest: await_first_rows_keeps)

lemma abort_loop_keeps: "P w \<Longrightarrow> P (abort_loop E k w)"
proof (induction k arbitrary: w)
  case (Suc k)
  then show ?case by (auto split: prod.splits recv_result.splits dest: recv_frame_keeps drain_payload_keeps)
qed simp

lemma end_scan_keeps: "end_scan E h w = (h', w') \<Longrightarrow> P w \<Longrightarrow> P w'"
  by (auto simp: end_scan_def intro: abort_loop_keeps split: if_splits prod.splits
      dest: send_frame_keeps unlock_device_keeps [OF _ abort_loop_keeps] unlock_device_keeps)

section \<open>Whole calls\<close>

lemma pantum_strdup_keeps: "pantum_strdup E x w = (r, w') \<Longrightarrow> P w \<Longrightarrow> P w'"
  by (auto simp: pantum_strdup_def split: option.splits prod.splits if_splits dest: keep_alloc)

lemma open_handle_keeps: "open_handle E w = (h, w') \<Longrightarrow> P w \<Longrightarrow> P w'"
  by (auto simp: open_handle_def init_options_def Let_def split: prod.splits
      dest: probe_adf_keeps [OF _ flush_input_keeps] pantum_strdup_keeps)

lemma build_dither_mask_keeps: "build_dither_mask F E dm w = Some (r, w') \<Longrightarrow> P w \<Longrightarrow> P w'"
  by (auto simp: build_dither_mask_def Let_def split: option.splits prod.splits if_splits dest: keep_alloc)

lemma start_tries_keeps: "start_tries E dm dbg k h w = Some (st, h', w') \<Longrightarrow> P w \<Longrightarrow> P w'"
proof (induction k arbitrary: h w)
  case (Suc k)
  from Suc.prems show ?case
    by (auto split: option.splits prod.splits if_splits dest: run_job_keeps Suc.IH [OF _ sleep_ms_keeps])
qed simp

lemma start_new_job_keeps: "start_new_job F E dbg dm h w = Some (r, h', w') \<Longrightarrow> P w \<Longrightarrow> P w'"
  by (auto simp: start_new_job_def Let_def split: option.splits prod.splits if_splits
      dest: build_dither_mask_keeps start_tries_keeps)

lemma sane_start_keeps: "sane_start F E dbg dm h w = Some (r, h', w') \<Longrightarrow> P w \<Longrightarrow> P w'"
  by (auto simp: sane_start_def split: option.splits prod.splits if_splits
      dest: end_scan_keeps resume_job_keeps start_new_job_keeps)

lemma read_pump_keeps: "read_pump E dm dbg h w = Some (r, h', w') \<Longrightarrow> P w \<Longrightarrow> P w'"
proof -
  have "read_pump E' dm dbg h w = Some y \<Longrightarrow> E' = E \<Longrightarrow> P w \<Longrightarrow> P (snd (snd y))" for E' y
  proof (induction E' dm dbg h w y rule: read_pump.raw_induct [rotated, consumes 1, case_names step])
    case (step read E' dm dbg h w y)
    obtain r h1 w1 where p: "pump_frame E dm dbg (h_non_blocking h) False h w = (r, h1, w1)" by (rule prod_cases3)
    note w1 = pump_frame_keeps [OF p step.prems(2)]
    show ?case
      using step.hyps step.prems p w1 step.IH [of E' dm dbg h1 w1 y]
      by (auto split: if_splits prod.splits intro: unlock_device_snd)
  qed
  from this [of E "(r, h', w')"] show "read_pump E dm dbg h w = Some (r, h', w') \<Longrightarrow> P w \<Longrightarrow> P w'"
    by simp
qed

lemma sane_read_keeps: "sane_read E dbg dm n h w = Some (r, h', w') \<Longrightarrow> P w \<Longrightarrow> P w'"
  by (auto simp: sane_read_def Let_def split: option.splits prod.splits if_splits dest: end_scan_keeps read_pump_keeps)

lemma control_option_keeps: "control_option E h i action v w = (r, h', w') \<Longrightarrow> P w \<Longrightarrow> P w'"
proof -
  have "set_string E h opt want w = (r1, h1, w1) \<Longrightarrow> P w \<Longrightarrow> P w1" for opt want r1 h1 w1
    by (auto simp: set_string_def Let_def split: sane_constraint.splits option.splits prod.splits if_splits dest: pantum_strdup_keeps)
  then show "control_option E h i action v w = (r, h', w') \<Longrightarrow> P w \<Longrightarrow> P w'"
    by (auto simp: control_option_def split: option.splits if_splits sane_action.splits prod.splits)
qed

text \<open>All the calls that go to the device or the allocator; \<open>device\<close> steps of \<open>api_step\<close> are the
  world's own.\<close>

lemmas call_keeps = open_handle_keeps sane_start_keeps sane_read_keeps control_option_keeps end_scan_keeps

end

end
