(* ===== verification/Backend_Laws.thy ===== *)
theory Backend_Laws
  imports Backend Session_World "HOL-Library.Multiset"
begin

text \<open>
  The life of the backend: which devices and handles are alive, who owns what, over every history
  of calls from start to end.
\<close>

section \<open>Who owns what\<close>

text \<open>\<open>handles_ok\<close> is about the store alone: exactly the listed devices and handles are alive, an
  open handle points at a listed device, no two at the same, and a device is marked busy exactly
  if a handle points at it.\<close>

definition owned :: "backend \<Rightarrow> nat \<Rightarrow> bool" where
  "owned b a \<longleftrightarrow> (\<exists>x oh. b_handle b x = Some oh \<and> oh_dev oh = a)"

definition handles_ok :: "backend \<Rightarrow> bool" where
  "handles_ok b \<longleftrightarrow> \<not> b_fault b
     \<and> distinct (b_devs b) \<and> distinct (b_handles b)
     \<and> (\<forall>a. b_dev b a \<noteq> None \<longleftrightarrow> a \<in> set (b_devs b)) \<and> (\<forall>x. b_handle b x \<noteq> None \<longleftrightarrow> x \<in> set (b_handles b))
     \<and> (\<forall>a \<in> set (b_devs b). a < b_next b) \<and> (\<forall>x \<in> set (b_handles b). x < b_next b)
     \<and> (\<forall>x oh. b_handle b x = Some oh \<longrightarrow> oh_dev oh \<in> set (b_devs b))
     \<and> (\<forall>x y oh oh'. b_handle b x = Some oh \<and> b_handle b y = Some oh' \<and> oh_dev oh = oh_dev oh' \<longrightarrow> x = y)
     \<and> (\<forall>a d. b_dev b a = Some d \<longrightarrow> (d_busy d \<longleftrightarrow> owned b a))"

definition sessions_ok :: "backend \<Rightarrow> bool" where
  "sessions_ok b \<longleftrightarrow> (\<forall>x oh. b_handle b x = Some oh \<longrightarrow> session_ok (oh_h oh))"

definition lists_ok :: "backend \<Rightarrow> bool" where
  "lists_ok b \<longleftrightarrow> (b_ptrs b = Some (b_devs b) \<or> b_devs b = [] \<and> b_ptrs b = None)
     \<and> (\<not> b_initialised b \<longrightarrow> b_devs b = [] \<and> b_handles b = [] \<and> b_ptrs b = None \<and> b_ids b = [])"

definition backend_ok :: "backend \<Rightarrow> bool" where
  "backend_ok b \<longleftrightarrow> handles_ok b \<and> sessions_ok b \<and> lists_ok b"

lemma no_backend_ok: "backend_ok no_backend"
  by (simp add: backend_ok_def handles_ok_def sessions_ok_def lists_ok_def no_backend_def)

lemma handles_okD:
  assumes "handles_ok b"
  shows "\<not> b_fault b" "distinct (b_devs b)" "distinct (b_handles b)" "b_dev b a \<noteq> None \<longleftrightarrow> a \<in> set (b_devs b)"
    "b_handle b x \<noteq> None \<longleftrightarrow> x \<in> set (b_handles b)" "a \<in> set (b_devs b) \<Longrightarrow> a < b_next b"
    "x \<in> set (b_handles b) \<Longrightarrow> x < b_next b" "b_handle b x = Some oh \<Longrightarrow> oh_dev oh \<in> set (b_devs b)"
    "b_handle b x = Some oh \<Longrightarrow> b_handle b y = Some oh' \<Longrightarrow> oh_dev oh = oh_dev oh' \<Longrightarrow> x = y"
    "b_dev b a = Some d \<Longrightarrow> d_busy d \<longleftrightarrow> owned b a"
  using assms unfolding handles_ok_def by blast+

text \<open>Without open handles the device list may go, and new devices may come.\<close>

lemma free_devices_ok: "handles_ok b \<Longrightarrow> b_handles b = [] \<Longrightarrow> handles_ok (free_devices b)"
  by (auto simp: handles_ok_def free_devices_def owned_def)

lemma push_device_ok: "handles_ok b \<Longrightarrow> b_handles b = [] \<Longrightarrow> \<not> d_busy d \<Longrightarrow> handles_ok (push_device d b)"
  unfolding handles_ok_def push_device_def owned_def by (auto simp: less_Suc_eq)

lemma probe_loop_ok:
  "probe_loop U us b w = (b', w') \<Longrightarrow> handles_ok b \<Longrightarrow> b_handles b = [] \<Longrightarrow>
   handles_ok b' \<and> b_handles b' = [] \<and> b_handle b' = b_handle b \<and> b_ids b' = b_ids b \<and> b_ptrs b' = b_ptrs b
     \<and> b_initialised b' = b_initialised b"
proof (induction us arbitrary: b w)
  case Nil
  then show ?case by simp
next
  case (Cons u us)
  have push: "handles_ok (push_device d b) \<and> b_handles (push_device d b) = [] \<and> b_handle (push_device d b) = b_handle b
      \<and> b_ids (push_device d b) = b_ids b \<and> b_ptrs (push_device d b) = b_ptrs b \<and> b_initialised (push_device d b) = b_initialised b"
    if "\<not> d_busy d" for d
    using push_device_ok [OF Cons.prems(2,3) that] Cons.prems(3) by (simp add: push_device_def)
  show ?case
    using Cons.prems Cons.IH [OF _ push [THEN conjunct1] push [THEN conjunct2, THEN conjunct1]] Cons.IH [of b] push
    by (auto split: option.splits prod.splits if_splits)
qed

lemma listed_handle:
  assumes "handles_ok b" "b_handles b \<noteq> []"
  shows "b_devs b \<noteq> []"
proof -
  obtain x where "x \<in> set (b_handles b)" using assms(2) by (cases "b_handles b") auto
  then obtain oh where "b_handle b x = Some oh" using handles_okD(5) [OF assms(1)] by blast
  with handles_okD(8) [OF assms(1)] show ?thesis by fastforce
qed

lemma probe_devices_ok:
  assumes run: "probe_devices U b w = (st, b', w')" and ok: "backend_ok b" and mem: "alloc_grants (us_heap U)"
    and init: "b_initialised b"
  shows "backend_ok b' \<and> b_initialised b'"
proof (cases "b_handles b \<noteq> [] \<and> b_ptrs b \<noteq> None")
  case True
  with run ok init show ?thesis by (simp add: probe_devices_def)
next
  case False
  then have h: "b_handles b = []"
    using listed_handle [of b] ok by (auto simp: backend_ok_def lists_ok_def)
  have none: "b_handle b = (\<lambda>_. None)"
    using ok h handles_okD(5) [of b] by (auto simp: backend_ok_def fun_eq_iff)
  define b1 where "b1 = free_devices b"
  have b1: "handles_ok b1" "b_handles b1 = []" "b_handle b1 = (\<lambda>_. None)" "b_initialised b1" "b_devs b1 = []" "b_ptrs b1 = None"
    using free_devices_ok [of b] ok h none init by (simp_all add: b1_def backend_ok_def free_devices_def)
  obtain l w1 where l: "us_list U w = (l, w1)" by (metis surj_pair)
  show ?thesis
  proof (cases l)
    case None
    with run l False have "b' = b1" by (auto simp: probe_devices_def Let_def b1_def)
    with b1 show ?thesis by (simp add: backend_ok_def sessions_ok_def lists_ok_def)
  next
    case (Some devs)
    obtain b2 w2 where p: "probe_loop U devs b1 w1 = (b2, w2)" by (metis surj_pair)
    note b2 = probe_loop_ok [OF p b1(1,2)]
    have "fst (alloc_ok (us_heap U) ((length (b_devs b2) + 1) * 8) w2)" using mem by (simp add: alloc_grants_def)
    with run l Some p False have "b' = b2\<lparr>b_ptrs := Some (b_devs b2)\<rparr>"
      by (auto simp: probe_devices_def Let_def b1_def split: prod.splits)
    with b1 b2 show ?thesis
      by (auto simp: backend_ok_def sessions_ok_def lists_ok_def handles_ok_def owned_def)
  qed
qed

text \<open>The fields the store does not depend on.\<close>

lemma handles_ok_frame [simp]:
  "handles_ok (b\<lparr>b_initialised := i\<rparr>) = handles_ok b" "handles_ok (b\<lparr>b_ctx := c\<rparr>) = handles_ok b"
  "handles_ok (b\<lparr>b_ids := ids\<rparr>) = handles_ok b" "handles_ok (b\<lparr>b_ptrs := p\<rparr>) = handles_ok b"
  by (simp_all add: handles_ok_def owned_def)

lemma sane_init_ok:
  assumes run: "sane_init U b w = (st, b', w')" and ok: "backend_ok b"
  shows "backend_ok b'"
proof (cases "b_initialised b")
  case True
  with run ok show ?thesis by (simp add: sane_init_def)
next
  case False
  define b1 where "b1 = b\<lparr>b_ctx := False\<rparr>"
  have b1: "b\<lparr>b_ids := [], b_devs := [], b_ptrs := None, b_handles := [], b_ctx := False\<rparr> = b1"
    using ok False by (cases b) (simp add: backend_ok_def lists_ok_def b1_def)
  have ok1: "handles_ok b1" "sessions_ok b1" "lists_ok b1"
    using ok by (simp_all add: b1_def backend_ok_def sessions_ok_def lists_ok_def)
  have ids: "b_ids b1 = []" "b_devs b1 = []" "b_ptrs b1 = None"
    using ok False by (simp_all add: b1_def backend_ok_def lists_ok_def)
  obtain rc w1 where i: "us_init U w = (rc, w1)" by (metis surj_pair)
  show ?thesis
  proof (cases "rc = LIBUSB_SUCCESS")
    case False
    with run \<open>\<not> b_initialised b\<close> b1 i have "b' = b1" by (simp add: sane_init_def)
    with ok1 show ?thesis by (simp add: backend_ok_def)
  next
    case True
    obtain new w2 where r: "read_config (us_sys U) (us_heap U) [] w1 = (new, w2)" by (metis surj_pair)
    have "b' = b1\<lparr>b_ctx := True, b_ids := new, b_initialised := True\<rparr>"
      using run False True i r ids by (simp add: sane_init_def b1)
    with ok1 ids show ?thesis by (simp add: backend_ok_def sessions_ok_def lists_ok_def)
  qed
qed

section \<open>Closing\<close>

text \<open>What closing a handle does to the store.\<close>

definition closed :: "nat \<Rightarrow> handle_node \<Rightarrow> backend \<Rightarrow> backend" where
  "closed x oh b = b\<lparr>b_handles := remove1 x (b_handles b), b_handle := (b_handle b)(x := None),
     b_dev := (b_dev b)(oh_dev oh := map_option (\<lambda>d. d\<lparr>d_busy := False\<rparr>) (b_dev b (oh_dev oh)))\<rparr>"

lemma closed_ok:
  assumes ok: "handles_ok b" and x: "b_handle b x = Some oh"
  shows "handles_ok (closed x oh b)"
proof -
  have e: "b_dev (closed x oh b) a = (if a = oh_dev oh then map_option (\<lambda>d. d\<lparr>d_busy := False\<rparr>) (b_dev b a) else b_dev b a)"
    "b_handle (closed x oh b) y = (if y = x then None else b_handle b y)"
    "b_handles (closed x oh b) = remove1 x (b_handles b)" "b_devs (closed x oh b) = b_devs b"
    "b_next (closed x oh b) = b_next b" "b_fault (closed x oh b) = b_fault b" for a y
    by (simp_all add: closed_def)
  have o: "owned (closed x oh b) a \<longleftrightarrow> owned b a \<and> a \<noteq> oh_dev oh" for a
  proof
    assume "owned (closed x oh b) a"
    then obtain y oh' where "b_handle b y = Some oh'" "oh_dev oh' = a" "y \<noteq> x" by (auto simp: owned_def e split: if_splits)
    with handles_okD(9) [OF ok this(1) x] show "owned b a \<and> a \<noteq> oh_dev oh" by (auto simp: owned_def)
  next
    assume "owned b a \<and> a \<noteq> oh_dev oh"
    then obtain y oh' where "b_handle b y = Some oh'" "oh_dev oh' = a" "a \<noteq> oh_dev oh" by (auto simp: owned_def)
    with x show "owned (closed x oh b) a" by (auto simp: owned_def e intro!: exI [of _ y])
  qed
  have busy: "d_busy d \<longleftrightarrow> owned (closed x oh b) a" if "b_dev (closed x oh b) a = Some d" for a d
  proof (cases "a = oh_dev oh")
    case True
    then show ?thesis using that by (auto simp: o e)
  next
    case False
    then show ?thesis using that handles_okD(10) [OF ok, of a d] by (simp add: o e)
  qed
  have live: "b_dev (closed x oh b) a \<noteq> None \<longleftrightarrow> a \<in> set (b_devs b)"
    "b_handle (closed x oh b) y \<noteq> None \<longleftrightarrow> y \<in> set (remove1 x (b_handles b))" for a y
    using handles_okD(3) [OF ok] handles_okD(4) [OF ok, of a] handles_okD(5) [OF ok, of y]
    by (cases "a = oh_dev oh"; simp add: e)+
  have point: "oh_dev oh' \<in> set (b_devs b)" if "b_handle (closed x oh b) y = Some oh'" for y oh'
    using that handles_okD(8) [OF ok, of y oh'] by (simp add: e split: if_splits)
  have one: "y = z" if "b_handle (closed x oh b) y = Some oh'" "b_handle (closed x oh b) z = Some oh''"
      "oh_dev oh' = oh_dev oh''" for y z oh' oh''
    using that handles_okD(9) [OF ok, of y oh' z oh''] by (simp add: e split: if_splits)
  show ?thesis
    unfolding handles_ok_def e(3-6)
  proof (intro conjI allI impI ballI)
    show "\<not> b_fault b" "distinct (b_devs b)" "distinct (remove1 x (b_handles b))"
      using handles_okD(1-3) [OF ok] by simp_all
    show "(b_dev (closed x oh b) a \<noteq> None) = (a \<in> set (b_devs b))" for a by (rule live)
    show "(b_handle (closed x oh b) y \<noteq> None) = (y \<in> set (remove1 x (b_handles b)))" for y by (rule live)
    show "a < b_next b" if "a \<in> set (b_devs b)" for a using that by (rule handles_okD(6) [OF ok])
    show "y < b_next b" if "y \<in> set (remove1 x (b_handles b))" for y
      using that handles_okD(7) [OF ok] set_remove1_subset [of x "b_handles b"] by blast
  qed (use point one busy in blast)+
qed

lemma free_handle_closed:
  assumes "handles_ok b" "b_handle b x = Some oh" "oh_dev oh' = oh_dev oh"
  shows "fst (free_handle U x oh' (b\<lparr>b_handles := remove1 x (b_handles b)\<rparr>) w) = closed x oh b"
    "(fst (free_handle U x oh' b w))\<lparr>b_handles := remove1 x (b_handles b)\<rparr> = closed x oh b"
proof -
  obtain d where "b_dev b (oh_dev oh) = Some d"
    using handles_okD(4,8) [OF assms(1)] assms(2) by blast
  with assms(3) show "fst (free_handle U x oh' (b\<lparr>b_handles := remove1 x (b_handles b)\<rparr>) w) = closed x oh b"
    "(fst (free_handle U x oh' b w))\<lparr>b_handles := remove1 x (b_handles b)\<rparr> = closed x oh b"
    by (simp_all add: free_handle_def set_busy_def closed_def Let_def)
qed

lemma closed_frame [simp]:
  "b_devs (closed x oh b) = b_devs b" "b_ptrs (closed x oh b) = b_ptrs b" "b_initialised (closed x oh b) = b_initialised b"
  "b_ids (closed x oh b) = b_ids b" "b_handles (closed x oh b) = remove1 x (b_handles b)" "b_ctx (closed x oh b) = b_ctx b"
  by (simp_all add: closed_def)

lemma closed_backend_ok:
  assumes "backend_ok b" "b_handle b x = Some oh"
  shows "backend_ok (closed x oh b)"
  using assms closed_ok [of b x oh]
  by (auto simp: backend_ok_def sessions_ok_def lists_ok_def) (auto simp: closed_def split: if_splits)

lemma sane_close_ok:
  assumes run: "sane_close U x b w = (b', w')" and ok: "backend_ok b"
  shows "backend_ok b'"
proof (cases "handle_is_valid b x")
  case False
  with run ok show ?thesis by (simp add: sane_close_def)
next
  case True
  then obtain oh where x: "b_handle b x = Some oh"
    using ok handles_okD(5) [of b x] by (auto simp: backend_ok_def handle_is_valid_def)
  obtain h w1 where e: "end_scan (us_link U (oh_usb oh)) (oh_h oh) w = (h, w1)" by (metis surj_pair)
  have "b' = closed x oh b"
    using run True x e free_handle_closed(1) [of b x oh "oh\<lparr>oh_h := h\<rparr>" U w1] ok
    by (simp add: sane_close_def backend_ok_def)
  with closed_backend_ok [OF ok x] show ?thesis by simp
qed

lemma exit_handles_ok:
  "exit_handles U xs b w = (b', w') \<Longrightarrow> backend_ok b \<Longrightarrow> b_handles b = xs \<Longrightarrow>
   backend_ok b' \<and> b_handles b' = []"
proof (induction xs arbitrary: b w)
  case Nil
  then show ?case by simp
next
  case (Cons x xs)
  then obtain oh where x: "b_handle b x = Some oh"
    using handles_okD(5) [of b x] by (auto simp: backend_ok_def)
  obtain h w1 where e: "end_scan (us_link U (oh_usb oh)) (oh_h oh) w = (h, w1)" by (metis surj_pair)
  obtain b1 w2 where f: "free_handle U x (oh\<lparr>oh_h := h\<rparr>) b w1 = (b1, w2)" by (metis surj_pair)
  have b1: "b1\<lparr>b_handles := xs\<rparr> = closed x oh b"
    using free_handle_closed(2) [of b x oh "oh\<lparr>oh_h := h\<rparr>" U w1] Cons.prems(2,3) x f by (simp add: backend_ok_def)
  with Cons.prems(1) x e f have "exit_handles U xs (closed x oh b) w2 = (b', w')" by simp
  from Cons.IH [OF this closed_backend_ok [OF Cons.prems(2) x]] Cons.prems(3) show ?case by simp
qed

lemma sane_exit_ok:
  assumes run: "sane_exit U b w = (b', w')" and ok: "backend_ok b"
  shows "backend_ok b'" "b_initialised b \<Longrightarrow> b_dev b' = (\<lambda>_. None) \<and> b_handle b' = (\<lambda>_. None) \<and> \<not> b_ctx b'"
proof -
  have "backend_ok b' \<and> (b_initialised b \<longrightarrow> b_dev b' = (\<lambda>_. None) \<and> b_handle b' = (\<lambda>_. None) \<and> \<not> b_ctx b')"
  proof (cases "b_initialised b")
    case False
    with run ok show ?thesis by (simp add: sane_exit_def)
  next
    case True
    obtain b1 w1 where e: "exit_handles U (b_handles b) b w = (b1, w1)" by (metis surj_pair)
    note b1 = exit_handles_ok [OF e ok refl]
    then have none: "b_handle b1 = (\<lambda>_. None)" using handles_okD(5) [of b1] by (auto simp: backend_ok_def fun_eq_iff)
    have dev: "b_dev (free_devices b1) = (\<lambda>_. None)"
    proof
      fix a
      show "b_dev (free_devices b1) a = None"
        using b1 handles_okD(4) [of b1 a] by (cases "b_dev b1 a") (auto simp: backend_ok_def free_devices_def)
    qed
    have "b' = (free_devices b1)\<lparr>b_ids := [], b_ctx := False, b_initialised := False\<rparr>"
      using run True e by (simp add: sane_exit_def free_ids_def Let_def)
    moreover have "handles_ok (free_devices b1)" using free_devices_ok b1 by (simp add: backend_ok_def)
    ultimately show ?thesis
      using none dev b1 by (auto simp: backend_ok_def sessions_ok_def lists_ok_def handles_ok_def owned_def free_devices_def)
  qed
  then show "backend_ok b'" "b_initialised b \<Longrightarrow> b_dev b' = (\<lambda>_. None) \<and> b_handle b' = (\<lambda>_. None) \<and> \<not> b_ctx b'" by blast+
qed

section \<open>Opening\<close>

text \<open>What opening a device does to the store.\<close>

definition opened :: "nat \<Rightarrow> handle_node \<Rightarrow> backend \<Rightarrow> backend" where
  "opened a oh b = (set_busy a True b)\<lparr>b_handle := (b_handle b)(b_next b := Some oh),
     b_handles := b_next b # b_handles b, b_next := b_next b + 1\<rparr>"

lemma opened_ok:
  assumes ok: "handles_ok b" and d: "b_dev b a = Some d" "\<not> d_busy d" and oh: "oh_dev oh = a"
  shows "handles_ok (opened a oh b)"
proof -
  have a: "a \<in> set (b_devs b)" using handles_okD(4) [OF ok, of a] d(1) by simp
  have free: "\<not> owned b a" using handles_okD(10) [OF ok d(1)] d(2) by simp
  have new: "b_next b \<notin> set (b_handles b)" "b_handle b (b_next b) = None"
    using handles_okD(7) [OF ok, of "b_next b"] handles_okD(5) [OF ok, of "b_next b"] by auto
  have e: "b_dev (opened a oh b) c = (if c = a then Some (d\<lparr>d_busy := True\<rparr>) else b_dev b c)"
    "b_handle (opened a oh b) y = (if y = b_next b then Some oh else b_handle b y)"
    "b_handles (opened a oh b) = b_next b # b_handles b" "b_devs (opened a oh b) = b_devs b"
    "b_next (opened a oh b) = b_next b + 1" "b_fault (opened a oh b) = b_fault b" for c y
    using d by (simp_all add: opened_def set_busy_def)
  have o: "owned (opened a oh b) c \<longleftrightarrow> owned b c \<or> c = a" for c
  proof
    assume "owned (opened a oh b) c"
    then show "owned b c \<or> c = a" using oh by (auto simp: owned_def e split: if_splits)
  next
    assume "owned b c \<or> c = a"
    then show "owned (opened a oh b) c"
    proof
      assume "owned b c"
      then obtain y oh' where y: "b_handle b y = Some oh'" "oh_dev oh' = c" by (auto simp: owned_def)
      then have "y \<noteq> b_next b" using new by auto
      with y show ?thesis by (auto simp: owned_def e intro!: exI [of _ y])
    qed (use oh in \<open>auto simp: owned_def e intro!: exI [of _ "b_next b"]\<close>)
  qed
  have one: "y = z" if "b_handle (opened a oh b) y = Some oh'" "b_handle (opened a oh b) z = Some oh''"
      "oh_dev oh' = oh_dev oh''" for y z oh' oh''
  proof -
    have no: "b_handle b x = Some k \<Longrightarrow> oh_dev k \<noteq> a" for x k using free by (auto simp: owned_def)
    show ?thesis
    proof (cases "y = b_next b \<or> z = b_next b")
      case True
      with that no [of y oh'] no [of z oh''] oh show ?thesis by (auto simp: e split: if_splits)
    next
      case False
      with that handles_okD(9) [OF ok, of y oh' z oh''] show ?thesis by (simp add: e)
    qed
  qed
  show ?thesis
    unfolding handles_ok_def e(3-6)
  proof (intro conjI allI impI ballI)
    show "\<not> b_fault b" "distinct (b_devs b)" "distinct (b_next b # b_handles b)"
      using handles_okD(1-3) [OF ok] new by simp_all
    show "(b_dev (opened a oh b) c \<noteq> None) = (c \<in> set (b_devs b))" for c
      using handles_okD(4) [OF ok, of c] a by (cases "c = a"; simp add: e)
    show "(b_handle (opened a oh b) y \<noteq> None) = (y \<in> set (b_next b # b_handles b))" for y
      using handles_okD(5) [OF ok, of y] by (cases "y = b_next b"; simp add: e)
    show "c < b_next b + 1" if "c \<in> set (b_devs b)" for c using handles_okD(6) [OF ok that] by simp
    show "y < b_next b + 1" if "y \<in> set (b_next b # b_handles b)" for y
      using handles_okD(7) [OF ok, of y] that by auto
    show "oh_dev oh' \<in> set (b_devs b)" if "b_handle (opened a oh b) y = Some oh'" for y oh'
      using that handles_okD(8) [OF ok, of y oh'] a oh by (simp add: e split: if_splits)
    show "d_busy d' = owned (opened a oh b) c" if "b_dev (opened a oh b) c = Some d'" for c d'
      using that handles_okD(10) [OF ok, of c d'] by (auto simp: e o split: if_splits)
  qed (use one in blast)
qed

lemma opened_backend_ok:
  assumes ok: "backend_ok b" and i: "b_initialised b" and d: "b_dev b a = Some d" "\<not> d_busy d"
    and oh: "oh_dev oh = a" "session_ok (oh_h oh)"
  shows "backend_ok (opened a oh b)" "b_initialised (opened a oh b)"
proof -
  have same: "b_ptrs (opened a oh b) = b_ptrs b" "b_devs (opened a oh b) = b_devs b" "b_initialised (opened a oh b) = b_initialised b"
    using d by (simp_all add: opened_def set_busy_def)
  have "sessions_ok (opened a oh b)"
    using ok oh(2) d by (auto simp: backend_ok_def sessions_ok_def opened_def set_busy_def split: if_splits)
  with opened_ok [OF _ d oh(1)] ok i show "backend_ok (opened a oh b)"
    by (simp add: backend_ok_def lists_ok_def same)
  show "b_initialised (opened a oh b)" using i by (simp add: same)
qed

lemma choose_device_listed: "choose_device b name = Some a \<Longrightarrow> a \<in> set (b_devs b)"
  by (auto simp: choose_device_def find_Some_iff split: if_splits list.splits)

text \<open>Opening changes the store in no way or in that one.\<close>

lemma open_device_cases:
  assumes run: "open_device U a d b w = ((st, r), b', w')"
  obtains "st \<noteq> SANE_STATUS_GOOD" "r = None" "b' = b"
  | usb h where "st = SANE_STATUS_GOOD" "r = Some (b_next b)" "\<not> d_busy d" "session_ok h"
      "b' = opened a \<lparr>oh_dev = a, oh_usb = usb, oh_h = h\<rparr> b"
proof -
  have fr: "b_handle (set_busy a True b) = b_handle b" "b_handles (set_busy a True b) = b_handles b" "b_next (set_busy a True b) = b_next b"
    by (auto simp: set_busy_def split: option.splits)
  have bad: "st' \<noteq> SANE_STATUS_GOOD" if "open_usb U d us w1 = (Inl st', w2)" for us w1 w2 st'
    using that by (induction us arbitrary: w1) (auto split: if_splits prod.splits)
  show thesis
  proof (cases "d_busy d")
    case True
    with run that(1) show thesis by (simp add: open_device_def)
  next
    case idle: False
    obtain l w1 where l: "us_list U w = (l, w1)" by (metis surj_pair)
    show thesis
    proof (cases l)
      case None
      with run that(1) idle l show thesis by (simp add: open_device_def)
    next
      case (Some us)
      obtain o' w2 where o: "open_usb U d us w1 = (o', w2)" by (metis surj_pair)
      show thesis
      proof (cases o')
        case (Inl st')
        with run that(1) idle l Some o bad [of us w1 st' w2] show thesis by (simp add: open_device_def)
      next
        case (Inr usb)
        obtain rc w3 where c: "us_claim U usb PANTUM_INTERFACE w2 = (rc, w3)" by (metis surj_pair)
        obtain al w4 where al: "alloc_ok (us_heap U) (sizeof (us_sys U) ''Pantum_Handle'') w3 = (al, w4)" by (metis surj_pair)
        obtain h w5 where h: "open_handle (us_link U usb) w4 = (h, w5)" by (metis surj_pair)
        note r = run idle l Some o Inr c al h
        show thesis
        proof (cases "rc = LIBUSB_SUCCESS \<and> al")
          case True
          with r that(2) [of h usb] open_handle_ok(1) [OF h] show thesis
            by (simp add: open_device_def Let_def opened_def fr)
        next
          case False
          then have "st \<noteq> SANE_STATUS_GOOD \<and> r = None \<and> b' = b"
            using r by (auto simp: open_device_def split: if_splits)
          with that(1) show thesis by blast
        qed
      qed
    qed
  qed
qed

lemma sane_open_ok:
  assumes run: "sane_open U name wanted b w = ((st, r), b', w')" and ok: "backend_ok b" and mem: "alloc_grants (us_heap U)"
  shows "backend_ok b'"
proof (cases "b_initialised b \<and> wanted")
  case False
  with run ok show ?thesis by (auto simp: sane_open_def)
next
  case True
  define probe where "probe = (if b_devs b = [] then probe_devices U b w else (SANE_STATUS_GOOD, b, w))"
  obtain st1 b1 w1 where p: "probe = (st1, b1, w1)" by (metis surj_pair)
  have b1: "backend_ok b1" "b_initialised b1"
    using p probe_devices_ok [OF _ ok mem] True ok by (auto simp: probe_def split: if_splits)
  show ?thesis
  proof (cases "st1 = SANE_STATUS_GOOD \<and> choose_device b1 name \<noteq> None")
    case False
    with run True p b1 show ?thesis by (auto simp: sane_open_def probe_def split: if_splits)
  next
    case c: True
    then obtain a where a: "choose_device b1 name = Some a" by blast
    then obtain d where d: "b_dev b1 a = Some d"
      using choose_device_listed handles_okD(4) [of b1] b1(1) by (fastforce simp: backend_ok_def)
    have "open_device U a d b1 w1 = ((st, r), b', w')"
      using run True p c a d by (simp add: sane_open_def probe_def)
    then show ?thesis
    proof (cases rule: open_device_cases)
      case 1
      with b1 show ?thesis by simp
    next
      case (2 usb h)
      with opened_backend_ok(1) [OF b1 d, of "\<lparr>oh_dev = a, oh_usb = usb, oh_h = h\<rparr>"] show ?thesis by simp
    qed
  qed
qed

lemma get_devices_ok:
  assumes run: "get_devices U wanted b w = (r, b', w')" and ok: "backend_ok b" and mem: "alloc_grants (us_heap U)"
  shows "backend_ok b'"
  using run ok probe_devices_ok [OF _ ok mem]
  by (auto simp: get_devices_def split: if_splits prod.splits)

section \<open>Every history\<close>

text \<open>The calls on one open handle: \<open>api_step\<close> without the device's own moves.\<close>

inductive api_call ::
  "'f float_ops \<Rightarrow> 'w env \<Rightarrow> int \<Rightarrow> pantum_handle \<times> byte list option \<times> 'w
   \<Rightarrow> pantum_handle \<times> byte list option \<times> 'w \<Rightarrow> bool" for F E dbg where
  start: "sane_start F E dbg m h w = Some ((st, m'), h', w') \<Longrightarrow> api_call F E dbg (h, m, w) (h', m', w')"
| read: "sane_read E dbg m n h w = Some (r, h', w') \<Longrightarrow> api_call F E dbg (h, m, w) (h', m, w')"
| cancel: "api_call F E dbg (h, m, w) (sane_cancel h, m, w)"
| io_mode: "api_call F E dbg (h, m, w) (snd (sane_set_io_mode nb h), m, w)"
| parameters: "api_call F E dbg (h, m, w) (snd (sane_get_parameters h), m, w)"
| option: "option_call E (h, w) (h', w') \<Longrightarrow> api_call F E dbg (h, m, w) (h', m, w')"

inductive_cases api_callE: "api_call F E dbg s t"

lemma api_call_step: "api_call F E dbg s t \<Longrightarrow> api_step F E dbg s t"
  by (induction rule: api_call.induct) (auto intro: api_step.intros)

text \<open>One call of the frontend on the backend, with the halftone mask the handles share; \<open>D\<close>
  is what the rest of the world may do in between. A call
  on a handle works on what the store has there; \<open>stale\<close> is such a call on a handle that is
  listed and freed. Calls on handles that are not listed change nothing (\<^verbatim>\<open>handle_is_valid\<close>).\<close>

inductive backend_step ::
  "'f float_ops \<Rightarrow> 'w usb_env \<Rightarrow> int \<Rightarrow> ('w \<Rightarrow> 'w \<Rightarrow> bool)
   \<Rightarrow> backend \<times> byte list option \<times> 'w \<Rightarrow> backend \<times> byte list option \<times> 'w \<Rightarrow> bool"
  for F U dbg D where
  initialise: "sane_init U b w = (st, b', w') \<Longrightarrow> backend_step F U dbg D (b, m, w) (b', m, w')"
| exit: "sane_exit U b w = (b', w') \<Longrightarrow> backend_step F U dbg D (b, m, w) (b', m, w')"
| get_devices: "get_devices U wanted b w = (r, b', w') \<Longrightarrow> backend_step F U dbg D (b, m, w) (b', m, w')"
| open_dev: "sane_open U name wanted b w = (r, b', w') \<Longrightarrow> backend_step F U dbg D (b, m, w) (b', m, w')"
| close_dev: "sane_close U x b w = (b', w') \<Longrightarrow> backend_step F U dbg D (b, m, w) (b', m, w')"
| call: "handle_is_valid b x \<Longrightarrow> b_handle b x = Some oh \<Longrightarrow>
    api_call F (us_link U (oh_usb oh)) dbg (oh_h oh, m, w) (h', m', w') \<Longrightarrow>
    backend_step F U dbg D (b, m, w) (b\<lparr>b_handle := (b_handle b)(x := Some (oh\<lparr>oh_h := h'\<rparr>))\<rparr>, m', w')"
| stale: "handle_is_valid b x \<Longrightarrow> b_handle b x = None \<Longrightarrow> backend_step F U dbg D (b, m, w) (b\<lparr>b_fault := True\<rparr>, m, w)"
| world: "D w w' \<Longrightarrow> backend_step F U dbg D (b, m, w) (b, m, w')"

text \<open>A call through \<open>on_handle\<close> is one of these steps.\<close>

lemma on_handle_step:
  assumes "on_handle U x f z b w = Some (r, b', w')"
    and "\<And>E h r h' w'. f E h w = Some (r, h', w') \<Longrightarrow> api_call F E dbg (h, m, w) (h', m, w')"
  shows "(backend_step F U dbg D)\<^sup>*\<^sup>* (b, m, w) (b', m, w')"
proof (cases "handle_is_valid b x")
  case False
  with assms(1) show ?thesis by (simp add: on_handle_def)
next
  case True
  show ?thesis
  proof (cases "b_handle b x")
    case None
    with assms(1) True have "b' = b\<lparr>b_fault := True\<rparr>" "w' = w" by (simp_all add: on_handle_def)
    with stale [OF True None] show ?thesis by (auto intro!: r_into_rtranclp)
  next
    case (Some oh)
    then obtain h' where h': "f (us_link U (oh_usb oh)) (oh_h oh) w = Some (r, h', w')"
      "b' = b\<lparr>b_handle := (b_handle b)(x := Some (oh\<lparr>oh_h := h'\<rparr>))\<rparr>"
      using assms(1) True by (auto simp: on_handle_def)
    with call [OF True Some assms(2) [OF h'(1)]] show ?thesis by (auto intro!: r_into_rtranclp)
  qed
qed

lemma called_ok:
  assumes ok: "backend_ok b" and x: "b_handle b x = Some oh" and h: "session_ok h'"
  shows "backend_ok (b\<lparr>b_handle := (b_handle b)(x := Some (oh\<lparr>oh_h := h'\<rparr>))\<rparr>)" (is "backend_ok ?b")
proof -
  have dev: "map_option oh_dev (b_handle ?b y) = map_option oh_dev (b_handle b y)" for y
    using x by simp
  have same: "(\<exists>oh. b_handle ?b y = Some oh \<and> oh_dev oh = a) \<longleftrightarrow> (\<exists>oh. b_handle b y = Some oh \<and> oh_dev oh = a)" for y a
    using dev [of y] by (cases "b_handle ?b y"; cases "b_handle b y") auto
  have "owned ?b = owned b" by (simp add: owned_def fun_eq_iff same [simplified])
  with ok x have "handles_ok ?b"
    unfolding backend_ok_def handles_ok_def by (auto split: if_splits)
  with ok x h show ?thesis
    by (auto simp: backend_ok_def sessions_ok_def lists_ok_def split: if_splits)
qed


text \<open>The law, and its run over every history.\<close>

fun world_ok :: "backend \<times> byte list option \<times> 'w \<Rightarrow> bool" where
  "world_ok (b, m, w) \<longleftrightarrow> backend_ok b \<and> mask_ok m"

lemma backend_step_ok:
  assumes "backend_step F U dbg D s t" "world_ok s" "alloc_grants (us_heap U)"
  shows "world_ok t"
  using assms(1)
proof (cases rule: backend_step.cases)
  case (call b x oh m w h' m' w')
  have h: "session_ok (oh_h oh)" "mask_ok m"
    using assms(2) call by (auto simp: backend_ok_def sessions_ok_def)
  have "session_ok h' \<and> mask_ok m'"
    using sessions.step_inv [OF api_call_step [OF call(5)]] h by simp
  then show ?thesis using assms(2) call called_ok [of b x oh h'] by simp
next
  case (stale b x m w)
  then have False
    using assms(2) handles_okD(5) [of b x] by (simp add: backend_ok_def handle_is_valid_def)
  then show ?thesis by simp
qed (use assms in \<open>auto dest: sane_init_ok sane_exit_ok(1) get_devices_ok sane_close_ok intro: sane_open_ok\<close>)

end
