(* ===== verification/Backend_Bus.thy ===== *)
theory Backend_Bus
  imports Backend_Laws
begin

text \<open>
  The books of the USB library: which device handles are open and which of them have the
  scanner's interface claimed, followed through every call of the backend.
\<close>

section \<open>The laws of the library\<close>

text \<open>\<open>bus w\<close> is the bag of open handles and the bag of those with a claimed interface. Opening
  and claiming add to it when they succeed, releasing and closing take away, and nothing else the
  backend calls changes it.\<close>

type_synonym ledger = "nat multiset \<times> nat multiset"

definition link_books :: "'w env \<Rightarrow> ('w \<Rightarrow> ledger) \<Rightarrow> bool" where
  "link_books E bus \<longleftrightarrow>
     (\<forall>n t w r w'. bulk_in E n t w = (r, w') \<longrightarrow> bus w' = bus w)
   \<and> (\<forall>bs t w r w'. bulk_out E bs t w = (r, w') \<longrightarrow> bus w' = bus w)
   \<and> (\<forall>e w. bus (clear_halt E e w) = bus w) \<and> (\<forall>s n w. bus (nanosleep E s n w) = bus w)
   \<and> (\<forall>n w ok w'. alloc_ok E n w = (ok, w') \<longrightarrow> bus w' = bus w)"

definition usb_books :: "'w usb_env \<Rightarrow> ('w \<Rightarrow> ledger) \<Rightarrow> bool" where
  "usb_books U bus \<longleftrightarrow>
     (\<forall>w rc w'. us_init U w = (rc, w') \<longrightarrow> bus w' = bus w) \<and> (\<forall>w. bus (us_exit U w) = bus w)
   \<and> (\<forall>w l w'. us_list U w = (l, w') \<longrightarrow> bus w' = bus w)
   \<and> (\<forall>u w rc usb w'. us_open U u w = ((rc, usb), w') \<longrightarrow>
        bus w' = (if rc = LIBUSB_SUCCESS then (add_mset usb (fst (bus w)), snd (bus w)) else bus w))
   \<and> (\<forall>usb i w rc w'. us_claim U usb i w = (rc, w') \<longrightarrow>
        bus w' = (if rc = LIBUSB_SUCCESS then (fst (bus w), add_mset usb (snd (bus w))) else bus w))
   \<and> (\<forall>usb i w. bus (us_release U usb i w) = (fst (bus w), snd (bus w) - {#usb#}))
   \<and> (\<forall>usb w. bus (us_close U usb w) = (fst (bus w) - {#usb#}, snd (bus w)))
   \<and> link_books (us_heap U) bus \<and> (\<forall>usb. link_books (us_link U usb) bus)"

lemma usb_booksD:
  assumes "usb_books U bus"
  shows "us_init U w = (rc, w') \<Longrightarrow> bus w' = bus w" "bus (us_exit U w) = bus w" "us_list U w = (l, w') \<Longrightarrow> bus w' = bus w"
    "us_open U u w = ((rc, usb), w') \<Longrightarrow>
       bus w' = (if rc = LIBUSB_SUCCESS then (add_mset usb (fst (bus w)), snd (bus w)) else bus w)"
    "us_claim U usb i w = (rc, w') \<Longrightarrow>
       bus w' = (if rc = LIBUSB_SUCCESS then (fst (bus w), add_mset usb (snd (bus w))) else bus w)"
    "bus (us_release U usb i w) = (fst (bus w), snd (bus w) - {#usb#})"
    "bus (us_close U usb w) = (fst (bus w) - {#usb#}, snd (bus w))"
    "link_books (us_heap U) bus" "link_books (us_link U usb) bus"
  using assms unfolding usb_books_def by (elim conjE; metis)+

text \<open>A session on an open handle, and the allocator, leave the books alone.\<close>

interpretation link: world_invariant "us_link U usb" "\<lambda>w. usb_books U bus \<longrightarrow> bus w = X"
  for U :: "'w usb_env" and usb bus X
  by unfold_locales (auto dest!: usb_booksD(9) [of U bus usb] simp: link_books_def)

interpretation heap: world_invariant "us_heap U" "\<lambda>w. usb_books U bus \<longrightarrow> bus w = X"
  for U :: "'w usb_env" and bus X
  by unfold_locales (auto dest!: usb_booksD(8) simp: link_books_def)

context world_invariant
begin

lemma add_id_keeps: "add_id S E vid pid model ids w = (ids', w') \<Longrightarrow> P w \<Longrightarrow> P w'"
  by (auto simp: add_id_def split: prod.splits if_splits dest: keep_alloc pantum_strdup_keeps)

lemma parse_config_line_keeps: "parse_config_line S E line ids w = (ids', w') \<Longrightarrow> P w \<Longrightarrow> P w'"
  by (auto simp: parse_config_line_def Let_def split: prod.splits if_splits option.splits dest: add_id_keeps)

lemma parse_config_lines_keeps: "parse_config_lines S E lines ids w = (ids', w') \<Longrightarrow> P w \<Longrightarrow> P w'"
proof (induction lines arbitrary: ids w)
  case (Cons line lines)
  from Cons.prems show ?case by (auto split: prod.splits dest: Cons.IH parse_config_line_keeps)
qed simp

lemma read_config_file_keeps: "read_config_file S E dir ids w = (r, ids', w') \<Longrightarrow> P w \<Longrightarrow> P w'"
  by (auto simp: read_config_file_def Let_def split: prod.splits if_splits option.splits dest: parse_config_lines_keeps)

lemma read_config_dirs_keeps: "read_config_dirs S E dirs found ids w = (r, ids', w') \<Longrightarrow> P w \<Longrightarrow> P w'"
proof (induction dirs arbitrary: found ids w)
  case (Cons dir dirs)
  from Cons.prems show ?case by (auto split: prod.splits dest: Cons.IH read_config_file_keeps)
qed simp

lemma read_config_keeps: "read_config S E ids w = (ids', w') \<Longrightarrow> P w \<Longrightarrow> P w'"
  by (auto simp: read_config_def split: prod.splits if_splits option.splits
      dest: pantum_strdup_keeps read_config_dirs_keeps read_config_file_keeps add_id_keeps)

end

section \<open>One call\<close>

definition usbs :: "backend \<Rightarrow> nat multiset" where
  "usbs b = image_mset (\<lambda>x. oh_usb (the (b_handle b x))) (mset (b_handles b))"

definition balanced :: "('w \<Rightarrow> ledger) \<Rightarrow> backend \<Rightarrow> 'w \<Rightarrow> bool" where
  "balanced bus b w \<longleftrightarrow> bus w = (usbs b, usbs b)"

lemma usbs_cong: "b_handles b' = b_handles b \<Longrightarrow> b_handle b' = b_handle b \<Longrightarrow> usbs b' = usbs b"
  by (simp add: usbs_def)

lemma usbs_opened:
  assumes "handles_ok b"
  shows "usbs (opened a oh b) = add_mset (oh_usb oh) (usbs b)"
proof -
  have new: "b_next b \<notin> set (b_handles b)" using handles_okD(7) [OF assms, of "b_next b"] by auto
  have fields: "b_handles (opened a oh b) = b_next b # b_handles b" "b_handle (opened a oh b) = (b_handle b)(b_next b := Some oh)"
    by (simp_all add: opened_def)
  from new have "image_mset (\<lambda>x. oh_usb (the (b_handle (opened a oh b) x))) (mset (b_handles b)) = usbs b"
    unfolding usbs_def fields by (intro image_mset_cong) auto
  then show ?thesis by (simp add: usbs_def [of "opened a oh b"] fields)
qed

lemma usbs_closed:
  assumes "handles_ok b" "b_handle b x = Some oh"
  shows "usbs (closed x oh b) = usbs b - {#oh_usb oh#}"
proof -
  have x: "x \<in> set (b_handles b)" "distinct (b_handles b)"
    using handles_okD(3,5) [OF assms(1)] assms(2) by blast+
  have fields: "b_handles (closed x oh b) = remove1 x (b_handles b)" "b_handle (closed x oh b) = (b_handle b)(x := None)"
    by (simp_all add: closed_def)
  have "usbs (closed x oh b) = image_mset (\<lambda>x. oh_usb (the (b_handle b x))) (mset (remove1 x (b_handles b)))"
    unfolding usbs_def fields by (intro image_mset_cong) (auto simp: set_remove1_eq [OF x(2)] simp del: mset_remove1)
  also have "\<dots> = usbs b - {#oh_usb oh#}"
    using x assms(2) by (simp add: usbs_def image_mset_Diff)
  finally show ?thesis .
qed

lemma probe_loop_books:
  assumes "usb_books U bus"
  shows "probe_loop U us b w = (b', w') \<Longrightarrow> bus w' = bus w \<and> usbs b' = usbs b"
proof (induction us arbitrary: b w)
  case (Cons u us)
  have push: "usbs (push_device d b) = usbs b" for d by (simp add: usbs_def push_device_def)
  have al: "alloc_ok (us_heap U) n w = (ok, w1) \<Longrightarrow> bus w1 = bus w" for n w ok w1
    using heap.keep_alloc [of U n w ok w1 bus "bus w"] assms by simp
  have sd: "pantum_strdup (us_heap U) s w = (r, w1) \<Longrightarrow> bus w1 = bus w" for s w r w1
    using heap.pantum_strdup_keeps [of U s w r w1 bus "bus w"] assms by simp
  from Cons.prems show ?case
    by (auto split: option.splits prod.splits if_splits simp: push dest!: al sd Cons.IH)
qed simp

lemma free_devices_usbs [simp]: "usbs (free_devices b) = usbs b"
  by (simp add: usbs_def free_devices_def)

lemma probe_devices_books:
  assumes books: "usb_books U bus" and run: "probe_devices U b w = (st, b', w')"
  shows "bus w' = bus w \<and> usbs b' = usbs b"
proof -
  have al: "alloc_ok (us_heap U) n w = (ok, w1) \<Longrightarrow> bus w1 = bus w" for n w ok w1
    using heap.keep_alloc [of U n w ok w1 bus "bus w"] books by simp
  have ptrs: "usbs (b\<lparr>b_ptrs := p\<rparr>) = usbs b" for b p by (simp add: usbs_def)
  show ?thesis
    using run
    by (auto simp: probe_devices_def Let_def ptrs split: if_splits prod.splits option.splits
        dest!: al usb_booksD(3) [OF books] probe_loop_books [OF books])
qed

lemma init_books:
  assumes books: "usb_books U bus" and run: "sane_init U b w = (st, b', w')" and ok: "backend_ok b"
  shows "bus w' = bus w \<and> usbs b' = usbs b"
proof (cases "b_initialised b")
  case True
  with run show ?thesis by (simp add: sane_init_def)
next
  case False
  then have e: "b_handles b = []" using ok by (simp add: backend_ok_def lists_ok_def)
  have rc: "read_config (us_sys U) (us_heap U) ids w = (ids', w1) \<Longrightarrow> bus w1 = bus w" for ids w ids' w1
    using heap.read_config_keeps [of "us_sys U" U ids w ids' w1 bus "bus w"] books by simp
  from run False e show ?thesis
    by (auto simp: sane_init_def Let_def usbs_def split: if_splits prod.splits dest!: usb_booksD(1) [OF books] rc)
qed

lemma open_usb_books:
  assumes books: "usb_books U bus"
  shows "open_usb U d us w = (r, w') \<Longrightarrow>
    bus w' = (case r of Inl st \<Rightarrow> bus w | Inr usb \<Rightarrow> (add_mset usb (fst (bus w)), snd (bus w)))"
proof (induction us arbitrary: w)
  case (Cons u us)
  show ?case
  proof (cases "ud_bus u \<noteq> d_bus d \<or> ud_addr u \<noteq> d_addr d")
    case True
    with Cons.prems Cons.IH [of w] show ?thesis by simp
  next
    case False
    obtain rc usb w1 where o: "us_open U u w = ((rc, usb), w1)" by (metis surj_pair)
    show ?thesis using Cons.prems False o usb_booksD(4) [OF books o] by (auto split: if_splits)
  qed
qed auto

lemma open_device_books:
  assumes books: "usb_books U bus" and run: "open_device U a d b w = ((st, r), b', w')" and ok: "handles_ok b"
    and bal: "balanced bus b w"
  shows "balanced bus b' w'"
proof (cases "d_busy d")
  case True
  with run bal show ?thesis by (simp add: open_device_def)
next
  case idle: False
  obtain l w1 where l: "us_list U w = (l, w1)" by (metis surj_pair)
  have w1: "bus w1 = (usbs b, usbs b)" using usb_booksD(3) [OF books l] bal by (simp add: balanced_def)
  show ?thesis
  proof (cases l)
    case None
    with run w1 idle l show ?thesis by (simp add: open_device_def balanced_def)
  next
    case (Some us)
    obtain o' w2 where o: "open_usb U d us w1 = (o', w2)" by (metis surj_pair)
    show ?thesis
    proof (cases o')
      case (Inl st')
      with run w1 idle l Some o open_usb_books [OF books o] show ?thesis by (simp add: open_device_def balanced_def)
    next
      case (Inr usb)
      have w2: "bus w2 = (add_mset usb (usbs b), usbs b)" using open_usb_books [OF books o] w1 Inr by simp
      obtain rc w3 where c: "us_claim U usb PANTUM_INTERFACE w2 = (rc, w3)" by (metis surj_pair)
      note r = run idle l Some o Inr c
      show ?thesis
      proof (cases "rc = LIBUSB_SUCCESS")
        case False
        with r usb_booksD(5) [OF books c] usb_booksD(7) [OF books, of usb w3] w2 show ?thesis
          by (simp add: open_device_def balanced_def split: if_splits)
      next
        case True
        have w3: "bus w3 = (add_mset usb (usbs b), add_mset usb (usbs b))"
          using usb_booksD(5) [OF books c] w2 True by simp
        obtain al w4 where al: "alloc_ok (us_heap U) (sizeof (us_sys U) ''Pantum_Handle'') w3 = (al, w4)" by (metis surj_pair)
        have w4: "bus w4 = bus w3" using heap.keep_alloc [OF al, of bus "bus w3"] books by simp
        show ?thesis
        proof (cases al)
          case False
          with r True al w3 w4 show ?thesis
            by (auto simp: open_device_def balanced_def usb_booksD(6,7) [OF books])
        next
          case granted: True
          obtain h w5 where h: "open_handle (us_link U usb) w4 = (h, w5)" by (metis surj_pair)
          have w5: "bus w5 = bus w4" using link.open_handle_keeps [OF h, of bus "bus w4"] books by simp
          have fr: "b_handle (set_busy a True b) = b_handle b" "b_handles (set_busy a True b) = b_handles b"
              "b_next (set_busy a True b) = b_next b"
            by (auto simp: set_busy_def split: option.splits)
          have "b' = opened a \<lparr>oh_dev = a, oh_usb = usb, oh_h = h\<rparr> b" "w' = w5"
            using r True al granted h by (simp_all add: open_device_def Let_def opened_def fr)
          with w3 w4 w5 usbs_opened [OF ok] show ?thesis by (simp add: balanced_def)
        qed
      qed
    qed
  qed
qed

lemma sane_open_books:
  assumes books: "usb_books U bus" and run: "sane_open U name wanted b w = (r, b', w')"
    and ok: "backend_ok b" and mem: "alloc_grants (us_heap U)" and bal: "balanced bus b w"
  shows "balanced bus b' w'"
proof (cases "b_initialised b \<and> wanted")
  case False
  with run bal show ?thesis by (auto simp: sane_open_def)
next
  case True
  define probe where "probe = (if b_devs b = [] then probe_devices U b w else (SANE_STATUS_GOOD, b, w))"
  obtain st1 b1 w1 where p: "probe = (st1, b1, w1)" by (metis surj_pair)
  have b1: "backend_ok b1" "balanced bus b1 w1"
    using p probe_devices_ok [OF _ ok mem] probe_devices_books [OF books] True ok bal
    by (fastforce simp: probe_def balanced_def split: if_splits)+
  have run1: "(if st1 \<noteq> SANE_STATUS_GOOD then ((st1, None), b1, w1)
      else case choose_device b1 name of None \<Rightarrow> ((SANE_STATUS_INVAL, None), b1, w1)
      | Some a \<Rightarrow> (case b_dev b1 a of None \<Rightarrow> ((SANE_STATUS_INVAL, None), b1\<lparr>b_fault := True\<rparr>, w1)
                   | Some d \<Rightarrow> open_device U a d b1 w1)) = (r, b', w')"
    using run True p by (simp add: sane_open_def probe_def)
  have fault: "balanced bus (b1\<lparr>b_fault := True\<rparr>) w1" using b1(2) by (simp add: balanced_def usbs_def)
  have dev: "open_device U a d b1 w1 = (r, b', w') \<Longrightarrow> balanced bus b' w'" for a d
    using open_device_books [OF books _ _ b1(2), of a d "fst r" "snd r"] b1(1) by (simp add: backend_ok_def)
  from run1 b1(2) fault dev show ?thesis by (auto split: if_splits option.splits)
qed

lemma set_busy_usbs [simp]: "usbs (set_busy a c b) = usbs b"
  by (auto simp: usbs_def set_busy_def split: option.splits)

lemma free_handle_books:
  assumes books: "usb_books U bus" and run: "free_handle U x oh b w = (b', w')"
  shows "bus w' = (fst (bus w) - {#oh_usb oh#}, snd (bus w) - {#oh_usb oh#})"
  using run by (auto simp: free_handle_def Let_def usb_booksD(6,7) [OF books])

lemma sane_close_books:
  assumes books: "usb_books U bus" and run: "sane_close U x b w = (b', w')" and ok: "backend_ok b" and bal: "balanced bus b w"
  shows "balanced bus b' w'"
proof (cases "handle_is_valid b x")
  case False
  with run bal show ?thesis by (simp add: sane_close_def)
next
  case True
  then obtain oh where x: "b_handle b x = Some oh"
    using ok handles_okD(5) [of b x] by (auto simp: backend_ok_def handle_is_valid_def)
  obtain h w1 where e: "end_scan (us_link U (oh_usb oh)) (oh_h oh) w = (h, w1)" by (metis surj_pair)
  have w1: "bus w1 = bus w" using link.end_scan_keeps [OF e, of bus "bus w"] books by simp
  obtain b2 w2 where f: "free_handle U x (oh\<lparr>oh_h := h\<rparr>) (b\<lparr>b_handles := remove1 x (b_handles b)\<rparr>) w1 = (b2, w2)" by (metis surj_pair)
  have "b' = closed x oh b" "w' = w2"
    using run True x e f free_handle_closed(1) [of b x oh "oh\<lparr>oh_h := h\<rparr>" U w1] ok
    by (simp_all add: sane_close_def backend_ok_def)
  with free_handle_books [OF books f] w1 usbs_closed [OF _ x] ok bal show ?thesis
    by (simp add: balanced_def backend_ok_def)
qed

lemma exit_handles_books:
  assumes books: "usb_books U bus"
  shows "exit_handles U xs b w = (b', w') \<Longrightarrow> backend_ok b \<Longrightarrow> b_handles b = xs \<Longrightarrow> balanced bus b w \<Longrightarrow> balanced bus b' w'"
proof (induction xs arbitrary: b w)
  case (Cons x xs)
  then obtain oh where x: "b_handle b x = Some oh"
    using handles_okD(5) [of b x] by (auto simp: backend_ok_def)
  obtain h w1 where e: "end_scan (us_link U (oh_usb oh)) (oh_h oh) w = (h, w1)" by (metis surj_pair)
  have w1: "bus w1 = bus w" using link.end_scan_keeps [OF e, of bus "bus w"] books by simp
  obtain b1 w2 where f: "free_handle U x (oh\<lparr>oh_h := h\<rparr>) b w1 = (b1, w2)" by (metis surj_pair)
  have b1: "b1\<lparr>b_handles := xs\<rparr> = closed x oh b"
    using free_handle_closed(2) [of b x oh "oh\<lparr>oh_h := h\<rparr>" U w1] Cons.prems(2,3) x f by (simp add: backend_ok_def)
  have "balanced bus (closed x oh b) w2"
    using free_handle_books [OF books f] w1 usbs_closed [OF _ x] Cons.prems(2,4) by (simp add: balanced_def backend_ok_def)
  moreover have "exit_handles U xs (closed x oh b) w2 = (b', w')" using Cons.prems(1) x e f b1 by simp
  ultimately show ?case
    using Cons.IH [OF _ closed_backend_ok [OF Cons.prems(2) x]] Cons.prems(3) by simp
qed simp

lemma sane_exit_books:
  assumes books: "usb_books U bus" and run: "sane_exit U b w = (b', w')" and ok: "backend_ok b" and bal: "balanced bus b w"
  shows "balanced bus b' w'"
proof (cases "b_initialised b")
  case False
  with run bal show ?thesis by (simp add: sane_exit_def)
next
  case True
  obtain b1 w1 where e: "exit_handles U (b_handles b) b w = (b1, w1)" by (metis surj_pair)
  note b1 = exit_handles_books [OF books e ok refl bal]
  have "bus w' = bus w1" using run True e usb_booksD(2) [OF books] by (auto simp: sane_exit_def free_ids_def Let_def)
  moreover have "usbs b' = usbs b1" using run True e by (auto simp: sane_exit_def free_ids_def Let_def usbs_def free_devices_def)
  ultimately show ?thesis using b1 by (simp add: balanced_def)
qed

section \<open>Every history\<close>

lemma call_books:
  assumes books: "usb_books U bus" and run: "api_call F (us_link U usb) dbg (h, m, w) (h', m', w')"
  shows "bus w' = bus w"
proof -
  have keeps: "usb_books U bus \<longrightarrow> bus w = bus w" by simp
  from run show ?thesis
    using link.sane_start_keeps [of F U usb dbg m h w _ h' w' bus "bus w"] link.sane_read_keeps [of U usb dbg m _ h w _ h' w' bus "bus w"]
      link.control_option_keeps [of U usb h _ _ _ w _ h' w' bus "bus w"] books
    by (auto elim!: api_callE option_callE)
qed

fun books_ok :: "('w \<Rightarrow> ledger) \<Rightarrow> backend \<times> byte list option \<times> 'w \<Rightarrow> bool" where
  "books_ok bus (b, m, w) \<longleftrightarrow> world_ok (b, m, w) \<and> balanced bus b w"

lemma backend_step_books:
  assumes books: "usb_books U bus" and mem: "alloc_grants (us_heap U)" and D: "\<And>w w'. D w w' \<Longrightarrow> bus w' = bus w"
    and run: "backend_step F U dbg D s t" and ok: "books_ok bus s"
  shows "books_ok bus t"
proof -
  have w: "world_ok t" using backend_step_ok [OF run _ mem] ok by (cases s) simp
  from run have "balanced bus (fst t) (snd (snd t))"
  proof (cases rule: backend_step.cases)
    case (initialise b w st b' w' m)
    then show ?thesis using init_books [OF books initialise(3)] ok by (simp add: balanced_def)
  next
    case (get_devices wanted b w r b' w' m)
    then show ?thesis
      using ok probe_devices_books [OF books] by (fastforce simp: get_devices_def balanced_def split: if_splits prod.splits)
  next
    case (call b x oh m w h' m' w')
    have "usbs (b\<lparr>b_handle := (b_handle b)(x := Some (oh\<lparr>oh_h := h'\<rparr>))\<rparr>) = usbs b"
      using call(4) by (auto simp: usbs_def intro!: image_mset_cong)
    with call ok call_books [OF books call(5)] show ?thesis by (simp add: balanced_def)
  next
    case (stale b x m w)
    then show ?thesis using ok by (simp add: balanced_def usbs_def)
  next
    case (world w w' b m)
    then show ?thesis using ok D by (simp add: balanced_def)
  qed (use ok sane_open_books [OF books] sane_close_books [OF books] sane_exit_books [OF books] mem in \<open>auto\<close>)
  with w show ?thesis by (cases t) simp
qed

end
