(* ===== verification/Page_Stream.thy ===== *)
theory Page_Stream
  imports Session_Api
begin

text \<open>
  A page on the wire. What a device sends for one page, the rows it stands for, and the way of
  such a stream through the pump and any sequence of reads to the bytes the frontend gets. How a
  page ends differs between the flatbed (the job ends) and the feeder (the page ends, the job goes
  on); the locale \<open>page_stream\<close> has what reading needs of either.
\<close>

section \<open>What the device sends\<close>

record data_block =
  b_type :: u32
  b_first :: u32
  b_rows :: u32
  b_pixels :: u32
  b_pad :: "byte list"
  b_body :: "byte list"

definition job_planes :: "pantum_handle \<Rightarrow> u32" where
  "job_planes h = (if p_format (h_params h) = SANE_FRAME_RGB then 3 else 1)"

definition event_frame :: "u32 \<Rightarrow> byte list \<Rightarrow> byte list" where
  "event_frame cmd body =
     frame_wire (\<lparr>f_cmd = cmd, f_arg0 = 0, f_status = 0, f_plen = of_nat (length body)\<rparr>, 0, replicate 8 0, body)"

definition data_frame :: "pantum_handle \<Rightarrow> data_block \<Rightarrow> byte list" where
  "data_frame h b = event_frame EVT_DATA
     (block_header (b_type b) (b_first b) (b_rows b) (job_planes h) (b_pixels b) (b_pad b) @ b_body b)"

definition block_wf :: "pantum_handle \<Rightarrow> data_block \<Rightarrow> bool" where
  "block_wf h b \<longleftrightarrow> b_type b \<noteq> DATA_JPEG \<and> 0 < b_rows b \<and> length (b_pad b) = 4
     \<and> unat (job_planes h) \<le> length (b_body b) div unat (b_rows b)
     \<and> PANTUM_DATA_HEADER_LEN + length (b_body b) \<le> unat PANTUM_MAX_PAYLOAD"

text \<open>The page such a stream stands for: the rows of each block in turn, and white for
  what is missing at the end.\<close>

definition rows_of_block :: "byte list \<Rightarrow> pantum_handle \<Rightarrow> data_block \<Rightarrow> byte list list" where
  "rows_of_block dm h b =
     (let stride = length (b_body b) div unat (b_rows b)
      in block_rows dm h (b_body b) (b_first b) (b_rows b) stride
           (block_avail stride (job_planes h) (b_pixels b)))"

definition after_block :: "pantum_handle \<Rightarrow> data_block \<Rightarrow> int" where
  "after_block h b = max (h_next_row h) (min (uint (b_first b) + uint (b_rows b)) (p_lines (h_params h)))"

fun page_rows :: "byte list \<Rightarrow> pantum_handle \<Rightarrow> data_block list \<Rightarrow> byte list list" where
  "page_rows dm h [] = replicate (nat (p_lines (h_params h) - h_next_row h)) (white_row (h_params h))"
| "page_rows dm h (b # bs) =
     rows_of_block dm h b @ page_rows dm (h\<lparr>h_next_row := after_block h b\<rparr>) bs"

lemma convert_row_session:
  "same_session h h' \<Longrightarrow> convert_row dm h' = convert_row dm h"
  unfolding convert_row_def [abs_def] lut_def [abs_def] same_session_def
  by (elim conjE) (simp only:)

lemma rows_of_block_session:
  assumes "same_session h h'" "h_next_row h' = h_next_row h"
  shows "rows_of_block dm h' b = rows_of_block dm h b" "after_block h' b = after_block h b"
    "job_planes h' = job_planes h"
proof -
  have p: "h_params h' = h_params h" using assms(1) by (simp add: same_session_def)
  show "job_planes h' = job_planes h" by (simp add: job_planes_def p)
  then show "rows_of_block dm h' b = rows_of_block dm h b"
    by (simp add: rows_of_block_def block_rows_def block_row_def [abs_def] p assms(2) convert_row_session [OF assms(1)])
  show "after_block h' b = after_block h b" by (simp add: after_block_def p assms(2))
qed

lemma same_session_next [simp]: "same_session h (h'\<lparr>h_next_row := a\<rparr>) = same_session h h'"
  "same_session (h\<lparr>h_next_row := a\<rparr>) h' = same_session h h'"
  by (simp_all add: same_session_def)

lemma page_rows_session:
  "same_session h h' \<Longrightarrow> h_next_row h' = h_next_row h \<Longrightarrow> page_rows dm h' bs = page_rows dm h bs"
proof (induction bs arbitrary: h h')
  case Nil
  then show ?case by (simp add: same_session_def)
next
  case (Cons b bs)
  have "page_rows dm (h'\<lparr>h_next_row := after_block h' b\<rparr>) bs = page_rows dm (h\<lparr>h_next_row := after_block h b\<rparr>) bs"
    by (rule Cons.IH) (simp_all add: Cons.prems rows_of_block_session [OF Cons.prems])
  then show ?case by (simp add: rows_of_block_session [OF Cons.prems])
qed

lemma page_rows_count:
  "page_ok h \<Longrightarrow> int (length (page_rows dm h bs)) = p_lines (h_params h) - h_next_row h"
proof (induction bs arbitrary: h)
  case Nil
  then show ?case by (simp add: page_ok_def)
next
  case (Cons b bs)
  have "page_ok (h\<lparr>h_next_row := after_block h b\<rparr>)"
    using Cons.prems by (auto simp: page_ok_def after_block_def queue_ok_def page_wf_def margins_ok_def)
  from Cons.IH [OF this] show ?case
    using length_block_rows [OF Cons.prems] by (simp add: rows_of_block_def Let_def after_block_def)
qed

lemma page_rows_width:
  assumes "page_ok h" "length dm = 16384" "\<forall>b \<in> set bs. block_wf h b"
  shows "\<forall>row \<in> set (page_rows dm h bs). length row = bpl_of h"
  using assms(1,3)
proof (induction bs arbitrary: h)
  case Nil
  then show ?case by (simp add: white_row_def bpl_of_def)
next
  case (Cons b bs)
  have small: "length (b_body b) div unat (b_rows b) < 2 ^ 31"
  proof -
    have "length (b_body b) < 2 ^ 31" using Cons.prems(2) by (auto simp: block_wf_def PANTUM_MAX_PAYLOAD_def)
    then show ?thesis by (rule le_less_trans [OF div_le_dividend])
  qed
  have rows: "\<forall>row \<in> set (rows_of_block dm h b). length row = bpl_of h"
    unfolding rows_of_block_def Let_def
    by (rule block_rows_length [OF Cons.prems(1) assms(2) block_avail_small(2) [OF small]])
  have wf: "block_wf (h\<lparr>h_next_row := k\<rparr>) = block_wf h" for k
    by (simp add: fun_eq_iff block_wf_def job_planes_def)
  have "page_ok (h\<lparr>h_next_row := after_block h b\<rparr>)"
    using Cons.prems by (auto simp: page_ok_def after_block_def queue_ok_def page_wf_def margins_ok_def)
  from Cons.IH [OF this] Cons.prems(2) rows show ?case by (auto simp: wf bpl_of_def)
qed

lemma page_rows_bytes:
  assumes "page_ok h" "length dm = 16384" "\<forall>b \<in> set bs. block_wf h b"
  shows "length (concat (page_rows dm h bs)) = length (page_rows dm h bs) * bpl_of h"
  using page_rows_width [OF assms] by (rule length_concat_rows)

section \<open>The pump on such a stream\<close>

definition good_link :: "'w env \<Rightarrow> ('w \<Rightarrow> byte list) \<Rightarrow> bool" where
  "good_link E pend \<longleftrightarrow> link_in E pend \<and> link_ready E pend \<and> alloc_quiet E pend \<and> alloc_grants E"

lemma good_linkD:
  "good_link E pend \<Longrightarrow> link_in E pend" "good_link E pend \<Longrightarrow> link_ready E pend"
  "good_link E pend \<Longrightarrow> alloc_quiet E pend" "good_link E pend \<Longrightarrow> alloc_grants E"
  by (simp_all add: good_link_def)

text \<open>The blocks still to come, and behind them \<open>tail\<close>.\<close>

definition stream_left ::
  "('w \<Rightarrow> byte list) \<Rightarrow> byte list \<Rightarrow> pantum_handle \<Rightarrow> 'w \<Rightarrow> data_block list \<Rightarrow> bool" where
  "stream_left pend tail h w bs \<longleftrightarrow> page_ok h \<and> h_scanning h \<and> \<not> h_eof h \<and> (\<forall>b \<in> set bs. block_wf h b)
     \<and> pend w = concat (map (data_frame h) bs) @ tail"

lemma stream_left_read:
  assumes "stream_left pend tail h w bs" "queue_ok (h\<lparr>h_out_pos := k\<rparr>)"
  shows "stream_left pend tail (h\<lparr>h_out_pos := k\<rparr>) w bs"
proof -
  let ?h = "h\<lparr>h_out_pos := k\<rparr>"
  have "job_planes ?h = job_planes h" by (simp add: job_planes_def)
  then have "data_frame ?h = data_frame h" "block_wf ?h = block_wf h"
    by (simp_all add: data_frame_def [abs_def] block_wf_def [abs_def])
  with assms show ?thesis by (simp add: stream_left_def page_ok_def page_wf_def margins_ok_def)
qed

lemma frame_received:
  assumes "link_in E pend" "link_ready E pend" "length body \<le> unat PANTUM_MAX_PAYLOAD"
    "pend w = event_frame cmd body @ rest"
  obtains w' where "recv_frame E t False w =
      (Recv_Frame \<lparr>f_cmd = cmd, f_arg0 = 0, f_status = 0, f_plen = of_nat (length body)\<rparr>, w')"
    "pend w' = body @ rest"
proof -
  have "of_nat (length body) \<le> PANTUM_MAX_PAYLOAD"
    using assms(3) by (simp add: PANTUM_MAX_PAYLOAD_def word_le_nat_alt unat_of_nat take_bit_nat_eq_self)
  then have le: "f_plen \<lparr>f_cmd = cmd, f_arg0 = 0, f_status = 0, f_plen = of_nat (length body)\<rparr> \<le> PANTUM_MAX_PAYLOAD"
    by simp
  have q: "pend w = header_bytes \<lparr>f_cmd = cmd, f_arg0 = 0, f_status = 0, f_plen = of_nat (length body)\<rparr> 0
      (replicate 8 0) @ body @ rest"
    using assms(4) by (simp add: event_frame_def)
  show thesis
    by (rule recv_frame_ready [OF assms(1,2) le q, of t]) (auto intro: that)
qed

lemma pump_data:
  assumes good: "good_link E pend"
    and dm: "length dm = 16384" and left: "stream_left pend tail h w (b # bs)"
  obtains h' w' where "pump_frame E dm dbg False want h w = (pumped SANE_STATUS_GOOD, h', w')"
    "stream_left pend tail h' w' bs" "same_session h h'"
    "unread h' = unread h @ concat (rows_of_block dm h b)" "h_next_row h' = after_block h b"
    "h_locked h' = h_locked h"
proof -
  note link = good_linkD [OF good]
  have q: "pend w = data_frame h b @ concat (map (data_frame h) bs) @ tail"
    using left by (simp add: stream_left_def)
  have wf: "block_wf h b" and h: "page_ok h" "h_scanning h" "\<not> h_eof h" using left by (auto simp: stream_left_def)
  define body where "body = block_header (b_type b) (b_first b) (b_rows b) (job_planes h) (b_pixels b) (b_pad b) @ b_body b"
  have len: "length body = PANTUM_DATA_HEADER_LEN + length (b_body b)" "length body \<le> unat PANTUM_MAX_PAYLOAD"
    using wf by (auto simp: body_def block_wf_def PANTUM_DATA_HEADER_LEN_def)
  have small: "unat (of_nat (length body) :: u32) = length body"
    using len(2) by (simp add: PANTUM_MAX_PAYLOAD_def unat_of_nat take_bit_nat_eq_self)
  obtain w1 where r: "recv_frame E TIMEOUT_READ False w =
      (Recv_Frame \<lparr>f_cmd = EVT_DATA, f_arg0 = 0, f_status = 0, f_plen = of_nat (length body)\<rparr>, w1)"
    "pend w1 = body @ concat (map (data_frame h) bs) @ tail"
    by (rule frame_received [OF link(1,2) len(2), of w EVT_DATA
          "concat (map (data_frame h) bs) @ tail" TIMEOUT_READ])
      (simp_all add: q data_frame_def flip: body_def)
  have q1: "pend w1 = block_header (b_type b) (b_first b) (b_rows b) (job_planes h) (b_pixels b) (b_pad b)
      @ b_body b @ concat (map (data_frame h) bs) @ tail"
    using r(2) by (simp add: body_def)
  have plen: "unat (of_nat (length body) :: u32) = PANTUM_DATA_HEADER_LEN + length (b_body b)"
    "(of_nat (length body) :: u32) \<le> PANTUM_MAX_PAYLOAD"
    using small len by (simp_all add: word_le_nat_alt)
  have dm': "length dm = DITHER_SIZE * DITHER_SIZE" using dm by (simp add: DITHER_SIZE_def)
  obtain h' w' where d: "handle_data_block E dm (of_nat (length body)) h w1 = (SANE_STATUS_GOOD, h', w')"
    "pend w' = concat (map (data_frame h) bs) @ tail"
    "unread h' = unread h @ concat (rows_of_block dm h b)" "h_next_row h' = after_block h b" "page_ok h'" 
    using data_block_ready [OF h(1) dm' link, of "b_type b" "b_rows b" "b_pad b" "job_planes h" "b_body b"
        "of_nat (length body)" w1 "b_first b" "b_pixels b" "concat (map (data_frame h) bs) @ tail"]
      wf plen q1
    by (auto simp: block_wf_def job_planes_def rows_of_block_def Let_def after_block_def)
  obtain rows where g: "grows h rows h'"
    using data_block_grows [OF h(1) dm plen(2) d(1)] .
  have s: "same_session h h'" using g by (simp add: grows_def)
  have fl: "flags_kept h h'" "h_eof h' = h_eof h" using data_block_flags [OF h(1) dm plen(2) d(1)] by auto
  show thesis
  proof (rule that)
    show "pump_frame E dm dbg False want h w = (pumped SANE_STATUS_GOOD, h', w')"
      by (simp add: pump_frame_def r(1) d(1))
    have "job_planes h' = job_planes h" "h_params h' = h_params h" using s by (simp_all add: same_session_def job_planes_def)
    then have "data_frame h' = data_frame h" "block_wf h' = block_wf h"
      by (simp_all add: data_frame_def [abs_def] block_wf_def [abs_def])
    then show "stream_left pend tail h' w' bs"
      using left d(2,5) fl h by (auto simp: stream_left_def flags_kept_def)
  qed (use s d fl h in \<open>auto simp: flags_kept_def\<close>)
qed

lemma pump_end:
  assumes good: "good_link E pend" and left: "stream_left pend (event_frame EVT_JOB_END [] @ rest) h w []"
  obtains h' w' where "pump_frame E dm dbg False want h w = (pumped SANE_STATUS_GOOD, h', w')"
    "same_session h h'" "unread h' = unread h @ concat (page_rows dm h [])" "flags_ended h'" "h_eof h'" "queue_ok h'"
proof -
  note link = good_linkD [OF good]
  have h: "page_ok h" "h_scanning h" "\<not> h_eof h" using left by (auto simp: stream_left_def)
  have q: "pend w = event_frame EVT_JOB_END [] @ rest" using left by (simp add: stream_left_def)
  obtain w1 where r: "recv_frame E TIMEOUT_READ False w =
      (Recv_Frame \<lparr>f_cmd = EVT_JOB_END, f_arg0 = 0, f_status = 0, f_plen = of_nat (length ([] :: byte list))\<rparr>, w1)"
    by (rule frame_received [OF link(1,2) _ q, of TIMEOUT_READ]) simp_all
  obtain st h1 w2 where e: "emit_white_rows E (p_lines (h_params h)) h w1 = (st, h1, w2)" by (rule prod_cases3)
  have st: "st = SANE_STATUS_GOOD" using emit_white_rows_grants [OF e link(4)] .
  have "queue_ok h" using h(1) by (simp add: page_ok_def)
  from emit_white_rows_step [OF e this] st obtain k where k: "page_step h (replicate k (white_row (h_params h))) h1"
    "h_next_row h1 = max (h_next_row h) (min (p_lines (h_params h)) (p_lines (h_params h)))"
    by blast
  have "k = nat (p_lines (h_params h) - h_next_row h)"
    using k h(1) by (simp add: page_step_def page_ok_def)
  with k(1) have u: "unread h1 = unread h @ concat (page_rows dm h [])" "same_session h h1" "queue_ok h1"
    by (auto simp: page_step_def intro: same_session_job)
  define h' where "h' = unlocked (h1\<lparr>h_eof := True, h_scanning := False\<rparr>)"
  obtain w3 where ul: "unlock_device E (h1\<lparr>h_eof := True, h_scanning := False\<rparr>) w2 = (h', w3)"
    using unlock_device_handle [of E "h1\<lparr>h_eof := True, h_scanning := False\<rparr>" w2] by (metis h'_def prod.collapse)
  show thesis
  proof (rule that)
    show "pump_frame E dm dbg False want h w = (pumped SANE_STATUS_GOOD, h', w3)"
      by (simp add: pump_frame_def r e st ul protocol_codes drain_payload.simps)
    show "unread h' = unread h @ concat (page_rows dm h [])" using u(1) by (simp add: h'_def unlocked_def unread_def)
  qed (use u in \<open>auto simp: h'_def unlocked_def flags_ended_def queue_ok_def\<close>)
qed

text \<open>A page of the feeder ends, the job goes on.\<close>

lemma pump_page_end:
  assumes good: "good_link E pend" and left: "stream_left pend (event_frame EVT_PAGE_END [] @ rest) h w []"
    and adf: "source_is_adf h"
  obtains h' w' where "pump_frame E dm dbg False want h w = (pumped SANE_STATUS_GOOD, h', w')"
    "same_session h h'" "unread h' = unread h @ concat (page_rows dm h [])" "h_eof h'" "queue_ok h'"
    "h_feeding h'" "h_scanning h'" "h_locked h' = h_locked h" "pend w' = rest"
proof -
  note link = good_linkD [OF good]
  have h: "page_ok h" "h_scanning h" "\<not> h_eof h" using left by (auto simp: stream_left_def)
  have q: "pend w = event_frame EVT_PAGE_END [] @ rest" using left by (simp add: stream_left_def)
  obtain w1 where r: "recv_frame E TIMEOUT_READ False w =
      (Recv_Frame \<lparr>f_cmd = EVT_PAGE_END, f_arg0 = 0, f_status = 0, f_plen = of_nat (length ([] :: byte list))\<rparr>, w1)"
      "pend w1 = rest"
    by (rule frame_received [OF link(1,2) _ q, of TIMEOUT_READ]) simp_all
  obtain st h1 w2 where e: "emit_white_rows E (p_lines (h_params h)) h w1 = (st, h1, w2)" by (rule prod_cases3)
  have st: "st = SANE_STATUS_GOOD" using emit_white_rows_grants [OF e link(4)] .
  have "queue_ok h" using h(1) by (simp add: page_ok_def)
  from emit_white_rows_step [OF e this] st obtain k where k: "page_step h (replicate k (white_row (h_params h))) h1"
    "h_next_row h1 = max (h_next_row h) (min (p_lines (h_params h)) (p_lines (h_params h)))"
    by blast
  have "k = nat (p_lines (h_params h) - h_next_row h)"
    using k h(1) by (simp add: page_step_def page_ok_def)
  with k(1) have u: "unread h1 = unread h @ concat (page_rows dm h [])" "same_session h h1" "queue_ok h1"
    by (auto simp: page_step_def intro: same_session_job)
  define h' where "h' = h1\<lparr>h_eof := True, h_feeding := True\<rparr>"
  have fl: "h_scanning h' = h_scanning h" "h_locked h' = h_locked h"
    using page_step_flags [OF k(1)] by (auto simp: h'_def flags_kept_def)
  show thesis
  proof (rule that)
    show "pump_frame E dm dbg False want h w = (pumped SANE_STATUS_GOOD, h', w2)"
      using adf by (simp add: pump_frame_def r e st h'_def protocol_codes drain_payload.simps)
    show "unread h' = unread h @ concat (page_rows dm h [])" using u(1) by (simp add: h'_def unread_def)
    show "pend w2 = rest" using emit_white_rows_quiet [OF e link(3)] r(2) by simp
  qed (use u fl h in \<open>auto simp: h'_def queue_ok_def same_session_def\<close>)
qed

section \<open>Reading the page\<close>

text \<open>What the frontend still has to get: in the queue, on the wire, or owed as white.\<close>

definition page_left ::
  "(pantum_handle \<Rightarrow> 'w \<Rightarrow> data_block list \<Rightarrow> bool) \<Rightarrow> (pantum_handle \<Rightarrow> 'w \<Rightarrow> bool)
   \<Rightarrow> byte list \<Rightarrow> pantum_handle \<Rightarrow> 'w \<Rightarrow> byte list \<Rightarrow> bool" where
  "page_left left fin dm h w whole \<longleftrightarrow> \<not> h_cancelled h \<and> \<not> h_non_blocking h \<and> queue_ok h
     \<and> ((\<exists>bs. left h w bs \<and> whole = unread h @ concat (page_rows dm h bs))
        \<or> h_eof h \<and> fin h w \<and> whole = unread h)"

lemma queue_empty: "queue_ok h \<Longrightarrow> h_out_pos h = length (h_out h) \<longleftrightarrow> unread h = []"
  by (auto simp: queue_ok_def unread_def)

locale page_stream =
  fixes E :: "'w env" and dm :: "byte list"
    and left :: "pantum_handle \<Rightarrow> 'w \<Rightarrow> data_block list \<Rightarrow> bool" and fin :: "pantum_handle \<Rightarrow> 'w \<Rightarrow> bool"
  assumes left_running: "left h w bs \<Longrightarrow> queue_ok h \<and> h_scanning h \<and> \<not> h_eof h"
    and left_read: "left h w bs \<Longrightarrow> queue_ok (h\<lparr>h_out_pos := k\<rparr>) \<Longrightarrow> left (h\<lparr>h_out_pos := k\<rparr>) w bs"
    and fin_read: "fin h w \<Longrightarrow> fin (h\<lparr>h_out_pos := k\<rparr>) w"
    and pump_more: "left h w (b # bs) \<Longrightarrow>
      \<exists>h' w'. pump_frame E dm dbg False want h w = (pumped SANE_STATUS_GOOD, h', w') \<and> left h' w' bs
        \<and> same_session h h' \<and> unread h' = unread h @ concat (rows_of_block dm h b) \<and> h_next_row h' = after_block h b"
    and pump_last: "left h w [] \<Longrightarrow>
      \<exists>h' w'. pump_frame E dm dbg False want h w = (pumped SANE_STATUS_GOOD, h', w')
        \<and> same_session h h' \<and> unread h' = unread h @ concat (page_rows dm h []) \<and> h_eof h' \<and> queue_ok h' \<and> fin h' w'"
begin

text \<open>One turn of the pump with rows still to come, from the frontend's side.\<close>

lemma pump_turn:
  assumes "left h w bs" "\<not> h_cancelled h" "\<not> h_non_blocking h"
  obtains h' w' where "pump_frame E dm dbg False want h w = (pumped SANE_STATUS_GOOD, h', w')" "same_session h h'"
    "(\<exists>b bs'. bs = b # bs' \<and> left h' w' bs' \<and> unread h @ concat (page_rows dm h bs) = unread h' @ concat (page_rows dm h' bs'))
     \<or> bs = [] \<and> h_eof h' \<and> queue_ok h' \<and> fin h' w' \<and> unread h' = unread h @ concat (page_rows dm h bs)"
proof (cases bs)
  case Nil
  with pump_last [of h w dbg want] assms(1) that show thesis by auto
next
  case (Cons b bs')
  with pump_more [of h w b bs' dbg want] assms(1) obtain h' w' where p:
    "pump_frame E dm dbg False want h w = (pumped SANE_STATUS_GOOD, h', w')" "left h' w' bs'" "same_session h h'"
    "unread h' = unread h @ concat (rows_of_block dm h b)" "h_next_row h' = after_block h b"
    by blast
  have "page_rows dm h' bs' = page_rows dm (h\<lparr>h_next_row := after_block h b\<rparr>) bs'"
    by (rule page_rows_session) (simp_all add: p(3,5))
  with p Cons that show thesis by simp
qed

lemma read_pump_stream:
  assumes "page_left left fin dm h w whole"
  obtains h' w' where "read_pump E dm dbg h w = Some (None, h', w')" "page_left left fin dm h' w' whole" "same_session h h'"
    "whole \<noteq> [] \<longrightarrow> unread h' \<noteq> []" "whole = [] \<longrightarrow> unread h' = [] \<and> h_eof h'"
proof -
  have step: "\<exists>h' w'. read_pump E dm dbg h w = Some (None, h', w') \<and> page_left left fin dm h' w' whole \<and> same_session h h'
      \<and> (whole \<noteq> [] \<longrightarrow> unread h' \<noteq> []) \<and> (whole = [] \<longrightarrow> unread h' = [] \<and> h_eof h')"
    if "left h w bs" "whole = unread h @ concat (page_rows dm h bs)" "\<not> h_cancelled h" "\<not> h_non_blocking h"
    for bs h w
    using that
  proof (induction bs arbitrary: h w rule: measure_induct_rule [of length])
    case (less bs)
    note run = left_running [OF less.prems(1)]
    show ?case
    proof (cases "unread h = []")
      case False
      with less.prems run show ?thesis
        by (subst read_pump.simps) (auto simp: page_left_def queue_empty)
    next
      case True
      obtain h' w' where p: "pump_frame E dm dbg False False h w = (pumped SANE_STATUS_GOOD, h', w')" "same_session h h'"
        "(\<exists>b bs'. bs = b # bs' \<and> left h' w' bs' \<and> unread h @ concat (page_rows dm h bs) = unread h' @ concat (page_rows dm h' bs'))
         \<or> bs = [] \<and> h_eof h' \<and> queue_ok h' \<and> fin h' w' \<and> unread h' = unread h @ concat (page_rows dm h bs)"
        using pump_turn [OF less.prems(1,3,4), of dbg False] .
      have r: "read_pump E dm dbg h w = read_pump E dm dbg h' w'"
        using True run less.prems(4) p(1) by (subst read_pump.simps) (simp add: queue_empty pumped_def)
      have c: "\<not> h_cancelled h'" "\<not> h_non_blocking h'" using p(2) less.prems(3,4) by (simp_all add: same_session_def)
      from p(3) show ?thesis
      proof
        assume "\<exists>b bs'. bs = b # bs' \<and> left h' w' bs' \<and> unread h @ concat (page_rows dm h bs) = unread h' @ concat (page_rows dm h' bs')"
        then obtain b bs' where bs: "bs = b # bs'" "left h' w' bs'" "whole = unread h' @ concat (page_rows dm h' bs')"
          using less.prems(2) by auto
        have "length bs' < length bs" by (simp add: bs(1))
        from less.IH [OF this bs(2,3) c] r show ?thesis by (auto intro: same_session_trans [OF p(2)])
      next
        assume e: "bs = [] \<and> h_eof h' \<and> queue_ok h' \<and> fin h' w' \<and> unread h' = unread h @ concat (page_rows dm h bs)"
        then have "read_pump E dm dbg h' w' = Some (None, h', w')" by (subst read_pump.simps) simp
        with r e c p(2) less.prems(2) show ?thesis by (auto simp: page_left_def)
      qed
    qed
  qed
  show thesis
  proof (cases "h_eof h")
    case True
    with assms have "whole = unread h" using left_running by (auto simp: page_left_def)
    then show thesis
      using True assms by (intro that [of h w]) (auto simp: read_pump.simps [of E dm dbg h w])
  next
    case False
    with assms obtain bs where "left h w bs" "whole = unread h @ concat (page_rows dm h bs)"
      "\<not> h_cancelled h" "\<not> h_non_blocking h"
      by (auto simp: page_left_def)
    from step [OF this] that show thesis by blast
  qed
qed

lemma page_left_take:
  assumes "page_left left fin dm h w whole" "k \<le> length (unread h)"
  shows "page_left left fin dm (h\<lparr>h_out_pos := h_out_pos h + k\<rparr>) w (drop k whole)"
proof -
  let ?h = "h\<lparr>h_out_pos := h_out_pos h + k\<rparr>"
  have u: "unread ?h = drop k (unread h)" "queue_ok ?h"
    using assms by (auto simp: unread_def page_left_def queue_ok_def add.commute)
  have "page_rows dm ?h bs = page_rows dm h bs" for bs
    by (rule page_rows_session) (simp_all add: same_session_def)
  then show ?thesis
    using assms u left_read [OF _ u(2)] fin_read by (fastforce simp: page_left_def)
qed

lemma sane_read_stream:
  assumes "mask_bytes m = dm" "page_left left fin dm h w whole" "0 < n"
  shows "\<exists>h' w'. same_session h h' \<and> (if whole = []
      then sane_read E dbg m n h w = Some ((SANE_STATUS_EOF, []), h', w') \<and> h_eof h' \<and> fin h' w'
    else \<exists>data rest. sane_read E dbg m n h w = Some ((SANE_STATUS_GOOD, data), h', w') \<and> data \<noteq> []
      \<and> whole = data @ rest \<and> page_left left fin dm h' w' rest)"
proof -
  obtain h1 w1 where r: "read_pump E dm dbg h w = Some (None, h1, w1)" "page_left left fin dm h1 w1 whole"
    "same_session h h1" "whole \<noteq> [] \<longrightarrow> unread h1 \<noteq> []" "whole = [] \<longrightarrow> unread h1 = [] \<and> h_eof h1"
    using read_pump_stream [OF assms(2)] .
  have c: "\<not> h_cancelled h" "\<not> n \<le> 0" using assms(2,3) by (auto simp: page_left_def)
  have avail: "length (h_out h1) - h_out_pos h1 = length (unread h1)" by (simp add: unread_def)
  show ?thesis
  proof (cases "whole = []")
    case True
    have "fin h1 w1" using r(2,5) True left_running by (auto simp: page_left_def)
    with True r(1,3,5) c avail assms(1) show ?thesis by (simp add: sane_read_def)
  next
    case False
    define k where "k = (if nat n < length (unread h1) then nat n else length (unread h1))"
    have k: "0 < k" "k \<le> length (unread h1)" using r(4) False assms(3) by (auto simp: k_def)
    have ne: "h_out_pos h1 < length (h_out h1)" using r(4) False by (auto simp: unread_def)
    have pre: "take k whole = take k (unread h1)"
      using r(2) k(2) by (auto simp: page_left_def)
    let ?h = "h1\<lparr>h_out_pos := h_out_pos h1 + k\<rparr>"
    have "sane_read E dbg m n h w = Some ((SANE_STATUS_GOOD, take k (unread h1)), ?h, w1)"
      using r(1) c ne assms(1) by (simp add: sane_read_def avail Let_def k_def unread_def [symmetric])
    moreover have "same_session h ?h" using r(3) by (simp add: same_session_def)
    moreover have "whole = take k (unread h1) @ drop k whole" using pre by (metis append_take_drop_id)
    moreover have "take k (unread h1) \<noteq> []" using k by auto
    ultimately show ?thesis using False page_left_take [OF r(2) k(2)] by (intro exI [of _ ?h] exI [of _ w1]) auto
  qed
qed

text \<open>Reads of any sizes, one more than there are bytes: the page, and then its end.\<close>

lemma sane_reads_stream:
  assumes "mask_bytes m = dm" "page_left left fin dm h w whole" "\<forall>n \<in> set ns. 0 < n" "length whole < length ns"
  obtains h' w' where "sane_reads E dbg m ns h w = Some ((SANE_STATUS_EOF, whole), h', w')" "same_session h h'" "h_eof h'" "fin h' w'"
proof -
  have "\<exists>h' w'. sane_reads E dbg m ns h w = Some ((SANE_STATUS_EOF, whole), h', w') \<and> same_session h h' \<and> h_eof h' \<and> fin h' w'"
    using assms(2-4)
  proof (induction ns arbitrary: h w whole)
    case Nil
    then show ?case by simp
  next
    case (Cons n ns)
    from Cons.prems(2) have "0 < n" by simp
    from sane_read_stream [OF assms(1) Cons.prems(1) this, of dbg] obtain h1 w1 where s: "same_session h h1"
      "if whole = [] then sane_read E dbg m n h w = Some ((SANE_STATUS_EOF, []), h1, w1) \<and> h_eof h1 \<and> fin h1 w1
       else \<exists>data rest. sane_read E dbg m n h w = Some ((SANE_STATUS_GOOD, data), h1, w1) \<and> data \<noteq> []
         \<and> whole = data @ rest \<and> page_left left fin dm h1 w1 rest"
      by blast
    show ?case
    proof (cases "whole = []")
      case True
      with s show ?thesis by auto
    next
      case False
      with s(2) obtain data rest where d: "sane_read E dbg m n h w = Some ((SANE_STATUS_GOOD, data), h1, w1)"
        "data \<noteq> []" "whole = data @ rest" "page_left left fin dm h1 w1 rest"
        by auto
      have "length rest < length ns" using Cons.prems(3) d(2,3) by (cases data) auto
      with Cons.IH [OF d(4)] Cons.prems(2) obtain h2 w2 where
        "sane_reads E dbg m ns h1 w1 = Some ((SANE_STATUS_EOF, rest), h2, w2)" "same_session h1 h2" "h_eof h2" "fin h2 w2"
        by auto
      with d(1,3) same_session_trans [OF s(1)] show ?thesis by auto
    qed
  qed
  with that show thesis by blast
qed

lemma await_first_rows_stream:
  assumes "page_left left fin dm h w whole"
  obtains h' w' where "await_first_rows E dm dbg None h w = Some ((SANE_STATUS_GOOD, None), h', w')"
    "page_left left fin dm h' w' whole" "same_session h h'" "whole \<noteq> [] \<longrightarrow> h_out h' \<noteq> []"
proof -
  have step: "\<exists>h' w'. await_first_rows E dm dbg None h w = Some ((SANE_STATUS_GOOD, None), h', w')
      \<and> page_left left fin dm h' w' whole \<and> same_session h h' \<and> (whole \<noteq> [] \<longrightarrow> h_out h' \<noteq> [])"
    if "left h w bs" "whole = unread h @ concat (page_rows dm h bs)" "\<not> h_cancelled h" "\<not> h_non_blocking h"
    for bs h w
    using that
  proof (induction bs arbitrary: h w rule: measure_induct_rule [of length])
    case (less bs)
    note run = left_running [OF less.prems(1)]
    show ?case
    proof (cases "h_out h = []")
      case False
      with less.prems run show ?thesis
        by (subst await_first_rows.simps) (auto simp: page_left_def)
    next
      case True
      obtain h' w' where p: "pump_frame E dm dbg False True h w = (pumped SANE_STATUS_GOOD, h', w')" "same_session h h'"
        "(\<exists>b bs'. bs = b # bs' \<and> left h' w' bs' \<and> unread h @ concat (page_rows dm h bs) = unread h' @ concat (page_rows dm h' bs'))
         \<or> bs = [] \<and> h_eof h' \<and> queue_ok h' \<and> fin h' w' \<and> unread h' = unread h @ concat (page_rows dm h bs)"
        using pump_turn [OF less.prems(1,3,4), of dbg True] .
      have r: "await_first_rows E dm dbg None h w = await_first_rows E dm dbg None h' w'"
        using True run p(1) by (subst await_first_rows.simps) (simp add: pumped_def)
      have c: "\<not> h_cancelled h'" "\<not> h_non_blocking h'" using p(2) less.prems(3,4) by (simp_all add: same_session_def)
      from p(3) show ?thesis
      proof
        assume "\<exists>b bs'. bs = b # bs' \<and> left h' w' bs' \<and> unread h @ concat (page_rows dm h bs) = unread h' @ concat (page_rows dm h' bs')"
        then obtain b bs' where bs: "bs = b # bs'" "left h' w' bs'" "whole = unread h' @ concat (page_rows dm h' bs')"
          using less.prems(2) by auto
        have "length bs' < length bs" by (simp add: bs(1))
        from less.IH [OF this bs(2,3) c] r show ?thesis by (auto intro: same_session_trans [OF p(2)])
      next
        assume e: "bs = [] \<and> h_eof h' \<and> queue_ok h' \<and> fin h' w' \<and> unread h' = unread h @ concat (page_rows dm h bs)"
        then have "await_first_rows E dm dbg None h' w' = Some ((SANE_STATUS_GOOD, None), h', w')"
          by (subst await_first_rows.simps) simp
        moreover have u: "unread h' = whole" using e less.prems(2) by simp
        moreover have "whole \<noteq> [] \<longrightarrow> h_out h' \<noteq> []" by (auto simp: unread_def simp flip: u)
        ultimately show ?thesis using r e c p(2) by (auto simp: page_left_def)
      qed
    qed
  qed
  show thesis
  proof (cases "h_eof h")
    case True
    then show thesis
      using assms left_running
      by (intro that [of h w]) (auto simp: await_first_rows.simps [of E dm dbg None h w] page_left_def unread_def)
  next
    case False
    with assms obtain bs where "left h w bs" "whole = unread h @ concat (page_rows dm h bs)"
      "\<not> h_cancelled h" "\<not> h_non_blocking h"
      by (auto simp: page_left_def)
    from step [OF this] that show thesis by blast
  qed
qed

end

section \<open>The two ways a page ends\<close>

text \<open>On the flatbed the job ends with the page.\<close>

definition flatbed_left ::
  "'w env \<Rightarrow> ('w \<Rightarrow> byte list) \<Rightarrow> byte list \<Rightarrow> byte list \<Rightarrow> pantum_handle \<Rightarrow> 'w \<Rightarrow> data_block list \<Rightarrow> bool" where
  "flatbed_left E pend dm rest h w bs \<longleftrightarrow> good_link E pend \<and> length dm = 16384
     \<and> stream_left pend (event_frame EVT_JOB_END [] @ rest) h w bs"

definition job_over :: "pantum_handle \<Rightarrow> 'w \<Rightarrow> bool" where
  "job_over h w \<longleftrightarrow> flags_ended h"

interpretation flatbed: page_stream E dm "flatbed_left E pend dm rest" job_over
  for E :: "'w env" and dm pend rest
proof
  fix h :: pantum_handle and w :: 'w and b bs dbg want k
  show "flatbed_left E pend dm rest h w bs \<Longrightarrow> queue_ok h \<and> h_scanning h \<and> \<not> h_eof h"
    by (simp add: flatbed_left_def stream_left_def page_ok_def)
  show "flatbed_left E pend dm rest h w bs \<Longrightarrow> queue_ok (h\<lparr>h_out_pos := k\<rparr>) \<Longrightarrow> flatbed_left E pend dm rest (h\<lparr>h_out_pos := k\<rparr>) w bs"
    by (simp add: flatbed_left_def stream_left_read)
  show "job_over h w \<Longrightarrow> job_over (h\<lparr>h_out_pos := k\<rparr>) w"
    by (simp add: job_over_def flags_ended_def)
  show "flatbed_left E pend dm rest h w (b # bs) \<Longrightarrow>
      \<exists>h' w'. pump_frame E dm dbg False want h w = (pumped SANE_STATUS_GOOD, h', w') \<and> flatbed_left E pend dm rest h' w' bs
        \<and> same_session h h' \<and> unread h' = unread h @ concat (rows_of_block dm h b) \<and> h_next_row h' = after_block h b"
    unfolding flatbed_left_def by (metis pump_data)
  show "flatbed_left E pend dm rest h w [] \<Longrightarrow>
      \<exists>h' w'. pump_frame E dm dbg False want h w = (pumped SANE_STATUS_GOOD, h', w')
        \<and> same_session h h' \<and> unread h' = unread h @ concat (page_rows dm h []) \<and> h_eof h' \<and> queue_ok h' \<and> job_over h' w'"
    unfolding flatbed_left_def job_over_def by (metis pump_end)
qed

text \<open>In the feeder the job goes on, still locked, and what follows is still on the wire.\<close>

definition feeder_left ::
  "'w env \<Rightarrow> ('w \<Rightarrow> byte list) \<Rightarrow> byte list \<Rightarrow> byte list \<Rightarrow> pantum_handle \<Rightarrow> 'w \<Rightarrow> data_block list \<Rightarrow> bool" where
  "feeder_left E pend dm rest h w bs \<longleftrightarrow> good_link E pend \<and> length dm = 16384 \<and> source_is_adf h \<and> h_locked h
     \<and> stream_left pend (event_frame EVT_PAGE_END [] @ rest) h w bs"

definition between_pages :: "('w \<Rightarrow> byte list) \<Rightarrow> byte list \<Rightarrow> pantum_handle \<Rightarrow> 'w \<Rightarrow> bool" where
  "between_pages pend rest h w \<longleftrightarrow> h_feeding h \<and> h_scanning h \<and> h_locked h \<and> pend w = rest"

lemma source_session: "same_session h h' \<Longrightarrow> source_is_adf h' = source_is_adf h"
  by (simp add: same_session_def source_is_adf_def source_code_def)

interpretation feeder: page_stream E dm "feeder_left E pend dm rest" "between_pages pend rest"
  for E :: "'w env" and dm pend rest
proof
  fix h :: pantum_handle and w :: 'w and b bs dbg want k
  show "feeder_left E pend dm rest h w bs \<Longrightarrow> queue_ok h \<and> h_scanning h \<and> \<not> h_eof h"
    by (simp add: feeder_left_def stream_left_def page_ok_def)
  have s: "source_is_adf (h\<lparr>h_out_pos := k\<rparr>) = source_is_adf h"
    by (rule source_session) (simp add: same_session_def)
  show "feeder_left E pend dm rest h w bs \<Longrightarrow> queue_ok (h\<lparr>h_out_pos := k\<rparr>) \<Longrightarrow> feeder_left E pend dm rest (h\<lparr>h_out_pos := k\<rparr>) w bs"
    by (simp add: feeder_left_def stream_left_read s)
  show "between_pages pend rest h w \<Longrightarrow> between_pages pend rest (h\<lparr>h_out_pos := k\<rparr>) w"
    by (simp add: between_pages_def)
  show "feeder_left E pend dm rest h w (b # bs) \<Longrightarrow>
      \<exists>h' w'. pump_frame E dm dbg False want h w = (pumped SANE_STATUS_GOOD, h', w') \<and> feeder_left E pend dm rest h' w' bs
        \<and> same_session h h' \<and> unread h' = unread h @ concat (rows_of_block dm h b) \<and> h_next_row h' = after_block h b"
    unfolding feeder_left_def by (metis pump_data source_session)
  show "feeder_left E pend dm rest h w [] \<Longrightarrow>
      \<exists>h' w'. pump_frame E dm dbg False want h w = (pumped SANE_STATUS_GOOD, h', w')
        \<and> same_session h h' \<and> unread h' = unread h @ concat (page_rows dm h []) \<and> h_eof h' \<and> queue_ok h' \<and> between_pages pend rest h' w'"
    unfolding feeder_left_def between_pages_def by (metis pump_page_end)
qed

end
