(* ===== verification/Scan_Page.thy ===== *)
theory Scan_Page
  imports Page_Stream
begin

text \<open>
  A scan end to end. A device that acknowledges every request of a job and then sends the
  pages' streams is followed through \<^verbatim>\<open>sane_start\<close> and any sequence of reads
  to the bytes the frontend gets: one page from the flatbed, all the pages of a job from the
  feeder.
\<close>

section \<open>Starting the job\<close>

lemma ack_answered:
  assumes "link_in E pend" "link_ready E pend" "length payload \<le> PANTUM_SETTINGS_LEN"
    "want = None \<and> body = [] \<or> want = Some (length body) \<and> body \<noteq> []" "length body \<le> unat PANTUM_MAX_PAYLOAD"
    "pend w = event_frame cmd body @ rest"
  obtains r w' where "command E cmd payload want w = (r, w')" "c_status r = SANE_STATUS_GOOD" "c_reply r = body"
    "pend w' = rest"
proof -
  have small: "unat (of_nat (length body) :: u32) = length body"
    using assms(5) by (simp add: PANTUM_MAX_PAYLOAD_def unat_of_nat take_bit_nat_eq_self)
  have wf: "frame_wf (\<lparr>f_cmd = cmd, f_arg0 = 0, f_status = 0, f_plen = of_nat (length body)\<rparr>, 0, replicate 8 0, body)"
    using assms(5) small by (simp add: word_le_nat_alt)
  obtain w' where "command E cmd payload want w = (\<lparr>c_status = SANE_STATUS_GOOD,
      c_ack = Some \<lparr>f_cmd = cmd, f_arg0 = 0, f_status = 0, f_plen = of_nat (length body)\<rparr>,
      c_reply = (if want = None then [] else body)\<rparr>, w')" "pend w' = rest"
    using command_answered [OF assms(1,2,3) wf _ _ _, of cmd want w rest] assms(4,6)
    by (auto simp: event_frame_def)
  with assms(4) that show thesis by auto
qed

lemma lock_device_answered:
  assumes "link_in E pend" "link_ready E pend" "pend w = event_frame CMD_LOCK [] @ rest"
  obtains w' where "lock_device E h w = (SANE_STATUS_GOOD, h\<lparr>h_locked := True\<rparr>, w')" "pend w' = rest"
proof -
  obtain r w' where "command E CMD_LOCK [] None w = (r, w')" "c_status r = SANE_STATUS_GOOD" "c_reply r = []" "pend w' = rest"
    by (rule ack_answered [OF assms(1,2) _ _ _ assms(3), of "[]" None]) simp_all
  then show thesis by (intro that [of w']) (simp_all add: lock_device_def eval_nat_numeral)
qed

text \<open>The four requests of a job, acknowledged; the settings come back with the second.\<close>

definition setup_acks :: "byte list \<Rightarrow> byte list" where
  "setup_acks settings = event_frame CMD_SET_DEFAULTS [] @ event_frame CMD_GET_SETTINGS settings
     @ event_frame CMD_SET_SETTINGS [] @ event_frame CMD_START []"

lemma setup_job_answered:
  assumes link: "link_in E pend" "link_ready E pend" and "length settings = PANTUM_SETTINGS_LEN"
    "pend w = setup_acks settings @ rest"
  obtains w' where "setup_job E h w = (SANE_STATUS_GOOD, w')" "pend w' = rest"
proof -
  note ready = ack_answered [OF link]
  have len: "length settings = 100" "settings \<noteq> []" using assms(3) by (auto simp: PANTUM_SETTINGS_LEN_def)
  obtain r1 w1 where 1: "command E CMD_SET_DEFAULTS [] None w = (r1, w1)" "c_status r1 = SANE_STATUS_GOOD" "c_reply r1 = []"
    "pend w1 = event_frame CMD_GET_SETTINGS settings @ event_frame CMD_SET_SETTINGS [] @ event_frame CMD_START [] @ rest"
    by (rule ready [of "[]" None "[]" w CMD_SET_DEFAULTS]) (simp_all add: assms(4) setup_acks_def)
  obtain r2 w2 where 2: "command E CMD_GET_SETTINGS [] (Some PANTUM_SETTINGS_LEN) w1 = (r2, w2)"
    "c_status r2 = SANE_STATUS_GOOD" "c_reply r2 = settings"
    "pend w2 = event_frame CMD_SET_SETTINGS [] @ event_frame CMD_START [] @ rest"
    by (rule ready [OF _ _ _ 1(4), of "[]" "Some PANTUM_SETTINGS_LEN"])
       (simp_all add: len PANTUM_SETTINGS_LEN_def PANTUM_MAX_PAYLOAD_def)
  obtain r3 w3 where 3: "command E CMD_SET_SETTINGS (job_settings h settings) None w2 = (r3, w3)"
    "c_status r3 = SANE_STATUS_GOOD" "c_reply r3 = []" "pend w3 = event_frame CMD_START [] @ rest"
    by (rule ready [OF _ _ _ 2(4), of "job_settings h settings" None])
       (simp_all add: job_settings_length PANTUM_SETTINGS_LEN_def)
  obtain r4 w4 where 4: "command E CMD_START [] None w3 = (r4, w4)" "c_status r4 = SANE_STATUS_GOOD" "c_reply r4 = []" "pend w4 = rest"
    by (rule ready [OF _ _ _ 3(4), of "[]" None]) simp_all
  show thesis
    using 1 2 3 4 by (intro that [of w4]) (simp_all add: setup_job_def)
qed

text \<open>The lock, for a feeder job the sheet it looks for, and the job's setup.\<close>

definition adf_reply :: "byte list" where
  "adf_reply = frame_wire (\<lparr>f_cmd = CMD_ADF_STATUS, f_arg0 = 1, f_status = 0, f_plen = 0\<rparr>, 0, replicate 8 0, [])"

definition job_acks :: "pantum_handle \<Rightarrow> byte list \<Rightarrow> byte list" where
  "job_acks h settings = event_frame CMD_LOCK [] @ (if source_is_adf h then adf_reply else []) @ setup_acks settings"

lemma check_adf_answered:
  assumes "link_in E pend" "link_ready E pend" "pend w = adf_reply @ rest"
  obtains w' where "check_adf E w = ((SANE_STATUS_GOOD, True, True), w')" "pend w' = rest"
proof -
  obtain w1 where 1: "send_frame E CMD_ADF_STATUS [] w = (SANE_STATUS_GOOD, w1)" "pend w1 = pend w"
    by (rule send_frame_ready [OF assms(2), of "[]" CMD_ADF_STATUS w]) simp_all
  have q: "pend w1 = header_bytes \<lparr>f_cmd = CMD_ADF_STATUS, f_arg0 = 1, f_status = 0, f_plen = 0\<rparr> 0 (replicate 8 0) @ rest"
    using 1(2) assms(3) by (simp add: adf_reply_def)
  obtain w2 where 2: "recv_frame E TIMEOUT_READ False w1 =
      (Recv_Frame \<lparr>f_cmd = CMD_ADF_STATUS, f_arg0 = 1, f_status = 0, f_plen = 0\<rparr>, w2)" "pend w2 = rest"
    by (rule recv_frame_ready [OF assms(1,2) _ q, of TIMEOUT_READ]) (simp_all add: PANTUM_MAX_PAYLOAD_def)
  show thesis
    using 1(1) 2 by (intro that [of w2]) (simp_all add: check_adf_def)
qed

text \<open>The handle once the device has the job.\<close>

definition running_page :: "pantum_handle \<Rightarrow> pantum_handle" where
  "running_page h = (fresh_page h)\<lparr>h_locked := True, h_scanning := True\<rparr>"

lemma running_page_simps [simp]:
  "same_session h (running_page h)" "unread (running_page h) = []" "h_scanning (running_page h)"
  "h_locked (running_page h)" "\<not> h_eof (running_page h)" "h_next_row (running_page h) = 0"
  by (simp_all add: running_page_def fresh_page_def same_session_def unread_def)

lemma running_page_ok: "page_ready h \<Longrightarrow> page_ok (running_page h)"
  using fresh_page_ok by (simp add: running_page_def)

lemma run_job_answered:
  assumes link: "link_in E pend" "link_ready E pend" and dev: "length settings = PANTUM_SETTINGS_LEN"
    "pend w = job_acks h settings @ rest"
  obtains w' where "run_job E dm dbg h w = await_first_rows E dm dbg None (running_page h) w'" "pend w' = rest"
proof -
  define h1 where "h1 = (fresh_page h)\<lparr>h_locked := True\<rparr>"
  have adf: "source_is_adf h1 = source_is_adf h"
    by (rule source_session) (simp add: h1_def)
  have q: "pend w = event_frame CMD_LOCK [] @ (if source_is_adf h then adf_reply else []) @ setup_acks settings @ rest"
    using dev(2) by (simp add: job_acks_def)
  obtain w1 where 1: "lock_device E (fresh_page h) w = (SANE_STATUS_GOOD, h1, w1)"
    "pend w1 = (if source_is_adf h then adf_reply else []) @ setup_acks settings @ rest"
    using lock_device_answered [OF link q, of "fresh_page h"] unfolding h1_def .
  obtain w2 where 2: "(if source_is_adf h then check_adf E w1 else ((SANE_STATUS_GOOD, False, False), w1))
      = ((SANE_STATUS_GOOD, source_is_adf h, source_is_adf h), w2)" "pend w2 = setup_acks settings @ rest"
  proof (cases "source_is_adf h")
    case True
    with 1(2) obtain w2 where "check_adf E w1 = ((SANE_STATUS_GOOD, True, True), w2)" "pend w2 = setup_acks settings @ rest"
      using check_adf_answered [OF link, of w1] by (metis append_assoc)
    with True that show thesis by simp
  qed (use 1(2) that in simp)
  obtain w3 where 3: "setup_job E h1 w2 = (SANE_STATUS_GOOD, w3)" "pend w3 = rest"
    using setup_job_answered [OF link dev(1) 2(2)] .
  have "run_job E dm dbg h w = await_first_rows E dm dbg None (h1\<lparr>h_scanning := True\<rparr>) w3"
    using 1(1) 2(1) 3(1) by (simp add: run_job_def Let_def fresh_page_def adf split: if_splits)
  with 3(2) that show thesis by (simp add: h1_def running_page_def)
qed


text \<open>From the request for a page to its first rows, in either kind of job.\<close>

lemma data_frame_session: "same_session h h' \<Longrightarrow> data_frame h' = data_frame h" "same_session h h' \<Longrightarrow> block_wf h' = block_wf h"
  by (simp_all add: fun_eq_iff data_frame_def block_wf_def job_planes_def same_session_def)

lemma job_handle_fields:
  "source_is_adf (job_handle h) = source_is_adf h" "h_non_blocking (job_handle h) = h_non_blocking h"
  by (simp_all add: job_handle_def Let_def source_is_adf_def source_code_def set_margins_fields prepare_job_fields)
     (simp add: set_margins_def Let_def prepare_job_def split: prod.splits)

context page_stream
begin

lemma run_job_stream:
  assumes good: "good_link E pend" and h: "\<not> h_cancelled h" "\<not> h_non_blocking h" "page_ready h"
    and dev: "length settings = PANTUM_SETTINGS_LEN" "pend w = job_acks h settings @ rest"
    and left: "\<And>w'. pend w' = rest \<Longrightarrow> left (running_page h) w' bs"
  obtains h' w' where "run_job E dm dbg h w = Some ((SANE_STATUS_GOOD, None), h', w')" "same_session h h'"
    "page_left left fin dm h' w' (concat (page_rows dm (fresh_page h) bs))"
proof -
  obtain w1 where 1: "run_job E dm dbg h w = await_first_rows E dm dbg None (running_page h) w1" "pend w1 = rest"
    using run_job_answered [OF good_linkD(1,2) [OF good] dev] .
  have s: "same_session h (running_page h)" by simp
  have rows: "page_rows dm (running_page h) bs = page_rows dm (fresh_page h) bs"
    by (rule page_rows_session) (simp_all add: running_page_def)
  have "page_left left fin dm (running_page h) w1 (concat (page_rows dm (fresh_page h) bs))"
    using left [OF 1(2)] h s running_page_ok [OF h(3)] rows
    by (auto simp: page_left_def page_ok_def same_session_def intro!: exI [of _ bs])
  then obtain h' w' where a: "await_first_rows E dm dbg None (running_page h) w1 = Some ((SANE_STATUS_GOOD, None), h', w')"
    "page_left left fin dm h' w' (concat (page_rows dm (fresh_page h) bs))" "same_session (running_page h) h'"
    using await_first_rows_stream by blast
  with 1(1) that same_session_trans [OF s] show thesis by simp
qed

lemma sane_start_stream:
  assumes good: "good_link E pend"
    and h: "session_ok h" "\<not> h_scanning h" "\<not> h_cancelled h" "\<not> h_non_blocking h"
    and m: "mask_bytes m = dm" "mode_is h SCAN_MODE_HALFTONE \<longrightarrow> m \<noteq> None"
    and dev: "length settings = PANTUM_SETTINGS_LEN" "pend w = job_acks (job_handle h) settings @ rest"
    and left: "\<And>w'. pend w' = rest \<Longrightarrow> left (running_page (job_handle h)) w' bs"
  obtains h' w' where "sane_start F E dbg m h w = Some ((SANE_STATUS_GOOD, m), h', w')"
    "same_session (job_handle h) h'"
    "page_left left fin dm h' w' (concat (page_rows dm (fresh_page (job_handle h)) bs))"
proof -
  note j = job_handle_ok [OF h(1,2)]
  have nb: "\<not> h_non_blocking (job_handle h)" using h(4) by (simp add: job_handle_fields)
  have nf: "\<not> h_feeding h" using h(1,2) by (auto simp: session_ok_def lock_ok_def)
  obtain h' w' where r: "run_job E dm dbg (job_handle h) w = Some ((SANE_STATUS_GOOD, None), h', w')"
    "same_session (job_handle h) h'"
    "page_left left fin dm h' w' (concat (page_rows dm (fresh_page (job_handle h)) bs))"
    using run_job_stream [OF good j(4) nb j(6) dev left] by blast
  have "(if h_halftone (prepare_job h) then build_dither_mask F E m w else Some ((SANE_STATUS_GOOD, m), w))
      = Some ((SANE_STATUS_GOOD, m), w)"
    using m(2) by (auto simp: prepare_job_def build_dither_mask_def)
  then have "start_new_job F E dbg m h w = Some ((SANE_STATUS_GOOD, m), h', w')"
    using r(1) m(1) by (simp add: start_new_job_def Let_def job_handle_def eval_nat_numeral)
  then have "sane_start F E dbg m h w = Some ((SANE_STATUS_GOOD, m), h', w')"
    using h nf by (simp add: sane_start_def)
  with r(2,3) that show thesis by blast
qed

text \<open>The next page of a job that runs.\<close>

lemma resume_stream:
  assumes h: "h_feeding h" "\<not> h_cancelled h" "\<not> h_non_blocking h" "page_ready h" and m: "mask_bytes m = dm"
    and left: "left ((fresh_page h)\<lparr>h_feeding := False\<rparr>) w bs"
    and dm: "length dm = 16384" "\<forall>b \<in> set bs. block_wf h b"
  obtains h' w' where "sane_start F E dbg m h w = Some ((SANE_STATUS_GOOD, m), h', w')" "same_session h h'"
    "page_left left fin dm h' w' (concat (page_rows dm (fresh_page h) bs))"
proof -
  let ?h = "(fresh_page h)\<lparr>h_feeding := False\<rparr>"
  define whole where "whole = concat (page_rows dm (fresh_page h) bs)"
  have s: "same_session h ?h" by simp
  have rows: "page_rows dm ?h bs = page_rows dm (fresh_page h) bs"
    by (rule page_rows_session) (simp_all add: same_session_def)
  have u: "unread ?h = []" by (simp add: fresh_page_def unread_def)
  have "page_left left fin dm ?h w whole"
    using left left_running [OF left] h s rows u
    by (auto simp: page_left_def same_session_def whole_def intro!: exI [of _ bs])
  then obtain h' w' where a: "await_first_rows E dm dbg None ?h w = Some ((SANE_STATUS_GOOD, None), h', w')"
    "page_left left fin dm h' w' whole" "same_session ?h h'" "whole \<noteq> [] \<longrightarrow> h_out h' \<noteq> []"
    using await_first_rows_stream by blast
  have ok: "page_ok (fresh_page h)" using fresh_page_ok [OF h(4)] .
  have "0 < p_lines (h_params h)" "0 < p_bytes_per_line (h_params h)"
    using h(4) page_wf_bpl by (auto simp: page_ready_def page_wf_def params_wf_def)
  moreover have "int (length (page_rows dm (fresh_page h) bs)) = p_lines (h_params h)"
    using page_rows_count [OF ok, of dm bs] by (simp add: fresh_page_def)
  moreover have "length whole = length (page_rows dm (fresh_page h) bs) * bpl_of h"
    using page_rows_bytes [OF ok dm(1), of bs] dm(2) by (simp add: whole_def data_frame_session(2) [OF fresh_page_simps(3)])
  ultimately have "whole \<noteq> []" by (auto simp: bpl_of_def)
  with a(1,4) have "resume_job E dm dbg h w = Some (SANE_STATUS_GOOD, h', w')"
    by (simp add: resume_job_def Let_def fresh_page_def)
  then have "sane_start F E dbg m h w = Some ((SANE_STATUS_GOOD, m), h', w')"
    using h m by (simp add: sane_start_def)
  with a(2,3) same_session_trans [OF s] that show thesis by (simp add: whole_def)
qed

end

section \<open>A flatbed scan\<close>

text \<open>All the device has to say to a flatbed job.\<close>

definition flatbed_stream :: "pantum_handle \<Rightarrow> byte list \<Rightarrow> data_block list \<Rightarrow> byte list" where
  "flatbed_stream h settings bs = job_acks h settings @ concat (map (data_frame h) bs) @ event_frame EVT_JOB_END []"

lemma stream_left_running:
  assumes "page_ready h" "\<forall>b \<in> set bs. block_wf h b" "pend w = concat (map (data_frame h) bs) @ tail"
  shows "stream_left pend tail (running_page h) w bs"
  using assms running_page_ok [OF assms(1)] by (simp add: stream_left_def data_frame_session [OF running_page_simps(1)])

lemma flatbed_start_stream:
  assumes good: "good_link E pend"
    and h: "session_ok h" "\<not> h_scanning h" "\<not> h_cancelled h" "\<not> h_non_blocking h"
    and m: "mask_ok m" "mode_is h SCAN_MODE_HALFTONE \<longrightarrow> m \<noteq> None"
    and dev: "\<forall>b \<in> set bs. block_wf (job_handle h) b" "length settings = PANTUM_SETTINGS_LEN"
      "pend w = flatbed_stream (job_handle h) settings bs @ rest"
  obtains h' w' where "sane_start F E dbg m h w = Some ((SANE_STATUS_GOOD, m), h', w')"
    "same_session (job_handle h) h'"
    "page_left (flatbed_left E pend (mask_bytes m) rest) job_over (mask_bytes m) h' w'
       (concat (page_rows (mask_bytes m) (fresh_page (job_handle h)) bs))"
proof (rule flatbed.sane_start_stream [OF good h refl m(2) dev(2)])
  let ?rest = "concat (map (data_frame (job_handle h)) bs) @ event_frame EVT_JOB_END [] @ rest"
  show "pend w = job_acks (job_handle h) settings @ ?rest" using dev(3) by (simp add: flatbed_stream_def)
  show "flatbed_left E pend (mask_bytes m) rest (running_page (job_handle h)) w' bs" if "pend w' = ?rest" for w'
    using stream_left_running [of _ _ pend, OF job_handle_ok(6) [OF h(1,2)] dev(1) that] good m(1)
    by (simp add: flatbed_left_def mask_ok_def)
qed (rule that)

section \<open>A feeder scan\<close>

text \<open>All the device has to say to a feeder job: the pages of \<open>pages\<close>, one behind the
  other, each closed by a page-end marker.\<close>

definition page_wire :: "pantum_handle \<Rightarrow> data_block list \<Rightarrow> byte list" where
  "page_wire h bs = concat (map (data_frame h) bs) @ event_frame EVT_PAGE_END []"

definition feeder_stream :: "pantum_handle \<Rightarrow> byte list \<Rightarrow> data_block list list \<Rightarrow> byte list" where
  "feeder_stream h settings pages = job_acks h settings @ concat (map (page_wire h) pages)"

text \<open>A frontend that scans page after page: it starts each and reads it with the buffer
  sizes given for it, until a start fails.\<close>

fun scan_pages ::
  "'f float_ops \<Rightarrow> 'w env \<Rightarrow> int \<Rightarrow> byte list option \<Rightarrow> int list list \<Rightarrow> pantum_handle \<Rightarrow> 'w
   \<Rightarrow> ((sane_status \<times> byte list) list \<times> pantum_handle \<times> 'w) option" where
  "scan_pages F E dbg m [] h w = Some ([], h, w)"
| "scan_pages F E dbg m (ns # nss) h w =
     (case sane_start F E dbg m h w of
        None \<Rightarrow> None
      | Some ((st, m1), h1, w1) \<Rightarrow>
          if st \<noteq> SANE_STATUS_GOOD then Some ([(st, [])], h1, w1)
          else (case sane_reads E dbg m1 ns h1 w1 of
                  None \<Rightarrow> None
                | Some (page, h2, w2) \<Rightarrow>
                    (case scan_pages F E dbg m1 nss h2 w2 of
                       None \<Rightarrow> None
                     | Some (pages, h3, w3) \<Rightarrow> Some (page # pages, h3, w3))))"

text \<open>What the frontend gets: each page whole, and the end of the page.\<close>

definition feeder_pages :: "byte list \<Rightarrow> pantum_handle \<Rightarrow> data_block list list \<Rightarrow> (sane_status \<times> byte list) list" where
  "feeder_pages dm h pages = map (\<lambda>bs. (SANE_STATUS_EOF, concat (page_rows dm (fresh_page h) bs))) pages"

definition reads_enough :: "byte list \<Rightarrow> pantum_handle \<Rightarrow> data_block list \<Rightarrow> int list \<Rightarrow> bool" where
  "reads_enough dm h bs ns \<longleftrightarrow> (\<forall>n \<in> set ns. 0 < n) \<and> length (concat (page_rows dm (fresh_page h) bs)) < length ns"

lemma fresh_page_session:
  assumes "same_session h h'"
  shows "page_rows dm (fresh_page h') bs = page_rows dm (fresh_page h) bs"
  by (rule page_rows_session) (use assms in \<open>simp_all add: same_session_def fresh_page_def\<close>)

lemma page_ready_session: "same_session h h' \<Longrightarrow> page_ready h' = page_ready h"
  by (simp add: same_session_def page_ready_def page_wf_def margins_ok_def)

lemma stream_left_next:
  assumes "page_ready h" "\<forall>b \<in> set bs. block_wf h b" "h_scanning h" "pend w = concat (map (data_frame h) bs) @ tail"
  shows "stream_left pend tail ((fresh_page h)\<lparr>h_feeding := False\<rparr>) w bs"
proof -
  have "same_session h ((fresh_page h)\<lparr>h_feeding := False\<rparr>)" by simp
  note same = data_frame_session [OF this]
  show ?thesis using assms fresh_page_ok [OF assms(1)] by (simp add: stream_left_def same)
qed

text \<open>The pages after the first: the handle is between pages, \<open>j\<close> is what the job
  started with.\<close>

lemma further_pages:
  assumes good: "good_link E pend" and m: "mask_ok m" and adf: "source_is_adf j"
    and j: "page_ready j" "\<not> h_cancelled j" "\<not> h_non_blocking j"
    and run: "same_session j h" "between_pages pend (concat (map (page_wire j) pages) @ rest) h w"
    and dev: "\<forall>bs \<in> set pages. \<forall>b \<in> set bs. block_wf j b"
    and reads: "list_all2 (reads_enough (mask_bytes m) j) pages nss"
  shows "\<exists>h' w'. scan_pages F E dbg m nss h w = Some (feeder_pages (mask_bytes m) j pages, h', w')
    \<and> same_session j h' \<and> between_pages pend rest h' w'"
  using run dev reads
proof (induction pages arbitrary: nss h w)
  case Nil
  then show ?case by (simp add: feeder_pages_def)
next
  case (Cons bs pages)
  obtain ns nss' where nss: "nss = ns # nss'" "reads_enough (mask_bytes m) j bs ns"
    "list_all2 (reads_enough (mask_bytes m) j) pages nss'"
    using Cons.prems(4) by (auto simp: list_all2_Cons1)
  let ?dm = "mask_bytes m" and ?rest = "concat (map (page_wire j) pages) @ rest"
  let ?left = "feeder_left E pend ?dm ?rest" and ?fin = "between_pages pend ?rest"
  have dm: "length ?dm = 16384" using m by (simp add: mask_ok_def)
  have s: "same_session j h" and b: "h_feeding h" "h_scanning h" "h_locked h" using Cons.prems(1,2) by (auto simp: between_pages_def)
  have h: "\<not> h_cancelled h" "\<not> h_non_blocking h" "page_ready h" "source_is_adf h"
    using s j adf page_ready_session [OF s] source_session [OF s] by (simp_all add: same_session_def)
  have wf: "\<forall>b \<in> set bs. block_wf h b" using Cons.prems(3) by (simp add: data_frame_session [OF s])
  have q: "pend w = concat (map (data_frame h) bs) @ event_frame EVT_PAGE_END [] @ ?rest"
    using Cons.prems(2) by (simp add: between_pages_def page_wire_def [of j bs] data_frame_session [OF s])
  have "source_is_adf ((fresh_page h)\<lparr>h_feeding := False\<rparr>)" using source_session [of h "(fresh_page h)\<lparr>h_feeding := False\<rparr>"] h(4) by simp
  then have left: "?left ((fresh_page h)\<lparr>h_feeding := False\<rparr>) w bs"
    using stream_left_next [of _ _ pend, OF h(3) wf b(2) q] good dm b(3) by (simp add: feeder_left_def)
  obtain h1 w1 where 1: "sane_start F E dbg m h w = Some ((SANE_STATUS_GOOD, m), h1, w1)" "same_session h h1"
    "page_left ?left ?fin ?dm h1 w1 (concat (page_rows ?dm (fresh_page h) bs))"
    using feeder.resume_stream [OF b(1) h(1-3) refl left dm wf] .
  have page: "page_rows ?dm (fresh_page h) bs = page_rows ?dm (fresh_page j) bs"
    using fresh_page_session [OF s] .
  obtain h2 w2 where 2: "sane_reads E dbg m ns h1 w1 = Some ((SANE_STATUS_EOF, concat (page_rows ?dm (fresh_page j) bs)), h2, w2)"
    "same_session h1 h2" "?fin h2 w2"
    using feeder.sane_reads_stream [OF refl 1(3) [unfolded page]] nss(2) unfolding reads_enough_def by blast
  have s2: "same_session j h2" using s 1(2) 2(2) same_session_trans by blast
  from Cons.IH [OF s2 2(3) _ nss(3)] Cons.prems(3) 1(1) 2(1) show ?case
    by (auto simp: nss(1) feeder_pages_def)
qed

lemma feeder_scan:
  assumes good: "good_link E pend"
    and h: "session_ok h" "\<not> h_scanning h" "\<not> h_cancelled h" "\<not> h_non_blocking h" "source_is_adf h"
    and m: "mask_ok m" "mode_is h SCAN_MODE_HALFTONE \<longrightarrow> m \<noteq> None"
    and dev: "\<forall>bs \<in> set pages. \<forall>b \<in> set bs. block_wf (job_handle h) b" "length settings = PANTUM_SETTINGS_LEN"
      "pend w = feeder_stream (job_handle h) settings pages @ rest" "pages \<noteq> []"
    and reads: "list_all2 (reads_enough (mask_bytes m) (job_handle h)) pages nss"
  shows "\<exists>h' w'. scan_pages F E dbg m nss h w = Some (feeder_pages (mask_bytes m) (job_handle h) pages, h', w')
    \<and> same_session (job_handle h) h' \<and> between_pages pend rest h' w'"
proof -
  obtain bs pages' where pages: "pages = bs # pages'" using dev(4) by (cases pages) auto
  obtain ns nss' where nss: "nss = ns # nss'" "reads_enough (mask_bytes m) (job_handle h) bs ns"
    "list_all2 (reads_enough (mask_bytes m) (job_handle h)) pages' nss'"
    using reads by (auto simp: pages list_all2_Cons1)
  let ?j = "job_handle h" and ?dm = "mask_bytes m"
  let ?rest = "concat (map (page_wire ?j) pages') @ rest"
  let ?left = "feeder_left E pend ?dm ?rest" and ?fin = "between_pages pend ?rest"
  have dm: "length ?dm = 16384" using m by (simp add: mask_ok_def)
  note j = job_handle_ok [OF h(1,2)]
  have adf: "source_is_adf ?j" and nb: "\<not> h_non_blocking ?j" using h(4,5) by (simp_all add: job_handle_fields)
  have wf: "\<forall>b \<in> set bs. block_wf ?j b" using dev(1) by (simp add: pages)
  have q: "pend w = job_acks ?j settings @ concat (map (data_frame ?j) bs) @ event_frame EVT_PAGE_END [] @ ?rest"
    using dev(3) by (simp add: feeder_stream_def pages page_wire_def)
  have left: "?left (running_page ?j) w' bs"
    if "pend w' = concat (map (data_frame ?j) bs) @ event_frame EVT_PAGE_END [] @ ?rest" for w'
    using stream_left_running [of _ _ pend, OF j(6) wf that] good dm adf source_session [OF running_page_simps(1), of ?j]
    by (simp add: feeder_left_def)
  obtain h1 w1 where 1: "sane_start F E dbg m h w = Some ((SANE_STATUS_GOOD, m), h1, w1)" "same_session ?j h1"
    "page_left ?left ?fin ?dm h1 w1 (concat (page_rows ?dm (fresh_page ?j) bs))"
    using feeder.sane_start_stream [OF good h(1-4) refl m(2) dev(2) q left] .
  obtain h2 w2 where 2: "sane_reads E dbg m ns h1 w1 = Some ((SANE_STATUS_EOF, concat (page_rows ?dm (fresh_page ?j) bs)), h2, w2)"
    "same_session h1 h2" "?fin h2 w2"
    using feeder.sane_reads_stream [OF refl 1(3)] nss(2) unfolding reads_enough_def by blast
  have s2: "same_session ?j h2" using 1(2) 2(2) same_session_trans by blast
  from further_pages [where F = F and dbg = dbg, OF good m(1) adf j(6,4) nb s2 2(3) _ nss(3)] dev(1) 1(1) 2(1) show ?thesis
    by (auto simp: nss(1) pages feeder_pages_def)
qed

end
