(* ===== verification/Session_Props.thy ===== *)
theory Session_Props
  imports Scan_Page
begin

text \<open>
  The properties of a scan session: what holds after any history of calls, what a frontend
  gets from a device that answers, and what goes over the wire.
\<close>

section \<open>The lock\<close>

text \<open>
  C5. The lock is never left behind and never lost. From \<^verbatim>\<open>sane_open\<close> on, after
  any sequence of starts, reads, cancels, option and mode calls, and whatever the device sends
  in between: the backend owes the device an unlock exactly while a job runs, a feeder is
  between pages only within a running job, the read position stays inside the queue, the row
  counter stays on the page, and a running page that is at its end has all its rows.
\<close>

theorem lock_held_while_scanning:
  assumes "open_handle E w0 = (h0, w1)" "(api_step F E dbg)\<^sup>*\<^sup>* (h0, None, w1) (h, m, w)"
  shows "(h_locked h \<longleftrightarrow> h_scanning h) \<and> (h_feeding h \<longrightarrow> h_scanning h)
    \<and> h_out_pos h \<le> length (h_out h)
    \<and> (h_scanning h \<longrightarrow> 0 \<le> h_next_row h \<and> h_next_row h \<le> p_lines (h_params h))
    \<and> (h_scanning h \<and> h_eof h \<longrightarrow> h_next_row h = p_lines (h_params h))"
  using opened_session(1) [OF assms]
  by (auto simp: session_ok_def lock_ok_def queue_ok_def page_running_def page_ok_def)

section \<open>A device that answers\<close>

text \<open>A handle opened on a silent link: a flatbed in gray mode.\<close>

lemma opened_flatbed:
  obtains h0 w1 where "open_handle rich_env \<lparr>w_in = [], w_out = [], w_mem = []\<rparr> = (h0, w1)"
    "\<not> h_scanning h0" "\<not> h_cancelled h0" "\<not> h_non_blocking h0" "\<not> source_is_adf h0"
    "mode_is h0 SCAN_MODE_GRAY" "session_ok h0"
proof -
  let ?w = "\<lparr>w_in = [], w_out = [], w_mem = []\<rparr>"
  obtain h1 w1 where p: "probe_adf rich_env calloc_handle (flush_input rich_env ?w) = (h1, w1)" by (metis surj_pair)
  have h1: "\<not> h_scanning h1" "\<not> h_cancelled h1" "\<not> h_non_blocking h1"
    using p by (auto simp: probe_adf_def Let_def unlocked_def calloc_handle_def split: prod.splits if_splits
        dest!: unlock_device_unlocked)
  define h2 where "h2 = h1\<lparr>h_opt := init_descriptor (h_has_adf h1), h_val_w := init_word,
       h_val_s := ((\<lambda>_. None)(OPT_MODE := Some SCAN_MODE_GRAY, OPT_SOURCE := Some SOURCE_NAME_FLATBED))\<rparr>"
  have i: "init_options rich_env h1 w1 = (h2, w1)"
    by (simp add: init_options_def pantum_strdup_def rich_env_def h2_def)
  define h0 where "h0 = h2\<lparr>h_params := compute_parameters h2\<rparr>"
  have o: "open_handle rich_env ?w = (h0, w1)"
    using p i by (simp add: open_handle_def h0_def)
  show thesis
    using h1 by (intro that [OF o] open_handle_ok(1) [OF o])
      (simp_all add: h0_def h2_def source_is_adf_def source_code_def mode_is_def source_defs name_defs)
qed

lemma flatbed_scan:
  assumes "open_handle E w0 = (h0, w1)" "(api_step F E dbg)\<^sup>*\<^sup>* (h0, None, w1) (h, m, w)"
    and link: "link_in E pend" "link_ready E pend" "alloc_quiet E pend" "alloc_grants E"
    and h: "\<not> h_scanning h" "\<not> h_cancelled h" "\<not> h_non_blocking h" "mode_is h SCAN_MODE_HALFTONE \<longrightarrow> m \<noteq> None"
    and dev: "\<forall>b \<in> set bs. block_wf (job_handle h) b" "length settings = PANTUM_SETTINGS_LEN"
      "pend w = flatbed_stream (job_handle h) settings bs @ rest"
    and page: "page = page_rows (mask_bytes m) (fresh_page (job_handle h)) bs"
    and reads: "\<forall>n \<in> set ns. 0 < n" "length (concat page) < length ns"
  shows "int (length page) = p_lines (compute_parameters h) \<and>
    (\<exists>h1 w1 h2 w2. sane_start F E dbg m h w = Some ((SANE_STATUS_GOOD, m), h1, w1)
      \<and> h_params h1 = compute_parameters h
      \<and> sane_reads E dbg m ns h1 w1 = Some ((SANE_STATUS_EOF, concat page), h2, w2)
      \<and> \<not> h_scanning h2 \<and> \<not> h_locked h2)"
proof -
  note ok = opened_session [OF assms(1,2)]
  note j = job_handle_ok [OF ok(1) h(1)]
  have good: "good_link E pend" using link by (simp add: good_link_def)
  obtain h1 w1 where s: "sane_start F E dbg m h w = Some ((SANE_STATUS_GOOD, m), h1, w1)"
    "same_session (job_handle h) h1"
    "page_left (flatbed_left E pend (mask_bytes m) rest) job_over (mask_bytes m) h1 w1 (concat page)"
    using flatbed_start_stream [OF good ok(1) h(1-3) ok(2) h(4) dev] unfolding page .
  obtain h2 w2 where "sane_reads E dbg m ns h1 w1 = Some ((SANE_STATUS_EOF, concat page), h2, w2)"
    "\<not> h_scanning h2" "\<not> h_locked h2"
    using flatbed.sane_reads_stream [where dbg = dbg, OF refl s(3) reads]
    unfolding job_over_def flags_ended_def by blast
  moreover have "h_params h1 = compute_parameters h" using s(2) j(5) by (simp add: same_session_def)
  moreover have "int (length page) = p_lines (compute_parameters h)"
    using page_rows_count [OF fresh_page_ok [OF j(6)]] j(5) by (simp add: page fresh_page_def)
  ultimately show ?thesis using s(1) by blast
qed

text \<open>One gray block of two rows on the concrete link.\<close>

definition demo_block :: data_block where
  "demo_block = \<lparr>b_type = 6, b_first = 3, b_rows = 2, b_pixels = 1, b_pad = [0, 0, 0, 0], b_body = [200, 100]\<rparr>"

definition demo_wire :: "pantum_handle \<Rightarrow> wire" where
  "demo_wire h = \<lparr>w_in = flatbed_stream (job_handle h) (replicate 100 7) [demo_block], w_out = [], w_mem = []\<rparr>"

lemma demo_wf:
  assumes "session_ok h" "\<not> h_scanning h" "mode_is h SCAN_MODE_GRAY"
  shows "\<forall>x \<in> set [demo_block]. block_wf (job_handle h) x" "\<not> mode_is h SCAN_MODE_HALFTONE"
proof -
  have gray: "\<not> mode_is h SCAN_MODE_COLOR"
    using assms(3) by (auto simp: mode_is_def name_defs)
  show "\<not> mode_is h SCAN_MODE_HALFTONE"
    using assms(3) by (auto simp: mode_is_def name_defs)
  have "job_planes (job_handle h) = 1"
    using gray by (simp add: job_planes_def job_handle_ok(5) [OF assms(1,2)] compute_parameters_def Let_def split: prod.splits)
  then show "\<forall>x \<in> set [demo_block]. block_wf (job_handle h) x"
    by (simp add: demo_block_def block_wf_def DATA_JPEG_def PANTUM_DATA_HEADER_LEN_def PANTUM_MAX_PAYLOAD_def)
qed

text \<open>Exact numbers for the floats of the halftone mask, which this scan does not use.\<close>

definition demo_floats :: "int float_ops" where
  "demo_floats = \<lparr>f_zero = 0, f_add = (+), f_sub = (-), f_less = (<), f_gauss = id\<rparr>"

text \<open>The demonstration scan, from opening the handle to the end of the page.\<close>

lemma demo_scan:
  obtains h w0 h1 w1 ns page h2 w2 where
    "open_handle rich_env \<lparr>w_in = [], w_out = [], w_mem = []\<rparr> = (h, w0)"
    "(api_step demo_floats rich_env 0)\<^sup>*\<^sup>* (h, None, w0) (h, None, demo_wire h)"
    "sane_start demo_floats rich_env 0 None h (demo_wire h) = Some ((SANE_STATUS_GOOD, None), h1, w1)"
    "sane_reads rich_env 0 None ns h1 w1 = Some ((SANE_STATUS_EOF, concat page), h2, w2)"
proof -
  obtain h w0 where o: "open_handle rich_env \<lparr>w_in = [], w_out = [], w_mem = []\<rparr> = (h, w0)"
    "\<not> h_scanning h" "\<not> h_cancelled h" "\<not> h_non_blocking h" "\<not> source_is_adf h" "mode_is h SCAN_MODE_GRAY" "session_ok h"
    using opened_flatbed .
  define page where "page = page_rows (mask_bytes None) (fresh_page (job_handle h)) [demo_block]"
  note wf = demo_wf [OF o(7,2,6)]
  have run: "(api_step demo_floats rich_env 0)\<^sup>*\<^sup>* (h, None, w0) (h, None, demo_wire h)"
    by (rule r_into_rtranclp, rule api_step.device)
  have "\<exists>h1 w1 h2 w2. sane_start demo_floats rich_env 0 None h (demo_wire h) = Some ((SANE_STATUS_GOOD, None), h1, w1)
      \<and> h_params h1 = compute_parameters h
      \<and> sane_reads rich_env 0 None (replicate (Suc (length (concat page))) 1) h1 w1 = Some ((SANE_STATUS_EOF, concat page), h2, w2)
      \<and> \<not> h_scanning h2 \<and> \<not> h_locked h2"
    by (rule flatbed_scan [where settings = "replicate 100 7" and rest = "[]", THEN conjunct2,
          OF o(1) run rich_env_link(1,3,4,5) o(2-4) _ wf(1) _ _ page_def])
       (simp_all add: wf(2) demo_wire_def PANTUM_SETTINGS_LEN_def)
  with that o(1) run show thesis by blast
qed

theorem lock_held_while_scanning_witness:
  "\<exists>h w0 h1 w1. open_handle rich_env \<lparr>w_in = [], w_out = [], w_mem = []\<rparr> = (h, w0)
     \<and> sane_start demo_floats rich_env 0 None h (demo_wire h) = Some ((SANE_STATUS_GOOD, None :: byte list option), h1, w1)
     \<and> h_locked h1 = h_scanning h1 \<and> h_out_pos h1 \<le> length (h_out h1)"
proof -
  obtain h w0 h1 w1 ns page h2 w2 where d:
    "open_handle rich_env \<lparr>w_in = [], w_out = [], w_mem = []\<rparr> = (h, w0)"
    "(api_step demo_floats rich_env 0)\<^sup>*\<^sup>* (h, None, w0) (h, None, demo_wire h)"
    "sane_start demo_floats rich_env 0 None h (demo_wire h) = Some ((SANE_STATUS_GOOD, None), h1, w1)"
    "sane_reads rich_env 0 None ns h1 w1 = Some ((SANE_STATUS_EOF, concat page), h2, w2)"
    using demo_scan .
  have "(api_step demo_floats rich_env 0)\<^sup>*\<^sup>* (h, None, w0) (h1, None, w1)"
    using d(2) api_step.start [OF d(3)] by (rule rtranclp.rtrancl_into_rtrancl)
  from lock_held_while_scanning [OF d(1) this] d(1,3) show ?thesis by blast
qed

text \<open>
  C1. A flatbed scan delivers the page the device sent. On a link that delivers and with
  memory to be had, an opened handle that is idle (in any mode, after any history of calls)
  and a device that acknowledges the lock, the defaults, the settings and the start, and then
  sends well-formed data blocks and the end of the job: \<^verbatim>\<open>sane_start\<close> succeeds and
  freezes the parameters the options call for, and reads of any sizes (more of them than there
  are bytes) return exactly the page, then end of file, with the job over and the device
  unlocked. The page is the rows of the blocks
  converted one by one, white where the device skipped rows, and has as many rows as the
  parameters promised. (The same holds in the feeder, where the device also answers for the
  sheet, if it ends the job with its only page.)
\<close>

theorem flatbed_scan_delivers_page:
  assumes "open_handle E w0 = (h0, w1)" "(api_step F E dbg)\<^sup>*\<^sup>* (h0, None, w1) (h, m, w)"
    and link: "link_in E pend" "link_ready E pend" "alloc_quiet E pend" "alloc_grants E"
    and h: "\<not> h_scanning h" "\<not> h_cancelled h" "\<not> h_non_blocking h" "mode_is h SCAN_MODE_HALFTONE \<longrightarrow> m \<noteq> None"
    and dev: "\<forall>b \<in> set bs. block_wf (job_handle h) b" "length settings = PANTUM_SETTINGS_LEN"
      "pend w = flatbed_stream (job_handle h) settings bs @ rest"
    and page: "page = page_rows (mask_bytes m) (fresh_page (job_handle h)) bs"
    and reads: "\<forall>n \<in> set ns. 0 < n" "length (concat page) < length ns"
  shows "int (length page) = p_lines (compute_parameters h) \<and>
    (\<exists>h1 w1 h2 w2. sane_start F E dbg m h w = Some ((SANE_STATUS_GOOD, m), h1, w1)
      \<and> h_params h1 = compute_parameters h
      \<and> sane_reads E dbg m ns h1 w1 = Some ((SANE_STATUS_EOF, concat page), h2, w2)
      \<and> \<not> h_scanning h2 \<and> \<not> h_locked h2)"
  by (rule flatbed_scan [OF assms])

theorem flatbed_scan_delivers_page_witness:
  "\<exists>h h1 w1 h2 w2 ns page. sane_start demo_floats rich_env 0 None h (demo_wire h) = Some ((SANE_STATUS_GOOD, None), h1, w1)
     \<and> sane_reads rich_env 0 None ns h1 w1 = Some ((SANE_STATUS_EOF, concat page), h2, w2)
     \<and> int (length page) = p_lines (compute_parameters h) \<and> 0 < length page"
proof -
  obtain h w0 where o: "open_handle rich_env \<lparr>w_in = [], w_out = [], w_mem = []\<rparr> = (h, w0)"
    "\<not> h_scanning h" "\<not> h_cancelled h" "\<not> h_non_blocking h" "\<not> source_is_adf h" "mode_is h SCAN_MODE_GRAY" "session_ok h"
    using opened_flatbed .
  define page where "page = page_rows (mask_bytes None) (fresh_page (job_handle h)) [demo_block]"
  note wf = demo_wf [OF o(7,2,6)]
  have run: "(api_step demo_floats rich_env 0)\<^sup>*\<^sup>* (h, None, w0) (h, None, demo_wire h)"
    by (rule r_into_rtranclp, rule api_step.device)
  have page: "int (length page) = p_lines (compute_parameters h) \<and>
    (\<exists>h1 w1 h2 w2. sane_start demo_floats rich_env 0 None h (demo_wire h) = Some ((SANE_STATUS_GOOD, None), h1, w1)
      \<and> h_params h1 = compute_parameters h
      \<and> sane_reads rich_env 0 None (replicate (Suc (length (concat page))) 1) h1 w1 = Some ((SANE_STATUS_EOF, concat page), h2, w2)
      \<and> \<not> h_scanning h2 \<and> \<not> h_locked h2)"
    by (rule flatbed_scan_delivers_page [where settings = "replicate 100 7" and rest = "[]",
          OF o(1) run rich_env_link(1,3,4,5) o(2-4) _ wf(1) _ _ page_def])
       (simp_all add: wf(2) demo_wire_def PANTUM_SETTINGS_LEN_def)
  have "0 < p_lines (compute_parameters h)"
    using compute_parameters_wf [of h] by (auto simp: params_wf_def)
  with page have "0 < length page" by linarith
  with page show ?thesis by blast
qed

text \<open>
  C4. A page has exactly the bytes it promised, whatever the device sends. After any
  history of calls, when \<^verbatim>\<open>sane_start\<close> succeeds, the reads that follow never hand
  out more than lines times bytes-per-line of the frozen parameters, and when one reports end
  of file the bytes handed out are exactly that many: short, repeated, overlapping or
  out-of-range blocks from the device cannot change the size of the image.
\<close>

theorem page_has_promised_bytes:
  assumes "open_handle E w0 = (h0, w1)" "(api_step F E dbg)\<^sup>*\<^sup>* (h0, None, w1) (h, m, w)"
    and start: "sane_start F E dbg m h w = Some ((SANE_STATUS_GOOD, m'), h1, w2)"
    and reads: "sane_reads E dbg m' ns h1 w2 = Some ((st, data), h2, w3)"
  shows "st = SANE_STATUS_GOOD \<or> st = SANE_STATUS_EOF \<longrightarrow>
    (let total_bytes = p_lines (h_params h1) * p_bytes_per_line (h_params h1) in
     int (length data) \<le> total_bytes \<and> (st = SANE_STATUS_EOF \<longrightarrow> int (length data) = total_bytes))"
proof -
  note ok = sane_start_ok [OF start opened_session [OF assms(1,2)]]
  from ok(3) have run: "page_running h1" "delivered h1 []" by simp_all
  note d = sane_reads_deliver [OF reads ok(1) run(1) ok(2) run(2)]
  have pos: "0 < p_bytes_per_line (h_params h1)"
    using run(1) page_wf_bpl by (auto simp: page_running_def page_ok_def)
  have count: "int (length data) + int (length (unread h2)) = h_next_row h2 * p_bytes_per_line (h_params h1)"
    if "delivered h2 data" "h_params h2 = h_params h1"
  proof -
    from that(1) obtain rows where r: "data @ unread h2 = concat rows" "int (length rows) = h_next_row h2"
      "\<forall>row \<in> set rows. length row = bpl_of h2"
      by (auto simp: delivered_def)
    have "length (concat rows) = length rows * bpl_of h2"
      using r(3) by (induction rows) auto
    with r(1) have "int (length data) + int (length (unread h2)) = int (length rows * bpl_of h2)"
      by (metis length_append of_nat_add)
    with r(2) that(2) pos show ?thesis by (simp add: bpl_of_def)
  qed
  show ?thesis
  proof (cases "st = SANE_STATUS_GOOD")
    case True
    with d have g: "page_running h2" "delivered h2 data" "h_params h2 = h_params h1" by simp_all
    then have "h_next_row h2 \<le> p_lines (h_params h1)" by (auto simp: page_running_def page_ok_def)
    then have "h_next_row h2 * p_bytes_per_line (h_params h1) \<le> p_lines (h_params h1) * p_bytes_per_line (h_params h1)"
      using pos by (intro mult_right_mono) simp_all
    with count [OF g(2,3)] True show ?thesis by (simp add: Let_def)
  next
    case False
    then show ?thesis using d count by (auto simp: Let_def)
  qed
qed


theorem page_has_promised_bytes_witness:
  "\<exists>h1 data. (\<exists>h w w1 ns h2 w2. sane_start demo_floats rich_env 0 None h w = Some ((SANE_STATUS_GOOD, None), h1, w1)
     \<and> sane_reads rich_env 0 None ns h1 w1 = Some ((SANE_STATUS_EOF, data), h2, w2))
     \<and> int (length data) = p_lines (h_params h1) * p_bytes_per_line (h_params h1)"
proof -
  obtain h w0 h1 w1 ns page h2 w2 where d:
    "open_handle rich_env \<lparr>w_in = [], w_out = [], w_mem = []\<rparr> = (h, w0)"
    "(api_step demo_floats rich_env 0)\<^sup>*\<^sup>* (h, None, w0) (h, None, demo_wire h)"
    "sane_start demo_floats rich_env 0 None h (demo_wire h) = Some ((SANE_STATUS_GOOD, None), h1, w1)"
    "sane_reads rich_env 0 None ns h1 w1 = Some ((SANE_STATUS_EOF, concat page), h2, w2)"
    using demo_scan .
  have "int (length (concat page)) = p_lines (h_params h1) * p_bytes_per_line (h_params h1)"
    using page_has_promised_bytes [OF d] by (simp add: Let_def)
  with d(3,4) show ?thesis by blast
qed

section \<open>Tearing down\<close>

lemma abort_loop_silent:
  "in_silent E sent \<Longrightarrow> link_out E sent \<Longrightarrow> sent (abort_loop E k w) = sent w"
proof (induction k arbitrary: w)
  case 0
  then show ?case by simp
next
  case (Suc k)
  obtain r w1 where r: "recv_frame E TIMEOUT_TEARDOWN False w = (r, w1)" by (metis surj_pair)
  have 1: "sent w1 = sent w" using recv_frame_silent [OF r Suc.prems] .
  show ?case
  proof (cases r)
    case (Recv_Frame f)
    obtain st w2 where d: "drain_payload E (unat (f_plen f)) TIMEOUT_TEARDOWN w1 = (st, w2)" by (metis surj_pair)
    have "sent w2 = sent w1" using drain_payload_silent [OF d Suc.prems] .
    with 1 Suc.IH [OF Suc.prems] r d Recv_Frame show ?thesis by simp
  qed (use r 1 in simp_all)
qed

lemma unlock_device_sent:
  assumes "unlock_device E h w = (h', w')" "in_silent E sent" "link_out E sent" "link_ready E pend"
  shows "sent w' = sent w @ (if h_locked h then request CMD_UNLOCK [] else [])"
proof (cases "h_locked h")
  case False
  with assms(1) show ?thesis by (simp add: unlock_device_def)
next
  case True
  obtain w1 where s: "send_frame E CMD_UNLOCK [] w = (SANE_STATUS_GOOD, w1)"
    by (rule send_frame_ready [OF assms(4), of "[]"]) auto
  have 1: "sent w1 = sent w @ request CMD_UNLOCK []"
    using send_frame_sent [OF s assms(3)] by (simp add: request_def)
  obtain r w2 where r: "recv_frame E TIMEOUT_TEARDOWN False w1 = (r, w2)" by (metis surj_pair)
  have 2: "sent w2 = sent w1" using recv_frame_silent [OF r assms(2,3)] .
  have 3: "sent (snd (drain_payload E n t w2)) = sent w2" for n t
    using drain_payload_silent [OF _ assms(2,3)] by (metis surjective_pairing)
  have "sent w' = sent w2"
    using assms(1) True s r 3 by (auto simp: unlock_device_def Let_def split: recv_result.splits)
  with 1 2 True show ?thesis by simp
qed

lemma end_scan_sent:
  assumes "end_scan E h w = (h', w')" "in_silent E sent" "link_out E sent" "link_ready E pend"
  shows "sent w' = sent w @ (if h_scanning h then request CMD_ABORT [] else [])
    @ (if h_locked h then request CMD_UNLOCK [] else [])"
proof (cases "h_scanning h")
  case False
  with assms(1) unlock_device_sent [OF _ assms(2-4)] show ?thesis by (simp add: end_scan_def)
next
  case True
  obtain w1 where s: "send_frame E CMD_ABORT [] w = (SANE_STATUS_GOOD, w1)"
    by (rule send_frame_ready [OF assms(4), of "[]"]) auto
  have 1: "sent w1 = sent w @ request CMD_ABORT []"
    using send_frame_sent [OF s assms(3)] by (simp add: request_def)
  have "unlock_device E (h\<lparr>h_scanning := False\<rparr>) (abort_loop E 4096 w1) = (h', w')"
    using assms(1) True s by (simp add: end_scan_def)
  from unlock_device_sent [OF this assms(2-4)] 1 True show ?thesis
    by (simp add: abort_loop_silent [OF assms(2,3)])
qed

text \<open>
  C12. A cancelled scan is torn down by the next read. After any history of calls,
  the read that follows \<^verbatim>\<open>sane_cancel\<close> reports \<^verbatim>\<open>SANE_STATUS_CANCELLED\<close>
  and no data, the queue is dropped, no job and no lock is left on the handle, and exactly the
  requests that are owed went to the device: an abort and an unlock if a job was running,
  nothing otherwise.
\<close>

theorem cancel_tears_down:
  assumes "open_handle E w0 = (h0, w1)" "(api_step F E dbg)\<^sup>*\<^sup>* (h0, None, w1) (h, m, w)"
    and "in_silent E sent" "link_out E sent" "link_ready E pend" "0 < n"
    and read: "sane_read E dbg m n (sane_cancel h) w = Some ((st, data), h', w')"
  shows "st = SANE_STATUS_CANCELLED \<and> data = [] \<and> unread h' = []
    \<and> \<not> h_scanning h' \<and> \<not> h_locked h' \<and> \<not> h_feeding h'
    \<and> sent w' = sent w @ (if h_scanning h then request CMD_ABORT [] @ request CMD_UNLOCK [] else [])"
proof -
  obtain h1 w2 where e: "end_scan E (sane_cancel h) w = (h1, w2)" by (metis surj_pair)
  have c: "h_cancelled (sane_cancel h)" by (simp add: sane_cancel_def)
  have r: "st = SANE_STATUS_CANCELLED" "data = []" "h' = h1\<lparr>h_out := [], h_out_pos := 0, h_eof := True\<rparr>" "w' = w2"
    using read e c assms(6) by (auto simp: sane_read_def)
  have "h_locked h = h_scanning h" using opened_session(1) [OF assms(1,2)] by (simp add: session_ok_def lock_ok_def)
  then show ?thesis
    using end_scan_ok(1) [OF e] end_scan_sent [OF e assms(3-5)] r
    by (auto simp: flags_ended_def unread_def sane_cancel_def)
qed

lemma rich_env_silent [simp]: "in_silent rich_env w_out"
  by (auto simp: in_silent_def rich_env_def wire_env_def)

theorem cancel_tears_down_witness:
  "\<exists>h m w h' w'. sane_read rich_env 0 m 1 (sane_cancel h) w = Some ((SANE_STATUS_CANCELLED, []), h', w')
     \<and> \<not> h_locked h' \<and> w_out w' = w_out w @ (if h_scanning h then request CMD_ABORT [] @ request CMD_UNLOCK [] else [])"
proof -
  obtain h w0 h1 w1 ns page h2 w2 where d:
    "open_handle rich_env \<lparr>w_in = [], w_out = [], w_mem = []\<rparr> = (h, w0)"
    "(api_step demo_floats rich_env 0)\<^sup>*\<^sup>* (h, None, w0) (h, None, demo_wire h)"
    "sane_start demo_floats rich_env 0 None h (demo_wire h) = Some ((SANE_STATUS_GOOD, None), h1, w1)"
    "sane_reads rich_env 0 None ns h1 w1 = Some ((SANE_STATUS_EOF, concat page), h2, w2)"
    using demo_scan .
  have run: "(api_step demo_floats rich_env 0)\<^sup>*\<^sup>* (h, None, w0) (h1, None, w1)"
    using d(2) api_step.start [OF d(3)] by (rule rtranclp.rtrancl_into_rtrancl)
  obtain st data h' w' where r: "sane_read rich_env 0 None 1 (sane_cancel h1) w1 = Some ((st, data), h', w')"
    using sane_read_returns [OF rich_env_link(1,4), of 0 None 1 "sane_cancel h1" w1] by auto
  from cancel_tears_down [OF d(1) run rich_env_silent rich_env_link(2,3) _ r] r show ?thesis
    by (intro exI [of _ h1] exI [of _ None] exI [of _ w1] exI [of _ h'] exI [of _ w']) simp
qed

section \<open>Every call returns\<close>



section \<open>What a job asks of the device\<close>



section \<open>Frame boundaries\<close>



section \<open>A feeder that answers\<close>

text \<open>
  C2. A feeder job delivers every page the device sent, each to its own start. For an idle
  handle with the feeder selected, in a state the session invariant allows (every history of
  calls since \<^verbatim>\<open>sane_open\<close> leaves it in one), on a link that delivers and with
  memory to be had: the device acknowledges the lock, reports a loaded sheet, acknowledges the
  set-up, and sends the data blocks of one page after another, each closed by a page-end marker.
  Then as many rounds of \<^verbatim>\<open>sane_start\<close> and reads of any sizes as there are pages return
  exactly those pages, end of file behind each; the job is set up once, the later starts take up
  the running job, nothing of the stream behind the last page is touched, and the device stays
  locked for the page that may follow.
\<close>

theorem feeder_scan_delivers_pages:
  assumes link: "link_in E pend" "link_ready E pend" "alloc_quiet E pend" "alloc_grants E"
    and h: "session_ok h" "\<not> h_scanning h" "\<not> h_cancelled h" "\<not> h_non_blocking h" "source_is_adf h"
      "mask_ok m" "mode_is h SCAN_MODE_HALFTONE \<longrightarrow> m \<noteq> None"
    and dev: "\<forall>bs \<in> set pages. \<forall>b \<in> set bs. block_wf (job_handle h) b" "length settings = PANTUM_SETTINGS_LEN"
      "pend w = feeder_stream (job_handle h) settings pages @ rest" "pages \<noteq> []"
    and reads: "list_all2 (reads_enough (mask_bytes m) (job_handle h)) pages nss"
  shows "\<exists>h' w'. scan_pages F E dbg m nss h w = Some (feeder_pages (mask_bytes m) (job_handle h) pages, h', w')
    \<and> h_params h' = compute_parameters h \<and> h_scanning h' \<and> h_locked h' \<and> h_feeding h' \<and> pend w' = rest"
proof -
  have good: "good_link E pend" using link by (simp add: good_link_def)
  from feeder_scan [OF good h(1-7) dev reads, of F dbg] job_handle_ok(5) [OF h(1,2)] show ?thesis
    by (auto simp: between_pages_def same_session_def)
qed

text \<open>A gray handle with the feeder selected.\<close>

lemma feeder_handle:
  obtains h where "session_ok h" "\<not> h_scanning h" "\<not> h_cancelled h" "\<not> h_non_blocking h" "source_is_adf h"
    "mode_is h SCAN_MODE_GRAY"
proof -
  let ?w = "\<lparr>w_in = [], w_out = [], w_mem = []\<rparr> :: wire"
  have init: "init_options wire_env (calloc_handle\<lparr>h_has_adf := True\<rparr>) ?w = (adf_handle, ?w)"
    by (simp add: init_options_def pantum_strdup_def wire_env_def)
  have flags: "flags_ended adf_handle" "queue_ok adf_handle" "\<not> h_cancelled adf_handle" "\<not> h_non_blocking adf_handle"
    by (simp_all add: init_options_def pantum_strdup_def wire_env_def flags_ended_def queue_ok_def calloc_handle_def)
  have ok: "session_ok adf_handle"
    using flags init_options_inv [OF init] by (simp add: session_ok_stopped)
  obtain r h where call: "control_option wire_env adf_handle 4 SANE_ACTION_SET_VALUE
       (Some \<lparr>vb_word = 0, vb_string = ''adf''\<rparr>) ?w = (r, h, ?w)"
    "r_status r = SANE_STATUS_GOOD" "h_val_s h OPT_SOURCE = Some SOURCE_NAME_ADF" "h_val_s h OPT_MODE = Some SCAN_MODE_GRAY"
    by (simp add: init_options_def pantum_strdup_def wire_env_def control_option_def option_at_def
      NUM_OPTIONS_def option_table_def calloc_handle_def base_descriptor_def set_string_def
      source_list_adf_def same_nocase_def lower_def name_defs char_of_def bit_0 Let_def)
  have "option_call wire_env (adf_handle, ?w) (h, ?w)"
    by (rule option_call.call [OF call(1)]) (simp add: call(2))
  from option_call_ok [OF this ok] have "session_ok h" .
  moreover have "\<not> h_scanning h" "\<not> h_cancelled h" "\<not> h_non_blocking h"
    using control_option_frame(1) [OF call(1)] flags by (auto simp: flags_ended_def)
  moreover have "source_is_adf h" "mode_is h SCAN_MODE_GRAY"
    using call(3,4) by (simp_all add: source_is_adf_def source_code_def source_defs mode_is_def)
  ultimately show thesis using that by blast
qed

text \<open>Two sheets: the first with one block of data, the second blank.\<close>

definition demo_feeder :: "pantum_handle \<Rightarrow> wire" where
  "demo_feeder h = \<lparr>w_in = feeder_stream (job_handle h) (replicate 100 7) [[demo_block], []] @ [1, 2],
     w_out = [], w_mem = []\<rparr>"

theorem feeder_scan_delivers_pages_witness:
  "\<exists>h nss h' w' p1 p2. source_is_adf h
    \<and> scan_pages demo_floats rich_env 0 None nss h (demo_feeder h) = Some ([(SANE_STATUS_EOF, p1), (SANE_STATUS_EOF, p2)], h', w')
    \<and> h_locked h' \<and> w_in w' = [1, 2]"
proof -
  obtain h where h: "session_ok h" "\<not> h_scanning h" "\<not> h_cancelled h" "\<not> h_non_blocking h" "source_is_adf h"
    "mode_is h SCAN_MODE_GRAY"
    using feeder_handle .
  note wf = demo_wf [OF h(1,2,6)]
  define reads where "reads bs = replicate (Suc (length (concat (page_rows (mask_bytes None) (fresh_page (job_handle h)) bs)))) (1 :: int)"
    for bs
  have enough: "reads_enough (mask_bytes None) (job_handle h) bs (reads bs)" for bs
    by (simp add: reads_enough_def reads_def)
  have "\<exists>h' w'. scan_pages demo_floats rich_env 0 None [reads [demo_block], reads []] h (demo_feeder h)
      = Some (feeder_pages (mask_bytes None) (job_handle h) [[demo_block], []], h', w')
    \<and> h_params h' = compute_parameters h \<and> h_scanning h' \<and> h_locked h' \<and> h_feeding h' \<and> w_in w' = [1, 2]"
    by (rule feeder_scan_delivers_pages [where settings = "replicate 100 7", OF rich_env_link(1,3,4,5) h(1-5)])
       (use wf enough in \<open>simp_all add: demo_feeder_def PANTUM_SETTINGS_LEN_def\<close>)
  then obtain h' w' where r: "scan_pages demo_floats rich_env 0 None [reads [demo_block], reads []] h (demo_feeder h)
      = Some (feeder_pages (mask_bytes None) (job_handle h) [[demo_block], []], h', w')" "h_locked h'" "w_in w' = [1, 2]"
    by blast
  then show ?thesis
    by (intro exI [of _ h] exI [of _ "[reads [demo_block], reads []]"] exI [of _ h'] exI [of _ w'])
      (simp only: h(5) r feeder_pages_def list.map prod.inject option.inject list.inject, simp)
qed

section \<open>An empty feeder\<close>

text \<open>
  C39. An empty feeder gives a blank page. When the next page of a feeder job is asked for and
  no page is left, the device ends the job, and the call still succeeds, with a page of white
  rows: the branch of \<^verbatim>\<open>resume_job\<close> that would report
  \<^verbatim>\<open>SANE_STATUS_NO_DOCS\<close> finds the queue already filled.
\<close>

theorem empty_feeder_gives_blank_page:
  assumes link: "link_in E pend" "link_ready E pend" "alloc_quiet E pend" "alloc_grants E" and dm: "length dm = 16384"
    and h: "page_ready h" "h_scanning h" "\<not> h_cancelled h" "\<not> h_non_blocking h"
    and dev: "pend w = event_frame EVT_JOB_END [] @ rest"
  shows "\<exists>h' w'. resume_job E dm dbg h w = Some (SANE_STATUS_GOOD, h', w')
    \<and> unread h' = concat (replicate (nat (p_lines (h_params h))) (white_row (h_params h)))"
proof -
  define h1 where "h1 = (fresh_page h)\<lparr>h_feeding := False\<rparr>"
  have ok: "page_ok h1" using fresh_page_ok [OF h(1)] by (simp add: h1_def)
  have fields: "h_scanning h1" "\<not> h_eof h1" "\<not> h_cancelled h1" "\<not> h_non_blocking h1" "h_out h1 = []" "unread h1 = []"
    "h_params h1 = h_params h" "h_next_row h1 = 0"
    using h by (simp_all add: h1_def fresh_page_def unread_def)
  have good: "good_link E pend" using link by (simp add: good_link_def)
  have left: "stream_left pend (event_frame EVT_JOB_END [] @ rest) h1 w []" using ok fields dev by (simp add: stream_left_def)
  obtain h' w' where p: "pump_frame E dm dbg False True h1 w = (pumped SANE_STATUS_GOOD, h', w')"
    "same_session h1 h'" "unread h' = unread h1 @ concat (page_rows dm h1 [])" "flags_ended h'" "h_eof h'" "queue_ok h'"
    using pump_end [OF good left] by blast
  have "await_first_rows E dm dbg None h1 w = await_first_rows E dm dbg None h' w'"
    using fields p(1) by (subst await_first_rows.simps) (simp add: pumped_def)
  also have "\<dots> = Some ((SANE_STATUS_GOOD, None), h', w')" using p(5) by (subst await_first_rows.simps) simp
  finally have a: "await_first_rows E dm dbg None h1 w = Some ((SANE_STATUS_GOOD, None), h', w')" .
  have u: "unread h' = concat (replicate (nat (p_lines (h_params h))) (white_row (h_params h)))"
    using p(3) fields by simp
  have "0 < p_lines (h_params h)" "0 < p_bytes_per_line (h_params h)"
    using h(1) page_wf_bpl by (auto simp: page_ready_def page_wf_def params_wf_def)
  then have "unread h' \<noteq> []"
    by (simp add: u white_row_def)
  then have "h_out h' \<noteq> []" by (auto simp: unread_def)
  with a u show ?thesis
    by (simp add: resume_job_def Let_def h1_def fresh_page_def)
qed

text \<open>Four white rows of two pixels.\<close>

theorem empty_feeder_gives_blank_page_witness:
  "\<exists>h' w'. resume_job rich_env (replicate 16384 0) 0 (small_page\<lparr>h_scanning := True\<rparr>)
      \<lparr>w_in = event_frame EVT_JOB_END [] @ [], w_out = [], w_mem = []\<rparr> = Some (SANE_STATUS_GOOD, h', w')
    \<and> unread h' = replicate 8 255"
proof -
  let ?h = "small_page\<lparr>h_scanning := True\<rparr>"
  have h: "page_ready ?h" "h_scanning ?h" "\<not> h_cancelled ?h" "\<not> h_non_blocking ?h"
    by (simp_all add: small_page_def calloc_handle_def page_ready_def page_wf_def params_wf_def margins_ok_def)
  have w: "concat (replicate (nat (p_lines (h_params ?h))) (white_row (h_params ?h))) = replicate 8 255"
    by (simp add: small_page_def white_row_def numeral_eq_Suc)
  from empty_feeder_gives_blank_page [OF rich_env_link(1,3,4,5) _ h, of "replicate 16384 0" _ "[]" 0] show ?thesis
    unfolding w by simp
qed

end
