(* ===== verification/Backend_Props.thy ===== *)
theory Backend_Props
  imports Backend_Bus Session_Props
begin

text \<open>
  The properties of the backend as a whole: who owns which device over every history of calls,
  what is left after the end, and what becomes of it when memory runs out.
\<close>

interpretation backends: step_invariant
  "\<lambda>s t. alloc_grants (us_heap U) \<and> backend_step F U dbg D s t" world_ok
  for U :: "'w usb_env" and F dbg D
  by unfold_locales (auto intro: backend_step_ok)

interpretation books: step_invariant
  "\<lambda>s t. (usb_books U bus \<and> alloc_grants (us_heap U) \<and> (\<forall>w w'. D w w' \<longrightarrow> bus w' = bus w)) \<and> backend_step F U dbg D s t"
  "books_ok bus"
  for U :: "'w usb_env" and bus F dbg D
  by unfold_locales (auto intro: backend_step_books)

lemma backend_run_ok:
  assumes "alloc_grants (us_heap U)" "(backend_step F U dbg D)\<^sup>*\<^sup>* (no_backend, None, w0) (b, m, w)"
  shows "backend_ok b" "mask_ok m"
proof -
  have "(\<lambda>s t. alloc_grants (us_heap U) \<and> backend_step F U dbg D s t)\<^sup>*\<^sup>* (no_backend, None, w0) (b, m, w)"
    using assms by simp
  from backends.run_inv [OF this] no_backend_ok show "backend_ok b" "mask_ok m" by simp_all
qed

text \<open>Without the pointer array the list is freed and built anew, also under open handles.\<close>

lemma probe_loop_old:
  "probe_loop U us b w = (b', w') \<Longrightarrow> a < b_next b \<Longrightarrow>
   b_dev b' a = b_dev b a \<and> b_handle b' = b_handle b \<and> b_handles b' = b_handles b \<and> b_fault b' = b_fault b"
proof (induction us arbitrary: b w)
  case Nil
  then show ?case by simp
next
  case (Cons u us)
  have "b_dev b' a = b_dev (push_device d b) a \<and> b_handle b' = b_handle b \<and> b_handles b' = b_handles b \<and> b_fault b' = b_fault b"
    if "probe_loop U us (push_device d b) w1 = (b', w')" for d w1
    using Cons.IH [OF that] Cons.prems(2) by (simp add: push_device_def)
  moreover have "b_dev (push_device d b) a = b_dev b a" for d
    using Cons.prems(2) by (simp add: push_device_def)
  ultimately show ?case
    using Cons.prems Cons.IH [of b] by (auto split: option.splits prod.splits if_splits)
qed

lemma get_devices_rebuilds:
  assumes "get_devices U True b w = (r, b', w')" "b_initialised b" "b_ptrs b = None" "a \<in> set (b_devs b)" "a < b_next b"
  shows "b_dev b' a = None" "b_handle b' = b_handle b" "b_handles b' = b_handles b" "b_fault b' = b_fault b"
proof -
  have f: "b_dev (free_devices b) a = None" "b_handle (free_devices b) = b_handle b" "b_handles (free_devices b) = b_handles b"
    "b_fault (free_devices b) = b_fault b" "b_next (free_devices b) = b_next b"
    using assms(4) by (simp_all add: free_devices_def)
  note old = probe_loop_old [where b = "free_devices b" and a = a, unfolded f]
  show "b_dev b' a = None" "b_handle b' = b_handle b" "b_handles b' = b_handles b" "b_fault b' = b_fault b"
    using assms f by (auto simp: get_devices_def probe_devices_def Let_def split: if_splits prod.splits option.splits dest!: old)
qed

text \<open>A bus with one scanner on it, no configuration file, and memory as \<open>E\<close> has it; the second
  half of the world is the books of the library.\<close>

type_synonym demo_world = "wire \<times> ledger"

definition on_wire :: "wire env \<Rightarrow> demo_world env" where
  "on_wire E = \<lparr>bulk_in = (\<lambda>n t (w, l). (fst (bulk_in E n t w), snd (bulk_in E n t w), l)),
     bulk_out = (\<lambda>bs t (w, l). (fst (bulk_out E bs t w), snd (bulk_out E bs t w), l)),
     clear_halt = (\<lambda>e (w, l). (clear_halt E e w, l)), nanosleep = (\<lambda>s n (w, l). (nanosleep E s n w, l)),
     alloc_ok = (\<lambda>n (w, l). (fst (alloc_ok E n w), snd (alloc_ok E n w), l))\<rparr>"

definition demo_usb :: "wire env \<Rightarrow> demo_world usb_env" where
  "demo_usb E = \<lparr>us_init = (\<lambda>w. (LIBUSB_SUCCESS, w)), us_exit = (\<lambda>w. w),
     us_list = (\<lambda>w. (Some [\<lparr>ud_bus = 1, ud_addr = 4, ud_desc = Some (0x232b, 0x0e20)\<rparr>], w)),
     us_open = (\<lambda>u (w, h, c). ((LIBUSB_SUCCESS, 9), w, add_mset 9 h, c)),
     us_claim = (\<lambda>u i (w, h, c). (LIBUSB_SUCCESS, w, h, add_mset u c)),
     us_release = (\<lambda>u i (w, h, c). (w, h, c - {#u#})), us_close = (\<lambda>u (w, h, c). (w, h - {#u#}, c)),
     us_link = (\<lambda>u. on_wire rich_env), us_heap = on_wire E,
     us_sys = \<lparr>getenv = (\<lambda>_. None), fopen = (\<lambda>_. None), sizeof = (\<lambda>_. 64)\<rparr>\<rparr>"

lemma demo_books: "usb_books (demo_usb E) snd"
proof -
  have "link_books (on_wire E') snd" for E' by (auto simp: link_books_def on_wire_def)
  then show ?thesis by (auto simp: usb_books_def demo_usb_def)
qed

lemma demo_grants [simp]: "alloc_grants (us_heap (demo_usb rich_env))"
  by (auto simp: alloc_grants_def demo_usb_def on_wire_def rich_env_def)

definition demo_device :: "bool \<Rightarrow> pantum_device" where
  "demo_device busy = \<lparr>d_name = ''usb:001:004'', d_model = ''M6500 series'', d_bus = 1, d_addr = 4,
     d_vid = 0x232b, d_pid = 0x0e20, d_busy = busy\<rparr>"

definition silent :: "bool list \<Rightarrow> demo_world" where
  "silent mem = (\<lparr>w_in = [], w_out = [], w_mem = mem\<rparr>, {#}, {#})"

definition demo_started :: backend where
  "demo_started = no_backend\<lparr>b_initialised := True, b_ctx := True,
     b_ids := [\<lparr>id_vid = 0x232b, id_pid = 0x0e20, id_model = Some ''M6500 series''\<rparr>]\<rparr>"

definition demo_listed :: "nat list option \<Rightarrow> backend" where
  "demo_listed ptrs = demo_started\<lparr>b_dev := (\<lambda>_. None)(0 := Some (demo_device False)), b_devs := [0], b_ptrs := ptrs, b_next := 1\<rparr>"

definition demo_opened :: "nat list option \<Rightarrow> pantum_handle \<Rightarrow> backend" where
  "demo_opened ptrs h = (demo_listed ptrs)\<lparr>b_dev := (\<lambda>_. None)(0 := Some (demo_device True)),
     b_handle := (\<lambda>_. None)(1 := Some \<lparr>oh_dev = 0, oh_usb = 9, oh_h = h\<rparr>), b_handles := [1], b_next := 2\<rparr>"

lemma demo_name: "device_name 1 4 = ''usb:001:004''"
  by code_simp

lemma heap_simps:
  "alloc_ok (on_wire rich_env) n w = (True, w)"
  "alloc_ok (on_wire wire_env) n (silent []) = (True, silent [])" "alloc_ok (on_wire wire_env) n (silent (x # xs)) = (x, silent xs)"
  by (simp_all add: rich_env_def wire_env_def silent_def on_wire_def split: prod.splits)

lemma on_wire_quiet: "alloc_ok (on_wire wire_env) n (\<lparr>w_in = i, w_out = x, w_mem = []\<rparr>, l) = (True, (\<lparr>w_in = i, w_out = x, w_mem = []\<rparr>, l))"
  by (simp add: wire_env_def on_wire_def)

lemmas demo_defs = demo_usb_def demo_started_def demo_listed_def demo_opened_def demo_device_def no_backend_def

lemma demo_init:
  "sane_init (demo_usb rich_env) no_backend w = (SANE_STATUS_GOOD, demo_started, w)"
  "sane_init (demo_usb wire_env) no_backend (silent (True # True # mem)) = (SANE_STATUS_GOOD, demo_started, silent mem)"
  by (simp_all add: sane_init_def read_config_def read_config_file_def add_id_def pantum_strdup_def heap_simps
      demo_defs PANTUM_CONFIG_FILE_def PANTUM_CONFIG_DIR_def Let_def)

lemma demo_probe:
  "probe_devices (demo_usb rich_env) demo_started w = (SANE_STATUS_GOOD, demo_listed (Some [0]), w)"
  "probe_devices (demo_usb wire_env) demo_started (silent [True, True, True, False]) = (SANE_STATUS_NO_MEM, demo_listed None, silent [])"
  by (simp_all add: probe_devices_def free_devices_def push_device_def find_id_def pantum_strdup_def heap_simps
      demo_defs Let_def demo_name)

lemma demo_open:
  assumes "alloc_ok (on_wire E) 64 (w, add_mset 9 l, add_mset 9 c) = (True, (w, add_mset 9 l, add_mset 9 c))"
  obtains h w' where "sane_open (demo_usb E) (Some []) True (demo_listed ptrs) (w, l, c)
    = ((SANE_STATUS_GOOD, Some 1), demo_opened ptrs h, w')"
proof -
  obtain h w' where o: "open_handle (on_wire rich_env) (w, add_mset 9 l, add_mset 9 c) = (h, w')" by (metis surj_pair)
  have "sane_open (demo_usb E) (Some []) True (demo_listed ptrs) (w, l, c) = ((SANE_STATUS_GOOD, Some 1), demo_opened ptrs h, w')"
    using o assms by (simp add: sane_open_def choose_device_def open_device_def set_busy_def demo_defs Let_def)
  with that show thesis .
qed

text \<open>A run of the demonstration: start, then open the first device.\<close>

lemma demo_run:
  obtains h w where
    "sane_open (demo_usb rich_env) (Some []) True demo_started (silent []) = ((SANE_STATUS_GOOD, Some 1), demo_opened (Some [0]) h, w)"
    "(backend_step F (demo_usb rich_env) dbg D)\<^sup>*\<^sup>* (no_backend, None, silent []) (demo_opened (Some [0]) h, None, w)"
proof -
  obtain h w where "sane_open (demo_usb rich_env) (Some []) True (demo_listed (Some [0])) (silent [])
      = ((SANE_STATUS_GOOD, Some 1), demo_opened (Some [0]) h, w)"
    using demo_open [where l = "{#}" and c = "{#}", OF heap_simps(1)] unfolding silent_def by metis
  then have s: "sane_open (demo_usb rich_env) (Some []) True demo_started (silent []) = ((SANE_STATUS_GOOD, Some 1), demo_opened (Some [0]) h, w)"
    using demo_probe(1) [of "silent []"] by (simp add: sane_open_def demo_started_def no_backend_def demo_listed_def)
  have "(backend_step F (demo_usb rich_env) dbg D)\<^sup>*\<^sup>* (no_backend, None, silent []) (demo_started, None, silent [])"
    using backend_step.initialise [OF demo_init(1)] by (rule r_into_rtranclp)
  from rtranclp.rtrancl_into_rtrancl [OF this backend_step.open_dev [OF s]] s that show thesis by blast
qed

text \<open>What happens on the other side of the cable, and to the memory of other processes.\<close>

definition demo_moves :: "demo_world \<Rightarrow> demo_world \<Rightarrow> bool" where
  "demo_moves w w' \<longleftrightarrow> snd w' = snd w"

section \<open>Ownership\<close>





section \<open>The end\<close>



section \<open>The books of the library\<close>



section \<open>Errors\<close>

text \<open>
  C40. What a lost allocation does to the list. If the pointer array of
  \<^verbatim>\<open>probe_devices\<close> cannot be allocated once, the devices stay listed without it; a device
  can be opened, and the next \<^verbatim>\<open>sane_get_devices\<close> then frees the list under the open handle,
  so that \<^verbatim>\<open>sane_close\<close> writes to freed memory. Without memory to be had the ownership
  property does not hold.
\<close>

theorem lost_list_dangles:
  "\<exists>h w. get_devices (demo_usb wire_env) True demo_started (silent [True, True, True, False])
       = ((SANE_STATUS_NO_MEM, None), demo_listed None, silent [])
     \<and> sane_open (demo_usb wire_env) (Some []) True (demo_listed None) (silent []) = ((SANE_STATUS_GOOD, Some 1), demo_opened None h, w)
     \<and> (\<exists>r b w'. get_devices (demo_usb wire_env) True (demo_opened None h) w = (r, b, w')
          \<and> \<not> b_fault b \<and> b_fault (fst (sane_close (demo_usb wire_env) 1 b w')))"
proof -
  obtain h w where o: "sane_open (demo_usb wire_env) (Some []) True (demo_listed None) (silent []) = ((SANE_STATUS_GOOD, Some 1), demo_opened None h, w)"
    using demo_open [where l = "{#}" and c = "{#}" and E = wire_env] unfolding silent_def by (metis (no_types) on_wire_quiet)
  obtain r b w' where g: "get_devices (demo_usb wire_env) True (demo_opened None h) w = (r, b, w')" by (metis surj_pair)
  have i: "b_initialised (demo_opened None h)" "b_handle (demo_opened None h) 1 = Some \<lparr>oh_dev = 0, oh_usb = 9, oh_h = h\<rparr>"
    "b_handles (demo_opened None h) = [1]" "b_ptrs (demo_opened None h) = None" "b_devs (demo_opened None h) = [0]"
    "b_next (demo_opened None h) = 2" "\<not> b_fault (demo_opened None h)"
    by (simp_all add: demo_defs)
  have b: "b_dev b 0 = None" "b_handle b 1 = Some \<lparr>oh_dev = 0, oh_usb = 9, oh_h = h\<rparr>" "b_handles b = [1]" "\<not> b_fault b"
    using get_devices_rebuilds [OF g i(1) i(4), of 0] i by simp_all
  have "b_fault (fst (sane_close (demo_usb wire_env) 1 b w'))"
    using b by (simp add: sane_close_def handle_is_valid_def free_handle_def set_busy_def Let_def split: prod.splits)
  moreover have "get_devices (demo_usb wire_env) True demo_started (silent [True, True, True, False])
       = ((SANE_STATUS_NO_MEM, None), demo_listed None, silent [])"
    using demo_probe(2) by (simp add: get_devices_def demo_started_def)
  ultimately show ?thesis
    using o g b(4) by blast
qed

end
