(* ===== verification/Buffer_Laws.thy ===== *)
theory Buffer_Laws
  imports Session_Props
begin

text \<open>
  The output queue as memory: as long as the allocator grants what it is asked for, no row is ever
  written past the block, over every history of calls.
\<close>

section \<open>What touches the queue\<close>

lemma mem_ok_frame [simp]:
  "mem_ok (h\<lparr>h_scanning := b\<rparr>) = mem_ok h" "mem_ok (h\<lparr>h_locked := b\<rparr>) = mem_ok h" "mem_ok (h\<lparr>h_feeding := b\<rparr>) = mem_ok h"
  "mem_ok (h\<lparr>h_eof := b\<rparr>) = mem_ok h" "mem_ok (h\<lparr>h_cancelled := b\<rparr>) = mem_ok h" "mem_ok (h\<lparr>h_non_blocking := b\<rparr>) = mem_ok h"
  "mem_ok (h\<lparr>h_has_adf := b\<rparr>) = mem_ok h" "mem_ok (h\<lparr>h_halftone := b\<rparr>) = mem_ok h" "mem_ok (h\<lparr>h_next_row := n\<rparr>) = mem_ok h"
  "mem_ok (h\<lparr>h_out_pos := k\<rparr>) = mem_ok h" "mem_ok (h\<lparr>h_params := p\<rparr>) = mem_ok h" "mem_ok (h\<lparr>h_threshold := n\<rparr>) = mem_ok h"
  "mem_ok (h\<lparr>h_gamma := g\<rparr>) = mem_ok h" "mem_ok (h\<lparr>h_raw := bs\<rparr>) = mem_ok h" "mem_ok (h\<lparr>h_raw_cap := k\<rparr>) = mem_ok h"
  "mem_ok (h\<lparr>h_opt := d\<rparr>) = mem_ok h" "mem_ok (h\<lparr>h_val_w := vw\<rparr>) = mem_ok h" "mem_ok (h\<lparr>h_val_s := vs\<rparr>) = mem_ok h"
  "mem_ok (h\<lparr>h_white_top := n\<rparr>) = mem_ok h" "mem_ok (h\<lparr>h_white_bottom := n\<rparr>) = mem_ok h"
  "mem_ok (h\<lparr>h_white_left := n\<rparr>) = mem_ok h" "mem_ok (h\<lparr>h_white_right := n\<rparr>) = mem_ok h"
  by (simp_all add: mem_ok_def)

lemma mem_ok_emptied [simp]: "mem_ok h \<Longrightarrow> mem_ok (h\<lparr>h_out := []\<rparr>)"
  by (simp add: mem_ok_def)

lemma unlocked_mem [simp]: "mem_ok (unlocked h) = mem_ok h"
  by (simp add: unlocked_def)

lemma unlock_mem: "unlock_device E h w = (h', w') \<Longrightarrow> mem_ok h' = mem_ok h"
  by (auto dest: unlock_device_unlocked)

lemma end_scan_mem: "end_scan E h w = (h', w') \<Longrightarrow> mem_ok h' = mem_ok h"
  by (auto dest: end_scan_unlocked)

section \<open>Rows\<close>

lemma out_reserve_mem:
  "out_reserve E n h w = (st, h', w') \<Longrightarrow> alloc_grants E \<Longrightarrow> mem_ok h \<Longrightarrow>
   st = SANE_STATUS_GOOD \<and> mem_ok h' \<and> length (h_out h') + n \<le> h_out_alloc h'"
  using out_reserve_grants [of E n h w st h' w'] out_reserve_room [of E n h w h' w'] by auto

lemma emit_white_rows_mem:
  "emit_white_rows E until h w = (st, h', w') \<Longrightarrow> alloc_grants E \<Longrightarrow> mem_ok h \<Longrightarrow> mem_ok h'"
proof (induction E until h w rule: emit_white_rows.induct)
  case (1 E until h w)
  show ?case
  proof (cases "h_next_row h < until \<and> h_next_row h < p_lines (h_params h)")
    case False
    with "1.prems" show ?thesis by (simp add: emit_white_rows.simps [of E until h w])
  next
    case True
    obtain st1 h1 w1 where r: "out_reserve E (nat (p_bytes_per_line (h_params h))) h w = (st1, h1, w1)"
      by (metis prod_cases3)
    note h1 = out_reserve_mem [OF r "1.prems"(2,3)]
    have p: "h_params h1 = h_params h" using out_reserve_frame(1) [OF r] .
    have "mem_ok (out_put (white_row (h_params h1)) h1)" using h1 by (intro out_put_room) (simp_all add: p)
    then show ?thesis
      using "1.IH" [OF True r [symmetric] refl _ refl] "1.prems" True r h1
      by (simp add: emit_white_rows.simps [of E until h w] Let_def)
  qed
qed

lemma page_data_31: "plen \<le> PANTUM_MAX_PAYLOAD \<Longrightarrow> unat plen < 2 ^ 31"
  by (simp add: PANTUM_MAX_PAYLOAD_def word_le_nat_alt)

text \<open>Rows are only made once everything else of a block has succeeded; a block that fails has
  touched the raw buffer at most.\<close>

lemma store_block_fails_mem:
  "store_block E dm first n stride avail body h w = (st, h', w') \<Longrightarrow> alloc_grants E \<Longrightarrow> st \<noteq> SANE_STATUS_GOOD \<Longrightarrow>
   mem_ok h' = mem_ok h"
  by (auto simp: store_block_def Let_def split: if_splits prod.splits
      dest!: emit_white_rows_grants data_rows_grants)

lemma data_block_fails_mem:
  "handle_data_block E dm plen h w = (st, h', w') \<Longrightarrow> alloc_grants E \<Longrightarrow> st \<noteq> SANE_STATUS_GOOD \<Longrightarrow>
   mem_ok h' = mem_ok h"
  by (auto simp: handle_data_block_def Let_def split: if_splits prod.splits dest: store_block_fails_mem)

lemma handle_data_block_mem:
  assumes "handle_data_block E dm plen h w = (st, h', w')" "alloc_grants E" "mem_ok h"
    "page_ok h" "length dm = 16384" "plen \<le> PANTUM_MAX_PAYLOAD"
  shows "mem_ok h'"
proof (cases "st = SANE_STATUS_GOOD")
  case True
  with handle_data_block_rows [OF assms(4,5) page_data_31 [OF assms(6)] assms(1)] assms(3) show ?thesis
    by (auto dest: rows_step_good(2))
next
  case False
  with data_block_fails_mem [OF assms(1,2)] assms(3) show ?thesis by simp
qed

lemma pump_frame_mem:
  assumes "pump_frame E dm dbg probe want h w = (r, h', w')" "alloc_grants E" "mem_ok h" "page_ok h" "length dm = 16384"
  shows "mem_ok h'"
  using assms(1)
proof (cases rule: pump_frame_cases)
  case (data plen w1 w2 st)
  with handle_data_block_mem [OF data(1) assms(2-5)] show ?thesis by simp
next
  case (job_end h1 w1 w2 st)
  with emit_white_rows_mem [OF job_end(1) assms(2,3)] show ?thesis by simp
next
  case (page_end h1 w1 w2 st)
  with emit_white_rows_mem [OF page_end(1) assms(2,3)] show ?thesis by simp
qed (use assms(3) in simp_all)

section \<open>Jobs\<close>

lemma await_first_rows_mem:
  assumes "await_first_rows E dm dbg ab h w = Some (r, h', w')" "alloc_grants E" "mem_ok h" "length dm = 16384"
    "ab = None \<Longrightarrow> page_running h"
  shows "mem_ok h'"
proof -
  have "await_first_rows E dm dbg ab h w = Some y \<Longrightarrow> alloc_grants E \<Longrightarrow> mem_ok h \<Longrightarrow> length dm = 16384 \<Longrightarrow>
      (ab = None \<longrightarrow> page_running h) \<Longrightarrow> mem_ok (fst (snd y))" for y
  proof (induction E dm dbg ab h w y rule: await_first_rows.raw_induct [rotated, consumes 1, case_names step])
    case (step await E dm dbg ab h w y)
    show ?case
    proof (cases "h_scanning h \<and> h_out h = [] \<and> ab = None \<and> \<not> h_eof h")
      case False
      with step.hyps step.prems show ?thesis by (auto split: if_splits)
    next
      case True
      obtain r h1 w1 where p: "pump_frame E dm dbg False True h w = (r, h1, w1)" by (rule prod_cases3)
      from True step.prems have run: "page_running h" "h_scanning h" "page_ok h" by (auto simp: page_running_def)
      have m: "mem_ok h1" using pump_frame_mem [OF p step.prems(1,2) run(3) step.prems(3)] .
      show ?thesis
      proof (cases "pr_status r = SANE_STATUS_GOOD")
        case False
        with step.hyps True p m show ?thesis by (auto split: prod.splits dest: unlock_mem)
      next
        case good: True
        obtain rows where "pr_status r = SANE_STATUS_GOOD \<Longrightarrow> pr_aborted r = None \<Longrightarrow> page_running h1"
          using pump_frame_running [OF run(1,2) step.prems(3) p] by metis
        moreover have a: "await E dm dbg (pr_aborted r) h1 w1 = Some y" using True good step.hyps p by simp
        ultimately show ?thesis using step.IH [OF a step.prems(1) m step.prems(3)] good by simp
      qed
    qed
  qed
  from this [OF assms(1-4)] assms(5) show ?thesis by simp
qed

lemma fresh_page_mem [simp]: "mem_ok h \<Longrightarrow> mem_ok (fresh_page h)"
  by (simp add: fresh_page_def)

lemma run_job_mem:
  assumes "run_job E dm dbg h w = Some (r, h', w')" "alloc_grants E" "mem_ok h" "length dm = 16384"
    "page_ready h" "flags_ended h"
  shows "mem_ok h'"
proof -
  obtain st1 h1 w1 where l: "lock_device E (fresh_page h) w = (st1, h1, w1)" by (rule prod_cases3)
  have h1: "h1 = (if st1 = SANE_STATUS_GOOD then fresh_page h\<lparr>h_locked := True\<rparr> else unlocked (fresh_page h))" "mem_ok h1"
    using lock_device_handle [OF l] assms(3) by simp_all
  have go: "mem_ok h'" if "await_first_rows E dm dbg None (h1\<lparr>h_scanning := True\<rparr>) w2 = Some (r, h', w')" "st1 = SANE_STATUS_GOOD" for w2
  proof (rule await_first_rows_mem [OF that(1) assms(2) _ assms(4)])
    show "page_running (h1\<lparr>h_scanning := True\<rparr>)"
      using fresh_page_ok [OF assms(5)] that(2) by (simp add: h1(1) page_running_def lock_ok_def)
  qed (use h1(2) in simp)
  show ?thesis
    using assms(1) l h1(2) unfolding run_job_def fresh_page_def [symmetric]
    by (auto simp: Let_def split: if_splits prod.splits dest: unlock_mem intro: go)
qed

lemma resume_job_mem:
  assumes "resume_job E dm dbg h w = Some (st, h', w')" "alloc_grants E" "mem_ok h" "length dm = 16384"
    "page_ready h" "h_scanning h" "lock_ok h"
  shows "mem_ok h'"
proof -
  define h2 where "h2 = fresh_page h\<lparr>h_feeding := False\<rparr>"
  have eq: "h\<lparr>h_next_row := 0, h_out := [], h_out_pos := 0, h_eof := False, h_feeding := False\<rparr> = h2"
    by (simp add: h2_def fresh_page_def)
  have ok2: "page_running h2" "mem_ok h2"
    using fresh_page_ok [OF assms(5)] assms(3,6,7) by (simp_all add: page_running_def h2_def lock_ok_def)
  show ?thesis
    using assms(1) ok2 unfolding resume_job_def Let_def eq
    by (auto split: option.splits dest: await_first_rows_mem [OF _ assms(2) _ assms(4)])
qed

lemma start_tries_mem:
  "start_tries E dm dbg n h w = Some (st, h', w') \<Longrightarrow> alloc_grants E \<Longrightarrow> mem_ok h \<Longrightarrow> length dm = 16384 \<Longrightarrow>
   page_ready h \<Longrightarrow> flags_ended h \<Longrightarrow> mem_ok h'"
proof (induction n arbitrary: h w)
  case (Suc n)
  obtain st1 ab h1 w1 where r: "run_job E dm dbg h w = Some ((st1, ab), h1, w1)"
    using Suc.prems(1) by (auto split: option.splits)
  note m = run_job_mem [OF r Suc.prems(2-6)]
  note j = run_job_running [OF r Suc.prems(4-6)]
  have "page_ready h1"
    using j(1) Suc.prems(5) by (simp add: page_ready_def page_wf_def margins_ok_def same_session_def)
  then show ?case
    using Suc.prems r m Suc.IH [of h1 "sleep_ms E 2000 w1"] j(5) by (auto split: if_splits option.splits)
qed simp

section \<open>Calls\<close>

lemma prepare_job_mem [simp]: "mem_ok (prepare_job h) = mem_ok h"
  by (simp add: prepare_job_def mem_ok_def)

lemma set_margins_mem [simp]: "mem_ok (set_margins h) = mem_ok h"
  by (auto simp: set_margins_def mem_ok_def Let_def split: prod.splits)

lemma job_handle_mem [simp]: "mem_ok (job_handle h) = mem_ok h"
  by (simp add: job_handle_def Let_def)

lemma sane_start_mem:
  assumes "sane_start F E dbg dmask h w = Some (r, h', w')" "alloc_grants E" "mem_ok h" "session_ok h" "mask_ok dmask"
  shows "mem_ok h'"
proof -
  obtain h0 w0 where c: "(if h_cancelled h then end_scan E h w else (h, w)) = (h0, w0)" by (metis surj_pair)
  have h0: "session_ok h0" "mem_ok h0"
    using c assms(3,4) end_scan_ok [of E h w h0 w0] end_scan_mem [of E h w h0 w0]
    by (auto simp: session_ok_def options_inv_session flags_ended_def split: if_splits)
  have dm: "length (mask_bytes dmask) = 16384" using assms(5) by (simp add: mask_ok_def)
  note start = assms(1) [unfolded sane_start_def c prod.case]
  show ?thesis
  proof (cases "h_feeding h0")
    case True
    then have sc: "h_scanning h0" "lock_ok h0" "page_ready h0"
      using h0(1) by (auto simp: session_ok_def lock_ok_def page_running_def page_ok_def page_ready_def)
    from True start obtain st where "resume_job E (mask_bytes dmask) dbg h0 w0 = Some (st, h', w')"
      by (auto split: option.splits)
    from resume_job_mem [OF this assms(2) h0(2) dm sc(3,1,2)] show ?thesis .
  next
    case feeding: False
    show ?thesis
    proof (cases "h_scanning h0")
      case True
      with feeding start h0 show ?thesis by auto
    next
      case idle: False
      note j = job_handle_ok [OF h0(1) idle]
      from feeding idle start obtain st1 dmask1 w1 where b:
        "(if h_halftone (prepare_job h0) then build_dither_mask F E dmask w0 else Some ((SANE_STATUS_GOOD, dmask), w0)) = Some ((st1, dmask1), w1)"
        "if st1 \<noteq> SANE_STATUS_GOOD then h' = prepare_job h0
         else \<exists>st. start_tries E (mask_bytes dmask1) dbg 4 (job_handle h0) w1 = Some (st, h', w')"
        by (auto simp: start_new_job_def Let_def job_handle_def split: option.splits if_splits)
      have "length (mask_bytes dmask1) = 16384"
        using b(1) assms(5) build_dither_mask_ok [of F E dmask w0 st1 dmask1 w1] by (auto simp: mask_ok_def split: if_splits)
      with b(2) h0(2) j(3,6) start_tries_mem [OF _ assms(2)] show ?thesis by (auto split: if_splits)
    qed
  qed
qed

lemma read_pump_mem:
  assumes "read_pump E dm dbg h w = Some (r, h', w')" "alloc_grants E" "mem_ok h" "length dm = 16384"
    "h_scanning h \<longrightarrow> page_running h"
  shows "mem_ok h'"
proof -
  have "read_pump E dm dbg h w = Some y \<Longrightarrow> alloc_grants E \<Longrightarrow> mem_ok h \<Longrightarrow> length dm = 16384 \<Longrightarrow>
      (h_scanning h \<longrightarrow> page_running h) \<Longrightarrow> mem_ok (fst (snd y))" for y
  proof (induction E dm dbg h w y rule: read_pump.raw_induct [rotated, consumes 1, case_names step])
    case (step read E dm dbg h w y)
    show ?case
    proof (cases "h_out_pos h = length (h_out h) \<and> \<not> h_eof h \<and> h_scanning h")
      case False
      with step.hyps step.prems show ?thesis by (auto split: if_splits)
    next
      case True
      obtain r h1 w1 where p: "pump_frame E dm dbg (h_non_blocking h) False h w = (r, h1, w1)" by (rule prod_cases3)
      from True step.prems have run: "page_running h" "h_scanning h" "page_ok h" by (auto simp: page_running_def)
      have m: "mem_ok h1" using pump_frame_mem [OF p step.prems(1,2) run(3) step.prems(3)] .
      show ?thesis
      proof (cases "pr_status r = SANE_STATUS_GOOD \<and> \<not> pr_idle r")
        case False
        with step.hyps True p m show ?thesis by (auto split: prod.splits if_splits dest: unlock_mem)
      next
        case good: True
        have "pr_aborted r \<noteq> None \<longrightarrow> False" "pr_status r = SANE_STATUS_GOOD \<Longrightarrow> pr_aborted r = None \<Longrightarrow> page_running h1"
          using pump_frame_running [OF run(1,2) step.prems(3) p] by metis+
        moreover have a: "read E dm dbg h1 w1 = Some y" using True good step.hyps p by simp
        ultimately show ?thesis using step.IH [OF a step.prems(1) m step.prems(3)] good by simp
      qed
    qed
  qed
  from this [OF assms(1-4)] assms(5) show ?thesis by simp
qed

lemma sane_read_mem:
  assumes "sane_read E dbg dmask n h w = Some (r, h', w')" "alloc_grants E" "mem_ok h" "session_ok h" "mask_ok dmask"
  shows "mem_ok h'"
proof -
  obtain st data where "sane_read E dbg dmask n h w = Some ((st, data), h', w')" using assms(1) by (cases r) auto
  then show ?thesis
  proof (cases rule: sane_read_cases)
    case (some h1 k)
    then show ?thesis
      using read_pump_mem [OF some(2) assms(2,3)] assms(4,5) by (auto simp: session_ok_def mask_ok_def)
  qed (use assms(3-5) read_pump_mem [OF _ assms(2,3)] in \<open>auto simp: session_ok_def mask_ok_def dest: end_scan_mem\<close>)
qed

lemma open_handle_mem: "open_handle E w = (h, w') \<Longrightarrow> mem_ok h"
proof -
  assume o: "open_handle E w = (h, w')"
  obtain h1 w1 where p: "probe_adf E calloc_handle (flush_input E w) = (h1, w1)" by (metis surj_pair)
  have "mem_ok h1"
    using p by (auto simp: probe_adf_def Let_def split: prod.splits if_splits dest!: unlock_mem)
      (simp_all add: calloc_handle_def mem_ok_def)
  with o p show ?thesis by (auto simp: open_handle_def init_options_def Let_def split: prod.splits)
qed

section \<open>A refused allocation\<close>

text \<open>
  C32. A refused allocation is believed. \<^verbatim>\<open>out_cap\<close> is raised before
  \<^verbatim>\<open>realloc\<close> is asked and stays raised when it refuses: \<^verbatim>\<open>out_reserve\<close> reports
  \<^verbatim>\<open>SANE_STATUS_NO_MEM\<close>, but the next call for the same room succeeds without asking
  again, whatever the allocator would say, and the row put there is written past the block.
\<close>

theorem refused_room_is_believed:
  assumes "out_reserve E n h w = (SANE_STATUS_NO_MEM, h1, w1)" "mem_ok h" "length row = n"
  shows "out_reserve E' n h1 w2 = (SANE_STATUS_GOOD, h1, w2) \<and> h_overrun (out_put row h1)"
proof -
  have h1: "length (h_out h1) + n \<le> h_out_cap h1" "h_out_alloc h1 < length (h_out h1) + n" "h_out_pos h1 = 0"
    using assms(1,2) by (auto simp: out_reserve_def Let_def mem_ok_def split: prod.splits if_splits intro: grow_cap_ge)
  have "out_reserve E' n h1 w2 = (SANE_STATUS_GOOD, h1, w2)" using h1 by (simp add: out_reserve_def)
  moreover have "h_overrun (out_put row h1)" using h1 assms(3) by (simp add: out_put_def)
  ultimately show ?thesis ..
qed

text \<open>A new handle, and an allocator that refuses once.\<close>

theorem refused_room_is_believed_witness:
  "\<exists>h1 w1. out_reserve wire_env 2 calloc_handle \<lparr>w_in = [], w_out = [], w_mem = [False]\<rparr> = (SANE_STATUS_NO_MEM, h1, w1)
     \<and> out_reserve wire_env 2 h1 w1 = (SANE_STATUS_GOOD, h1, w1) \<and> h_overrun (out_put [255, 255] h1)"
proof -
  let ?w = "\<lparr>w_in = [], w_out = [], w_mem = [False]\<rparr>"
  obtain h1 w1 where r: "out_reserve wire_env 2 calloc_handle ?w = (SANE_STATUS_NO_MEM, h1, w1)"
    by (simp add: out_reserve_def calloc_handle_def wire_env_def Let_def)
  have "mem_ok calloc_handle" by (simp add: mem_ok_def calloc_handle_def)
  from refused_room_is_believed [OF r this, of "[255, 255]" wire_env w1] r show ?thesis by simp
qed

section \<open>Every history\<close>

fun buffer_ok :: "pantum_handle \<times> byte list option \<times> 'w \<Rightarrow> bool" where
  "buffer_ok (h, m, w) \<longleftrightarrow> api_ok (h, m, w) \<and> mem_ok h"

interpretation buffers: step_invariant "\<lambda>s t. alloc_grants E \<and> api_step F E dbg s t" buffer_ok
  for F :: "'f float_ops" and E :: "'w env" and dbg
proof
  fix s t :: "pantum_handle \<times> byte list option \<times> 'w"
  assume step: "alloc_grants E \<and> api_step F E dbg s t" and ok: "buffer_ok s"
  have "api_ok t" using sessions.step_inv [of F E dbg s t] step ok by (cases s) auto
  moreover have "mem_ok (fst t)"
    using step [THEN conjunct2]
  proof (cases rule: api_step.cases)
    case (option h w h' w' m)
    then obtain i action v r where "control_option E h i action v w = (r, h', w')" by (auto elim: option_callE)
    from control_option_frame(1) [OF this] option ok show ?thesis by (auto simp: mem_ok_def)
  qed (use step ok in \<open>auto simp: sane_cancel_def sane_set_io_mode_def sane_get_parameters_def Let_def
        dest: sane_start_mem sane_read_mem\<close>)
  ultimately show "buffer_ok t" by (cases t) simp
qed

text \<open>
  C8. No row is written past the output block. From \<^verbatim>\<open>sane_open\<close> on, after any sequence of
  calls and whatever the device sends, and as long as the allocator grants what it is asked for:
  \<^verbatim>\<open>out_cap\<close> is the size of the block, the queue fits it, and no row has ever been written
  beyond it.
\<close>

theorem rows_stay_in_block:
  assumes "open_handle E w0 = (h0, w1)" "(api_step F E dbg)\<^sup>*\<^sup>* (h0, None, w1) (h, m, w)" "alloc_grants E"
  shows "h_out_cap h = h_out_alloc h \<and> length (h_out h) \<le> h_out_cap h \<and> \<not> h_overrun h"
proof -
  have "buffer_ok (h0, None, w1)" using open_handle_ok(1) [OF assms(1)] open_handle_mem [OF assms(1)] by simp
  moreover have "(\<lambda>s t. alloc_grants E \<and> api_step F E dbg s t)\<^sup>*\<^sup>* (h0, None, w1) (h, m, w)" using assms(2,3) by simp
  ultimately show ?thesis using buffers.run_inv by (fastforce simp: mem_ok_def)
qed

theorem rows_stay_in_block_witness:
  "\<exists>h w0 h1 w1. open_handle rich_env \<lparr>w_in = [], w_out = [], w_mem = []\<rparr> = (h, w0)
     \<and> sane_start demo_floats rich_env 0 None h (demo_wire h) = Some ((SANE_STATUS_GOOD, None :: byte list option), h1, w1)
     \<and> length (h_out h1) \<le> h_out_alloc h1 \<and> \<not> h_overrun h1"
proof -
  obtain h w0 h1 w1 ns page h2 w2 where d:
    "open_handle rich_env \<lparr>w_in = [], w_out = [], w_mem = []\<rparr> = (h, w0)"
    "(api_step demo_floats rich_env 0)\<^sup>*\<^sup>* (h, None, w0) (h, None, demo_wire h)"
    "sane_start demo_floats rich_env 0 None h (demo_wire h) = Some ((SANE_STATUS_GOOD, None), h1, w1)"
    "sane_reads rich_env 0 None ns h1 w1 = Some ((SANE_STATUS_EOF, concat page), h2, w2)"
    using demo_scan .
  have "(api_step demo_floats rich_env 0)\<^sup>*\<^sup>* (h, None, w0) (h1, None, w1)"
    using d(2) api_step.start [OF d(3)] by (rule rtranclp.rtrancl_into_rtrancl)
  from rows_stay_in_block [OF d(1) this rich_env_link(5)] d(1,3) show ?thesis by auto
qed

end
