(* ===== verification/Hex.thy ===== *)
theory Hex
  imports Config
begin

text \<open>
  Digits as \<^verbatim>\<open>printf\<close> writes them, and what the scanners of \<open>Config\<close> make of them.
\<close>

definition hex_char :: "nat \<Rightarrow> char" where
  "hex_char n = char_of (if n < 10 then 48 + n else 87 + n)"

lemma of_hex_char: "n < 16 \<Longrightarrow> (of_char (hex_char n) :: nat) = (if n < 10 then 48 + n else 87 + n)"
  by (simp add: hex_char_def)

lemma hex_char_facts [simp]:
  assumes "n < 16"
  shows "digit_value (hex_char n) = Some n" "\<not> isspace (hex_char n)" "hex_char n \<noteq> CHR 0x0A" "hex_char n \<noteq> CHR 0x00"
    "CHR 0x0A \<noteq> hex_char n" "CHR 0x00 \<noteq> hex_char n"
proof -
  have o: "(of_char (hex_char n) :: nat) \<ge> 48"
    using of_hex_char [OF assms] by simp
  show "digit_value (hex_char n) = Some n" "\<not> isspace (hex_char n)"
    using assms by (simp_all add: digit_value_def isspace_def of_hex_char)
  show "hex_char n \<noteq> CHR 0x0A" "hex_char n \<noteq> CHR 0x00" "CHR 0x0A \<noteq> hex_char n" "CHR 0x00 \<noteq> hex_char n"
    using o by (auto dest: arg_cong [where f = "of_char :: char \<Rightarrow> nat"])
qed

text \<open>The digits of a number in a base up to 16, lower case, most significant first.\<close>

fun digits :: "nat \<Rightarrow> nat \<Rightarrow> string" where
  "digits base n = (if n < base \<or> base < 2 then [hex_char (n mod 16)]
     else digits base (n div base) @ [hex_char (n mod base mod 16)])"

declare digits.simps [simp del]

text \<open>\<^verbatim>\<open>%d\<close>, and \<^verbatim>\<open>%0kx\<close>.\<close>

definition show_int :: "int \<Rightarrow> string" where
  "show_int i = (if i < 0 then ''-'' else []) @ digits 10 (nat \<bar>i\<bar>)"

definition pad_hex :: "nat \<Rightarrow> nat \<Rightarrow> string" where
  "pad_hex k n = (let d = digits 16 n in replicate (k - length d) (CHR ''0'') @ d)"

definition is_hex :: "char \<Rightarrow> bool" where
  "is_hex c \<longleftrightarrow> (\<exists>d < 16. c = hex_char d)"

lemma is_hex_char [simp]: "is_hex (hex_char (n mod 16))"
  unfolding is_hex_def by (rule exI [of _ "n mod 16"]) simp

lemma is_hex_not_newline: "is_hex c \<Longrightarrow> c \<noteq> CHR 0x0A \<and> digit_value c \<noteq> None"
  by (auto simp: is_hex_def)

lemma zero_hex: "CHR ''0'' = hex_char 0"
  by (simp add: hex_char_def char_of_def bit_0)

lemma is_hex_zero [simp]: "is_hex CHR ''0''"
  using is_hex_char [of 0] by (simp add: zero_hex)

lemma digits_hex: "c \<in> set (digits base n) \<Longrightarrow> is_hex c"
proof (induction base n rule: digits.induct)
  case (1 base n)
  then show ?case by (subst (asm) (2) digits.simps) (auto split: if_splits)
qed

lemma pad_hex_hex: "c \<in> set (pad_hex k n) \<Longrightarrow> is_hex c"
  by (auto simp: pad_hex_def Let_def dest: digits_hex)

lemma no_newline [simp]:
  "CHR 0x0A \<notin> set (digits base n)" "CHR 0x0A \<notin> set (pad_hex k n)" "CHR 0x0A \<notin> set (show_int i)"
  by (auto simp: show_int_def dest!: digits_hex pad_hex_hex is_hex_not_newline)

lemma digits_length: "n < 16 ^ Suc k \<Longrightarrow> length (digits 16 n) \<le> Suc k"
proof (induction k arbitrary: n)
  case 0
  then show ?case by (simp add: digits.simps [of 16 n])
next
  case (Suc k)
  have "n div 16 < 16 ^ Suc k" using Suc.prems by (simp add: less_mult_imp_div_less mult.commute)
  from Suc.IH [OF this] show ?case by (simp add: digits.simps [of 16 n])
qed

lemma pad_hex_length: "n < 16 ^ k \<Longrightarrow> 0 < k \<Longrightarrow> length (pad_hex k n) = k"
  using digits_length [of n "k - 1"] by (simp add: pad_hex_def Let_def)

lemma pad_hex_2: "n < 256 \<Longrightarrow> pad_hex 2 n = [hex_char (n div 16), hex_char (n mod 16)]"
  by (auto simp: pad_hex_def Let_def digits.simps [of 16] zero_hex)

end
