(* ===== verification/Config_Laws.thy ===== *)
theory Config_Laws
  imports Hex Page_Laws
begin

text \<open>
  The configuration file read back: a printer for the lines the shipped
  \<^verbatim>\<open>etc/sane.d/pantum.conf\<close> is made of, and the ids \<^verbatim>\<open>read_config\<close> gets from
  them.
\<close>

section \<open>Numbers\<close>

text \<open>\<^verbatim>\<open>%04x\<close> of a 16-bit number.\<close>

definition hex4 :: "u16 \<Rightarrow> string" where
  "hex4 v = [hex_char (unat v div 4096), hex_char (unat v div 256 mod 16), hex_char (unat v div 16 mod 16), hex_char (unat v mod 16)]"

lemma hex4_digits:
  "unat (v :: u16) div 4096 < 16" "unat v div 256 mod 16 < 16" "unat v div 16 mod 16 < 16" "unat v mod 16 < 16"
  using unsigned_less [of v, where ?'a = nat] by simp_all

lemma hex4_value: "((unat (v :: u16) div 4096 * 16 + unat v div 256 mod 16) * 16 + unat v div 16 mod 16) * 16 + unat v mod 16 = unat v"
proof -
  have "n div 4096 = n div 256 div 16" "n div 256 = n div 16 div 16" for n :: nat
    by (simp_all add: div_mult2_eq [symmetric])
  then show ?thesis by (metis div_mult_mod_eq)
qed

lemma scan_digits_stop: "\<not> starts_digit base rest \<Longrightarrow> scan_digits base n rest = (n, rest)"
  by (cases rest) (auto simp: starts_digit_def split: option.splits)

lemma scan_hex4:
  assumes "\<not> starts_digit 16 rest"
  shows "scan_digits 16 0 (hex4 v @ rest) = (unat v, rest)"
  using hex4_digits [of v] hex4_value [of v] scan_digits_stop [OF assms] by (simp add: hex4_def)

lemma space_facts [simp]:
  "isspace CHR '' ''" "isspace CHR 0x0A" "\<not> isspace CHR ''0''" "\<not> isspace CHR ''x''" "\<not> isspace CHR ''u''" "\<not> isspace CHR ''#''"
  "digit_value CHR '' '' = None" "digit_value CHR 0x0A = None"
  by (simp_all add: isspace_def digit_value_def)

text \<open>One number of a line, with a blank in front and behind.\<close>

definition hex_field :: "u16 \<Rightarrow> string" where
  "hex_field v = '' 0x'' @ hex4 v"

lemma scan_hex_field: "scan_int (hex_field v @ CHR '' '' # rest) = Some (int (unat v), CHR '' '' # rest)"
proof -
  have s: "starts_digit 16 (hex4 v @ CHR '' '' # rest)"
    using hex4_digits(1) [of v] by (simp add: starts_digit_def hex4_def)
  have "scan_number (''0x'' @ hex4 v @ CHR '' '' # rest) = Some (unat v, CHR '' '' # rest)"
    using s scan_hex4 [of "CHR '' '' # rest" v] by (simp add: scan_number_def starts_digit_def)
  moreover have "int (unat v) < 2 ^ 16" using unsigned_less [of v, where ?'a = int] by simp
  then have "signed_take_bit 31 (int (unat v)) = int (unat v)" "min (2 ^ 63 - 1) (int (unat v)) = int (unat v)"
    by (auto intro!: signed_take_bit_int_eq_self order_trans [OF _ unsigned_greater_eq] simp: min_def)
  ultimately show ?thesis by (simp add: scan_int_def hex_field_def)
qed

lemma skip_hex_field: "skip_word (hex_field v @ CHR '' '' # rest) = CHR '' '' # rest"
  using hex4_digits [of v] by (simp add: skip_word_def hex_field_def hex4_def)

section \<open>Lines\<close>

datatype config_item = Blank_Line | Comment string | Usb_Id u16 u16 string

fun print_item :: "config_item \<Rightarrow> string" where
  "print_item Blank_Line = [CHR 0x0A]"
| "print_item (Comment s) = CHR ''#'' # s @ [CHR 0x0A]"
| "print_item (Usb_Id vid pid model) = ''usb'' @ hex_field vid @ hex_field pid @ '' '' @ model @ [CHR 0x0A]"

definition print_config :: "config_item list \<Rightarrow> string" where
  "print_config items = concat (map print_item items)"

text \<open>What a line can hold: it fits the buffer, has no line end or zero byte of its own, and the model no
  blanks around it.\<close>

definition line_text :: "nat \<Rightarrow> string \<Rightarrow> bool" where
  "line_text n s \<longleftrightarrow> length s < n \<and> CHR 0x0A \<notin> set s \<and> CHR 0x00 \<notin> set s"

fun item_ok :: "config_item \<Rightarrow> bool" where
  "item_ok Blank_Line \<longleftrightarrow> True"
| "item_ok (Comment s) \<longleftrightarrow> line_text 500 s"
| "item_ok (Usb_Id vid pid model) \<longleftrightarrow> line_text 480 model \<and> (model \<noteq> [] \<longrightarrow> \<not> isspace (hd model) \<and> \<not> isspace (last model))"

text \<open>The id of a line; the model of a line without one is the default.\<close>

fun item_ids :: "config_item \<Rightarrow> usb_id list" where
  "item_ids (Usb_Id vid pid model) =
     [\<lparr>id_vid = vid, id_pid = pid, id_model = Some (if model \<noteq> [] then model else ''M6500 series'')\<rparr>]"
| "item_ids _ = []"

lemma strip_model:
  assumes "model \<noteq> [] \<longrightarrow> \<not> isspace (hd model) \<and> \<not> isspace (last model)"
  shows "rev (dropWhile isspace (rev (dropWhile isspace (CHR '' '' # model @ [CHR 0x0A])))) = model"
proof (cases "model = []")
  case True
  then show ?thesis by simp
next
  case False
  then obtain c cs d ds where "model = c # cs" "rev model = d # ds" "\<not> isspace c" "\<not> isspace d"
    using assms by (cases model; cases "rev model") (auto simp: hd_rev [symmetric])
  then show ?thesis by (metis append_Cons dropWhile.simps(2) rev.simps(2) rev_append rev_rev_ident space_facts(1,2) append_Nil)
qed

lemma add_id_grants:
  assumes "alloc_grants E"
  shows "\<exists>w'. add_id S E vid pid model ids w
    = (\<lparr>id_vid = vid, id_pid = pid, id_model = Some (if model \<noteq> [] then model else ''M6500 series'')\<rparr> # ids, w')"
  using assms by (auto simp: add_id_def pantum_strdup_def alloc_grants_def split: prod.splits) (metis fst_conv)+

lemma parse_item:
  assumes "alloc_grants E" "item_ok i"
  shows "\<exists>w'. parse_config_line S E (print_item i) ids w = (item_ids i @ ids, w')"
proof (cases i)
  case Blank_Line
  then show ?thesis by (simp add: parse_config_line_def)
next
  case (Comment s)
  then show ?thesis by (simp add: parse_config_line_def)
next
  case (Usb_Id vid pid model)
  let ?rest = "model @ [CHR 0x0A]"
  have small: "\<not> 0xffff < int (unat vid)" "\<not> 0xffff < int (unat pid)"
    using unsigned_less [of vid, where ?'a = int] unsigned_less [of pid, where ?'a = int] by simp_all
  have f: "scan_int (hex_field vid @ hex_field pid @ CHR '' '' # ?rest) = Some (int (unat vid), hex_field pid @ CHR '' '' # ?rest)"
    "skip_word (hex_field vid @ hex_field pid @ CHR '' '' # ?rest) = hex_field pid @ CHR '' '' # ?rest"
    using scan_hex_field [of vid "tl (hex_field pid @ CHR '' '' # ?rest)"] skip_hex_field [of vid "tl (hex_field pid @ CHR '' '' # ?rest)"]
    by (simp_all add: hex_field_def)
  have "parse_config_line S E (print_item i) ids w = add_id S E vid pid model ids w"
    using small f scan_hex_field [of pid ?rest] skip_hex_field [of pid ?rest] strip_model [of model] assms(2)
    by (simp add: Usb_Id parse_config_line_def Let_def)
  with add_id_grants [OF assms(1)] show ?thesis by (simp add: Usb_Id)
qed

section \<open>Files\<close>

lemma fgets_line:
  assumes "line_text 511 l"
  shows "fgets 512 (l @ CHR 0x0A # rest) = l @ [CHR 0x0A]"
proof -
  have "takeWhile (\<lambda>c. c \<noteq> CHR 0x0A) (l @ CHR 0x0A # rest) = l"
    using assms by (subst takeWhile_append2) (auto simp: line_text_def)
  moreover have "length l < 511" using assms by (simp add: line_text_def)
  ultimately show ?thesis by (simp add: fgets_def Suc_le_eq)
qed

lemma print_item_line: "item_ok i \<Longrightarrow> \<exists>l. print_item i = l @ [CHR 0x0A] \<and> line_text 511 l"
proof (cases i)
  case (Usb_Id vid pid model)
  assume "item_ok i"
  then have "line_text 511 (''usb'' @ hex_field vid @ hex_field pid @ '' '' @ model)"
    using Usb_Id hex4_digits [of vid] hex4_digits [of pid]
    by (simp add: line_text_def hex_field_def hex4_def)
  with Usb_Id show ?thesis by simp
qed (auto simp: line_text_def)

lemma file_lines_print:
  assumes "\<forall>i \<in> set items. item_ok i"
  shows "file_lines (print_config items) = map print_item items"
  using assms
proof (induction items)
  case Nil
  then show ?case by (simp add: print_config_def file_lines.simps)
next
  case (Cons i items)
  then obtain l where l: "print_item i = l @ [CHR 0x0A]" "line_text 511 l" using print_item_line by auto
  have f: "fgets 512 (print_config (i # items)) = print_item i"
    using fgets_line [OF l(2)] by (simp add: print_config_def l(1))
  have "drop (length (print_item i)) (print_config (i # items)) = print_config items"
    by (simp add: print_config_def)
  with f Cons show ?case by (subst file_lines.simps) (simp add: print_config_def l(1))
qed

lemma parse_config_items:
  assumes "alloc_grants E" "\<forall>i \<in> set items. item_ok i"
  shows "\<exists>w'. parse_config_lines S E (map print_item items) ids w = (concat (map item_ids (rev items)) @ ids, w')"
  using assms(2)
proof (induction items arbitrary: ids w)
  case Nil
  then show ?case by simp
next
  case (Cons i items)
  have "CHR 0x00 \<notin> set (print_item i)"
    using print_item_line [of i] Cons.prems by (auto simp: line_text_def)
  then have t: "takeWhile (\<lambda>c. c \<noteq> CHR 0x00) (print_item i) = print_item i"
    by (auto simp: takeWhile_eq_all_conv)
  obtain w1 where "parse_config_line S E (print_item i) ids w = (item_ids i @ ids, w1)"
    using parse_item [OF assms(1), of i S ids w] Cons.prems by auto
  moreover obtain w2 where "parse_config_lines S E (map print_item items) (item_ids i @ ids) w1
      = (concat (map item_ids (rev items)) @ item_ids i @ ids, w2)"
    using Cons.IH [of "item_ids i @ ids" w1] Cons.prems by auto
  ultimately show ?case by (simp add: t)
qed

text \<open>
  C25. A configuration file is read back as it was written. Without \<^verbatim>\<open>SANE_CONFIG_DIR\<close>, with
  memory to be had and the file of the system directory made of blank lines, comments and lines
  \<^verbatim>\<open>usb 0xvvvv 0xpppp model\<close> (each fitting the line buffer), \<^verbatim>\<open>read_config\<close> yields the ids
  of exactly these lines, the last line first (so that it wins over an earlier one with the same
  numbers); a line without a model gets the default name, and the built-in id is not added.
\<close>

theorem config_file_round_trip:
  assumes "alloc_grants E" "getenv S ''SANE_CONFIG_DIR'' = None"
    and "fopen S (PANTUM_CONFIG_DIR @ ''/'' @ PANTUM_CONFIG_FILE) = Some (print_config items)"
    and "\<forall>i \<in> set items. item_ok i"
  shows "fst (read_config S E [] w) = concat (map item_ids (rev items))"
proof -
  obtain w' where "parse_config_lines S E (map print_item items) [] w = (concat (map item_ids (rev items)), w')"
    using parse_config_items [OF assms(1,4), of S "[]" w] by auto
  with assms(2,3) file_lines_print [OF assms(4)] show ?thesis
    by (simp add: read_config_def read_config_file_def Let_def PANTUM_CONFIG_DIR_def PANTUM_CONFIG_FILE_def)
qed

definition demo_config :: "config_item list" where
  "demo_config = [Comment '' Configuration'', Blank_Line, Usb_Id 0x232b 0x0e20 ''M6500 series'', Usb_Id 0x232b 0x1e20 []]"

theorem config_file_round_trip_witness:
  "fst (read_config \<lparr>getenv = (\<lambda>_. None), fopen = (\<lambda>_. Some (print_config demo_config)), sizeof = (\<lambda>_. 32)\<rparr> rich_env []
      \<lparr>w_in = [], w_out = [], w_mem = []\<rparr>)
   = [\<lparr>id_vid = 0x232b, id_pid = 0x1e20, id_model = Some ''M6500 series''\<rparr>,
      \<lparr>id_vid = 0x232b, id_pid = 0x0e20, id_model = Some ''M6500 series''\<rparr>]"
  by (subst config_file_round_trip [where items = demo_config])
     (simp_all add: demo_config_def line_text_def isspace_def)

end
