(* ===== verification/Zj_Chunk.thy ===== *)
theory Zj_Chunk
  imports Prelude
begin

text \<open>
  The output stream of the print filter \<^verbatim>\<open>src/rastertopantum.c\<close>: files as
  \<^verbatim>\<open>fwrite\<close> sees them, the chunk writer \<^verbatim>\<open>write_chunk\<close>, and the stream
  constants. \<open>appends\<close> is the contract every writer of the filter keeps: it adds its bytes to
  the file, or a proper part of them and reports the failure; the locale \<open>byte_sink\<close> proves
  that such writers compose.
\<close>

section \<open>Files\<close>

text \<open>\<open>file_quota\<close> says how many bytes each coming \<^verbatim>\<open>fwrite\<close> takes at most; once it is
  used up every write is complete. The result tells whether the count came back whole.\<close>

record c_file =
  file_data :: "byte list"
  file_quota :: "nat list"

definition empty_file :: c_file where
  "empty_file = \<lparr>file_data = [], file_quota = []\<rparr>"

definition fwrite :: "byte list \<Rightarrow> c_file \<Rightarrow> bool \<times> c_file" where
  "fwrite bs fp =
     (case file_quota fp of
        [] \<Rightarrow> (True, fp\<lparr>file_data := file_data fp @ bs\<rparr>)
      | q # qs \<Rightarrow>
          if length bs \<le> q then (True, \<lparr>file_data = file_data fp @ bs, file_quota = qs\<rparr>)
          else (False, \<lparr>file_data = file_data fp @ take q bs, file_quota = qs\<rparr>))"

definition reliable :: "c_file \<Rightarrow> bool" where
  "reliable fp \<longleftrightarrow> file_quota fp = []"

section \<open>Constants\<close>

definition UEL :: "byte list" where
  "UEL = [0x1b, 0x25, 0x2d, 0x31, 0x32, 0x33, 0x34, 0x35, 0x58]"

definition ZJ_MAGIC :: "byte list" where "ZJ_MAGIC = [0x4a, 0x5a, 0x4a, 0x5a]"
definition ZJ_SIGNATURE :: u16 where "ZJ_SIGNATURE = 0x5a5a"

definition ZJT_START_DOC :: u32 where "ZJT_START_DOC = 0x00"
definition ZJT_END_DOC :: u32 where "ZJT_END_DOC = 0x01"
definition ZJT_START_PAGE :: u32 where "ZJT_START_PAGE = 0x02"
definition ZJT_END_PAGE :: u32 where "ZJT_END_PAGE = 0x03"
definition ZJT_JBIG_BIH :: u32 where "ZJT_JBIG_BIH = 0x04"
definition ZJT_JBIG_BID :: u32 where "ZJT_JBIG_BID = 0x05"
definition ZJT_END_JBIG :: u32 where "ZJT_END_JBIG = 0x06"
definition ZJT_2600N_PAUSE :: u32 where "ZJT_2600N_PAUSE = 0x0b"
definition ZJT_PANTUM_PARAM :: u32 where "ZJT_PANTUM_PARAM = 0x11"

lemmas chunk_types =
  ZJT_START_DOC_def ZJT_END_DOC_def ZJT_START_PAGE_def ZJT_END_PAGE_def ZJT_JBIG_BIH_def
  ZJT_JBIG_BID_def ZJT_END_JBIG_def ZJT_2600N_PAUSE_def ZJT_PANTUM_PARAM_def

definition ZJI_PAGECOUNT :: u16 where "ZJI_PAGECOUNT = 0x0000"
definition ZJI_DMCOLLATE :: u16 where "ZJI_DMCOLLATE = 0x0001"
definition ZJI_DMDUPLEX :: u16 where "ZJI_DMDUPLEX = 0x0002"
definition ZJI_DMPAPER :: u16 where "ZJI_DMPAPER = 0x0003"
definition ZJI_DMCOPIES :: u16 where "ZJI_DMCOPIES = 0x0004"
definition ZJI_DMDEFAULTSOURCE :: u16 where "ZJI_DMDEFAULTSOURCE = 0x0005"
definition ZJI_DMMEDIATYPE :: u16 where "ZJI_DMMEDIATYPE = 0x0006"
definition ZJI_NBIE :: u16 where "ZJI_NBIE = 0x0007"
definition ZJI_RESOLUTION_X :: u16 where "ZJI_RESOLUTION_X = 0x0008"
definition ZJI_RESOLUTION_Y :: u16 where "ZJI_RESOLUTION_Y = 0x0009"
definition ZJI_RASTER_X :: u16 where "ZJI_RASTER_X = 0x000c"
definition ZJI_RASTER_Y :: u16 where "ZJI_RASTER_Y = 0x000d"
definition ZJI_VIDEO_BPP :: u16 where "ZJI_VIDEO_BPP = 0x0010"
definition ZJI_VIDEO_X :: u16 where "ZJI_VIDEO_X = 0x0011"
definition ZJI_VIDEO_Y :: u16 where "ZJI_VIDEO_Y = 0x0012"
definition ZJI_RET :: u16 where "ZJI_RET = 0x0016"
definition ZJI_CUSTOM_WIDTH :: u16 where "ZJI_CUSTOM_WIDTH = 0x0018"
definition ZJI_CUSTOM_HEIGHT :: u16 where "ZJI_CUSTOM_HEIGHT = 0x0019"
definition ZJI_CUSTOM_UNIT :: u16 where "ZJI_CUSTOM_UNIT = 0x001a"
definition ZJI_PANTUM_DENSITY :: u16 where "ZJI_PANTUM_DENSITY = 0xff00"

lemmas item_types =
  ZJI_PAGECOUNT_def ZJI_DMCOLLATE_def ZJI_DMDUPLEX_def ZJI_DMPAPER_def ZJI_DMCOPIES_def
  ZJI_DMDEFAULTSOURCE_def ZJI_DMMEDIATYPE_def ZJI_NBIE_def ZJI_RESOLUTION_X_def
  ZJI_RESOLUTION_Y_def ZJI_RASTER_X_def ZJI_RASTER_Y_def ZJI_VIDEO_BPP_def ZJI_VIDEO_X_def
  ZJI_VIDEO_Y_def ZJI_RET_def ZJI_CUSTOM_WIDTH_def ZJI_CUSTOM_HEIGHT_def ZJI_CUSTOM_UNIT_def
  ZJI_PANTUM_DENSITY_def

definition ZJ_DMDUPLEX_SIMPLEX :: u32 where "ZJ_DMDUPLEX_SIMPLEX = 1"

definition pantum_param_blob :: "byte list" where
  "pantum_param_blob =
    [0x00, 0x00, 0x00, 0x51, 0x00, 0x73, 0x00, 0x6e, 0x00, 0x96, 0x00, 0x7a,
     0x00, 0x64, 0x00, 0x96, 0x00, 0xc8, 0x00, 0x64, 0x00, 0x51, 0x00, 0x64,
     0x00, 0x64, 0x00, 0x64, 0x00, 0x64, 0x00, 0x64, 0x00, 0x64, 0x00, 0x64,
     0x00, 0x64, 0x00, 0x64, 0x00, 0x64, 0x00, 0x64, 0x00, 0x64, 0x00, 0x64,
     0x00, 0x78, 0x00, 0x87, 0x00, 0x96, 0x00, 0xb4, 0x00, 0xc8, 0x00, 0x78,
     0x00, 0x96, 0x00, 0xbe, 0x01, 0x5e, 0x01, 0x90, 0x00, 0x64, 0x00, 0x64]"

section \<open>Chunks\<close>

record zj_item =
  zi_type :: u16
  zi_value :: u32

definition item_record :: "zj_item \<Rightarrow> byte list" where
  "item_record item = put_be32 12 @ put_be16 (zi_type item) @ [1, 0] @ put_be32 (zi_value item)"

definition chunk_header :: "u32 \<Rightarrow> nat \<Rightarrow> nat \<Rightarrow> byte list" where
  "chunk_header ty nitems rawlen =
     put_be32 (of_nat (16 + nitems * 12 + rawlen)) @ put_be32 ty @ put_be32 (of_nat nitems)
     @ put_be16 (of_nat (nitems * 12)) @ put_be16 ZJ_SIGNATURE"

fun write_items :: "zj_item list \<Rightarrow> c_file \<Rightarrow> bool \<times> c_file" where
  "write_items [] fp = (True, fp)"
| "write_items (item # items) fp =
     (case fwrite (item_record item) fp of (ok, fp) \<Rightarrow>
        if ok then write_items items fp else (False, fp))"

text \<open>\<open>True\<close> is the return value 0.\<close>

definition write_chunk :: "u32 \<Rightarrow> zj_item list \<Rightarrow> byte list \<Rightarrow> c_file \<Rightarrow> bool \<times> c_file" where
  "write_chunk ty items raw fp =
     (case fwrite (chunk_header ty (length items) (length raw)) fp of (ok, fp) \<Rightarrow>
        if \<not> ok then (False, fp)
        else case write_items items fp of (ok, fp) \<Rightarrow>
          if \<not> ok then (False, fp)
          else if raw \<noteq> [] then fwrite raw fp
          else (True, fp))"

section \<open>Writers\<close>

text \<open>What a writer promises: its bytes whole, or a proper part of them and failure; and no
  failure on a file that takes everything.\<close>

definition appends ::
  "('s \<Rightarrow> byte list) \<Rightarrow> ('s \<Rightarrow> bool) \<Rightarrow> ('s \<Rightarrow> bool \<times> 's) \<Rightarrow> byte list \<Rightarrow> bool" where
  "appends content sound f bs \<longleftrightarrow>
     (\<forall>s ok s'. f s = (ok, s') \<longrightarrow>
        (\<exists>k \<le> length bs. content s' = content s @ take k bs \<and> (ok \<longleftrightarrow> k = length bs))
        \<and> (sound s \<longrightarrow> ok \<and> sound s'))"

lemma appendsI:
  assumes "\<And>s ok s'. f s = (ok, s') \<Longrightarrow>
      (\<exists>k \<le> length bs. content s' = content s @ take k bs \<and> (ok \<longleftrightarrow> k = length bs)) \<and> (sound s \<longrightarrow> ok \<and> sound s')"
  shows "appends content sound f bs"
  using assms unfolding appends_def by blast

lemma appends_nothing: "appends content sound (Pair True) []"
  by (simp add: appends_def)

lemma appends_whole:
  "appends content sound f bs \<Longrightarrow> f s = (True, s') \<Longrightarrow> content s' = content s @ bs"
  unfolding appends_def by (metis order_refl take_all)

lemma appends_sound:
  "appends content sound f bs \<Longrightarrow> f s = (ok, s') \<Longrightarrow> sound s \<Longrightarrow> ok \<and> sound s' \<and> content s' = content s @ bs"
  unfolding appends_def by (metis order_refl take_all)

lemma appends_prefix:
  "appends content sound f bs \<Longrightarrow> f s = (ok, s') \<Longrightarrow>
   \<exists>k. content s' = content s @ take k bs \<and> (k < length bs \<or> ok)"
  unfolding appends_def by (metis le_neq_implies_less)

locale byte_sink =
  fixes content :: "'s \<Rightarrow> byte list" and sound :: "'s \<Rightarrow> bool"
    and put :: "byte list \<Rightarrow> 's \<Rightarrow> bool \<times> 's"
  assumes put_appends: "appends content sound (put bs) bs"
begin

lemma both:
  assumes "appends content sound f a" "appends content sound g b"
  shows "appends content sound (\<lambda>s. case f s of (ok, s) \<Rightarrow> if ok then g s else (False, s)) (a @ b)"
proof (rule appendsI)
  fix s ok s'
  assume run: "(case f s of (ok, s) \<Rightarrow> if ok then g s else (False, s)) = (ok, s')"
  obtain ok1 s1 where f: "f s = (ok1, s1)" by (metis surj_pair)
  from assms(1) f obtain k where k: "k \<le> length a" "content s1 = content s @ take k a" "ok1 \<longleftrightarrow> k = length a"
    "sound s \<longrightarrow> ok1 \<and> sound s1"
    unfolding appends_def by blast
  show "(\<exists>k \<le> length (a @ b). content s' = content s @ take k (a @ b) \<and> (ok \<longleftrightarrow> k = length (a @ b)))
      \<and> (sound s \<longrightarrow> ok \<and> sound s')"
  proof (cases ok1)
    case False
    with run f have "\<not> ok" "s' = s1" by auto
    with k False show ?thesis by (auto intro!: exI [of _ k])
  next
    case True
    with run f have g: "g s1 = (ok, s')" by simp
    from assms(2) g obtain j where j: "j \<le> length b" "content s' = content s1 @ take j b" "ok \<longleftrightarrow> j = length b"
      "sound s1 \<longrightarrow> ok \<and> sound s'"
      unfolding appends_def by blast
    with k True show ?thesis by (auto intro!: exI [of _ "length a + j"])
  qed
qed

lemma each:
  assumes "\<And>x. x \<in> set xs \<Longrightarrow> appends content sound (f x) (g x)"
    "run [] = Pair True" "\<And>x xs. run (x # xs) = (\<lambda>s. case f x s of (ok, s) \<Rightarrow> if ok then run xs s else (False, s))"
  shows "appends content sound (run xs) (concat (map g xs))"
  using assms(1)
proof (induction xs)
  case Nil
  then show ?case by (simp add: assms(2) appends_nothing)
next
  case (Cons x xs)
  then show ?case by (simp add: assms(3) both)
qed

end

interpretation stdio: byte_sink file_data reliable fwrite
proof
  show "appends file_data reliable (fwrite bs) bs" for bs
  proof (rule appendsI)
    fix s ok s'
    assume w: "fwrite bs s = (ok, s')"
    show "(\<exists>k \<le> length bs. file_data s' = file_data s @ take k bs \<and> (ok \<longleftrightarrow> k = length bs))
        \<and> (reliable s \<longrightarrow> ok \<and> reliable s')"
    proof (cases "file_quota s")
      case Nil
      with w show ?thesis by (auto simp: fwrite_def reliable_def)
    next
      case (Cons q qs)
      show ?thesis
      proof (cases "length bs \<le> q")
        case True
        with w Cons show ?thesis by (auto simp: fwrite_def reliable_def)
      next
        case False
        with w Cons show ?thesis by (auto simp: fwrite_def reliable_def intro!: exI [of _ q])
      qed
    qed
  qed
qed

text \<open>The filter's own writers all speak of files.\<close>

abbreviation emits :: "(c_file \<Rightarrow> bool \<times> c_file) \<Rightarrow> byte list \<Rightarrow> bool" where
  "emits \<equiv> appends file_data reliable"

definition chunk_bytes :: "u32 \<Rightarrow> zj_item list \<Rightarrow> byte list \<Rightarrow> byte list" where
  "chunk_bytes ty items raw =
     chunk_header ty (length items) (length raw) @ concat (map item_record items) @ raw"

lemma write_items_emits: "emits (write_items items) (concat (map item_record items))"
  by (rule stdio.each [where f = "\<lambda>item. fwrite (item_record item)"])
     (simp_all add: fun_eq_iff stdio.put_appends)

lemma fwrite_nonempty_emits: "emits (if raw \<noteq> [] then fwrite raw else Pair True) raw"
  by (cases "raw = []") (simp_all add: appends_nothing stdio.put_appends)

lemma write_chunk_emits: "emits (write_chunk ty items raw) (chunk_bytes ty items raw)"
proof -
  have "write_chunk ty items raw =
    (\<lambda>s. case fwrite (chunk_header ty (length items) (length raw)) s of (ok, s) \<Rightarrow>
       if ok then (\<lambda>s. case write_items items s of (ok, s) \<Rightarrow>
         if ok then (if raw \<noteq> [] then fwrite raw else Pair True) s else (False, s)) s else (False, s))"
    by (auto simp: fun_eq_iff write_chunk_def split: prod.splits)
  then show ?thesis
    unfolding chunk_bytes_def
    by (simp only: stdio.both [OF stdio.put_appends stdio.both [OF write_items_emits fwrite_nonempty_emits]])
qed

end
