(* ===== verification/Zj_Wire.thy ===== *)
theory Zj_Wire
  imports Zj_Chunk
begin

text \<open>
  What a reader of the stream sees: a parser for chunks, written from the format and not from
  the writer, and the round trip with \<open>chunk_bytes\<close>. The later theories state what the filter
  sends as lists of parsed chunks.
\<close>

unbundle bit_operations_syntax

definition get_be16 :: "byte list \<Rightarrow> u16" where
  "get_be16 p = push_bit 8 (ucast (p ! 0)) OR ucast (p ! 1)"

lemma get_put_be16 [simp, be_simps]: "get_be16 (put_be16 v @ q) = v"
proof (rule bit_word_eqI)
  fix n
  assume "n < LENGTH(16)"
  then consider "n < 8" | "8 \<le> n" "n < 16" by fastforce
  then show "bit (get_be16 (put_be16 v @ q)) n = bit v n"
    by cases (auto simp: get_be16_def put_be16_def bit_simps)
qed

section \<open>The parser\<close>

type_synonym chunk = "u32 \<times> zj_item list \<times> byte list"

fun parse_items :: "nat \<Rightarrow> byte list \<Rightarrow> (zj_item list \<times> byte list) option" where
  "parse_items 0 bs = Some ([], bs)"
| "parse_items (Suc n) bs =
     (if length bs < 12 \<or> get_be32 bs \<noteq> 12 then None
      else case parse_items n (drop 12 bs) of
        None \<Rightarrow> None
      | Some (items, rest) \<Rightarrow>
          Some (\<lparr>zi_type = get_be16 (drop 4 bs), zi_value = get_be32 (drop 8 bs)\<rparr> # items, rest))"

definition parse_chunk :: "byte list \<Rightarrow> (chunk \<times> byte list) option" where
  "parse_chunk bs =
     (let len = unat (get_be32 bs); n = unat (get_be32 (drop 8 bs)) in
      if length bs < 16 \<or> len < 16 + 12 * n \<or> length bs < len
         \<or> unat (get_be16 (drop 12 bs)) \<noteq> 12 * n \<or> get_be16 (drop 14 bs) \<noteq> ZJ_SIGNATURE then None
      else case parse_items n (drop 16 bs) of
        None \<Rightarrow> None
      | Some (items, rest) \<Rightarrow>
          Some ((get_be32 (drop 4 bs), items, take (len - 16 - 12 * n) rest), drop len bs))"

lemma parse_chunk_shorter:
  "parse_chunk bs = Some (c, rest) \<Longrightarrow> length rest < length bs"
  by (auto simp: parse_chunk_def Let_def split: if_splits option.splits)

function parse_stream :: "byte list \<Rightarrow> chunk list option" where
  "parse_stream bs =
     (if bs = [] then Some []
      else case parse_chunk bs of
        None \<Rightarrow> None
      | Some (c, rest) \<Rightarrow> map_option (Cons c) (parse_stream rest))"
  by pat_completeness auto
termination
  by (relation "measure length") (auto dest: parse_chunk_shorter)

declare parse_stream.simps [simp del]

section \<open>Round trip\<close>

fun chunk_wf :: "chunk \<Rightarrow> bool" where
  "chunk_wf (ty, items, raw) \<longleftrightarrow>
     12 * length items < 2 ^ 16 \<and> 16 + 12 * length items + length raw < 2 ^ 32"

fun bytes_of :: "chunk \<Rightarrow> byte list" where
  "bytes_of (ty, items, raw) = chunk_bytes ty items raw"

lemma length_item_record [simp]: "length (item_record item) = 12"
  by (simp add: item_record_def)

lemma length_chunk_header [simp]: "length (chunk_header ty n r) = 16"
  by (simp add: chunk_header_def)

lemma length_items: "length (concat (map item_record items)) = 12 * length items"
  by (induction items) simp_all

lemma parse_items_records:
  "parse_items (length items) (concat (map item_record items) @ rest) = Some (items, rest)"
proof (induction items)
  case Nil
  then show ?case by simp
next
  case (Cons item items)
  have "get_be32 (item_record item @ q) = 12" "get_be16 (drop 4 (item_record item @ q)) = zi_type item"
    "get_be32 (drop 8 (item_record item @ q)) = zi_value item" for q
    by (simp_all add: item_record_def)
  with Cons show ?case by simp
qed

lemma unat_small:
  "n < 2 ^ 32 \<Longrightarrow> unat (of_nat n :: u32) = n" "n < 2 ^ 16 \<Longrightarrow> unat (of_nat n :: u16) = n"
  by (simp_all add: unat_of_nat take_bit_nat_eq_self)

lemma parse_chunk_bytes:
  assumes "chunk_wf c"
  shows "parse_chunk (bytes_of c @ rest) = Some (c, rest)"
proof (cases c)
  case (fields ty items raw)
  define n where "n = length items"
  have wf: "12 * n < 2 ^ 16" "16 + 12 * n + length raw < 2 ^ 32"
    using assms by (simp_all add: fields n_def)
  have small: "unat (of_nat (16 + n * 12 + length raw) :: u32) = 16 + 12 * n + length raw"
    "unat (of_nat n :: u32) = n" "unat (of_nat (n * 12) :: u16) = 12 * n"
    using wf unat_small(1) [of "16 + n * 12 + length raw"] unat_small(1) [of n] unat_small(2) [of "n * 12"]
    by simp_all
  define h where "h = chunk_header ty n (length raw)"
  have head: "length h = 16" "get_be32 (h @ q) = of_nat (16 + n * 12 + length raw)"
    "get_be32 (drop 4 (h @ q)) = ty" "get_be32 (drop 8 (h @ q)) = of_nat n"
    "get_be16 (drop 12 (h @ q)) = of_nat (n * 12)" "get_be16 (drop 14 (h @ q)) = ZJ_SIGNATURE" for q
    by (simp_all add: h_def chunk_header_def)
  define q where "q = concat (map item_record items) @ raw @ rest"
  have b: "bytes_of c @ rest = h @ q"
    by (simp add: fields chunk_bytes_def h_def n_def q_def)
  have q: "length q = 12 * n + length raw + length rest" "parse_items n q = Some (items, raw @ rest)"
    "drop (12 * n + length raw) q = rest"
    by (simp_all add: q_def length_items n_def parse_items_records)
  have "drop 16 (h @ q) = q" using head(1) by simp
  moreover have "drop (16 + 12 * n + length raw) (h @ q) = rest" using head(1) q(3) by simp
  ultimately show ?thesis
    unfolding b parse_chunk_def Let_def head(2,4) small
    using q(1,2) by (simp only: head small) (simp add: head(1) fields)
qed

lemma parse_stream_chunks:
  "\<forall>c \<in> set cs. chunk_wf c \<Longrightarrow> parse_stream (concat (map bytes_of cs)) = Some cs"
proof (induction cs)
  case Nil
  then show ?case by (simp add: parse_stream.simps)
next
  case (Cons c cs)
  have ne: "bytes_of c \<noteq> []"
    by (cases c) (simp add: chunk_bytes_def chunk_header_def put_be32_def)
  have "parse_chunk (bytes_of c @ concat (map bytes_of cs)) = Some (c, concat (map bytes_of cs))"
    using Cons.prems by (simp add: parse_chunk_bytes)
  with Cons ne show ?case by (subst parse_stream.simps) simp
qed

text \<open>
  C21. A chunk that was written is read back as it was given. When
  \<^verbatim>\<open>write_chunk\<close> reports success, the file has grown by bytes from which a reader gets
  the same type, the same items and the same payload, whatever follows them; when it reports
  failure, the file has grown by a proper part of those bytes only.
\<close>

theorem chunk_round_trip:
  assumes "chunk_wf (ty, items, raw)" "write_chunk ty items raw fp = (ok, fp')"
  shows "\<exists>bytes. file_data fp' = file_data fp @ bytes
    \<and> (ok \<longrightarrow> (\<forall>rest. parse_chunk (bytes @ rest) = Some ((ty, items, raw), rest)))
    \<and> (\<not> ok \<longrightarrow> (\<exists>more. more \<noteq> [] \<and> parse_chunk (bytes @ more) = Some ((ty, items, raw), [])))"
proof -
  have whole: "bytes_of (ty, items, raw) = chunk_bytes ty items raw" by simp
  from write_chunk_emits [of ty items raw] assms(2) obtain k
    where k: "k \<le> length (chunk_bytes ty items raw)" "file_data fp' = file_data fp @ take k (chunk_bytes ty items raw)"
      "ok \<longleftrightarrow> k = length (chunk_bytes ty items raw)"
    unfolding appends_def by blast
  note parse = parse_chunk_bytes [OF assms(1), unfolded whole]
  have good: "ok \<longrightarrow> (\<forall>rest. parse_chunk (take k (chunk_bytes ty items raw) @ rest) = Some ((ty, items, raw), rest))"
    using k(3) parse by simp
  have bad: "\<not> ok \<longrightarrow> (\<exists>more. more \<noteq> []
      \<and> parse_chunk (take k (chunk_bytes ty items raw) @ more) = Some ((ty, items, raw), []))"
    using k parse [of "[]"] by (intro impI exI [of _ "drop k (chunk_bytes ty items raw)"]) simp
  show ?thesis using k(2) good bad by blast
qed

theorem chunk_round_trip_witness:
  "\<exists>bytes. file_data (snd (write_chunk ZJT_START_DOC [\<lparr>zi_type = 7, zi_value = 258\<rparr>] [1, 2]
      \<lparr>file_data = [9], file_quota = [16, 5]\<rparr>)) = [9] @ bytes
    \<and> (\<exists>more. parse_chunk (bytes @ more) = Some ((ZJT_START_DOC, [\<lparr>zi_type = 7, zi_value = 258\<rparr>], [1, 2]), []))"
proof -
  define fp where "fp = \<lparr>file_data = [9], file_quota = [16, 5]\<rparr>"
  obtain ok fp' where w: "write_chunk ZJT_START_DOC [\<lparr>zi_type = 7, zi_value = 258\<rparr>] [1, 2] fp = (ok, fp')"
    by (metis surj_pair)
  have ok: "\<not> ok" using w by (auto simp: write_chunk_def fwrite_def fp_def split: if_splits)
  from chunk_round_trip [OF _ w] ok w show ?thesis by (auto simp: fp_def)
qed

end
