(* ===== verification/Print_Job.thy ===== *)
theory Print_Job
  imports Zj_Chunk
begin

text \<open>
  The print filter before the first byte is written: the job options
  (\<^verbatim>\<open>options_read\<close>), the page header as the raster library hands it out, the paper
  table and \<^verbatim>\<open>page_layout\<close>, the halftone tables and \<^verbatim>\<open>halftone_row\<close>.

  The CUPS option list and the PPD are parameters: \<open>get_option\<close> is
  \<^verbatim>\<open>cupsGetOption\<close> on the parsed options, and a PPD is the function from a keyword to
  the default choice \<^verbatim>\<open>ppdFindOption\<close> finds (\<open>None\<close>: no such option).
\<close>

unbundle bit_operations_syntax

section \<open>Job options\<close>

record job_options =
  j_density :: int
  j_dpi1200 :: bool
  j_negative :: bool
  j_rotate180 :: bool
  j_manual_duplex :: bool
  j_tray :: int

type_synonym ppd = "string \<Rightarrow> string option"

definition opt_get :: "(string \<Rightarrow> string option) \<Rightarrow> ppd option \<Rightarrow> string \<Rightarrow> string option" where
  "opt_get get_option ppd keyword =
     (case get_option keyword of
        Some v \<Rightarrow> Some v
      | None \<Rightarrow>
          (case ppd of
             None \<Rightarrow> None
           | Some find_option \<Rightarrow>
               (case find_option keyword of
                  Some defchoice \<Rightarrow> (if defchoice \<noteq> [] then Some defchoice else None)
                | None \<Rightarrow> None)))"

definition opt_bool :: "(string \<Rightarrow> string option) \<Rightarrow> ppd option \<Rightarrow> string \<Rightarrow> bool" where
  "opt_bool get_option ppd keyword =
     (case opt_get get_option ppd keyword of
        None \<Rightarrow> False
      | Some v \<Rightarrow> same_nocase v ''true'' \<or> same_nocase v ''on'' \<or> same_nocase v ''yes''
          \<or> same_nocase v ''1'')"

definition isdigit :: "char \<Rightarrow> bool" where
  "isdigit c \<longleftrightarrow> of_char c \<in> {48..57::nat}"

text \<open>\<^verbatim>\<open>strtol (s, NULL, 10)\<close> on a string that starts with a digit: the value of its
  leading digits, saturated at \<^verbatim>\<open>LONG_MAX\<close>.\<close>

definition strtol_digits :: "string \<Rightarrow> int" where
  "strtol_digits s =
     min (2 ^ 63 - 1) (fold (\<lambda>c n. n * 10 + (of_char c - 48)) (takeWhile isdigit s) 0)"

definition options_read :: "(string \<Rightarrow> string option) \<Rightarrow> ppd option \<Rightarrow> job_options" where
  "options_read get_option ppd =
     (let get = opt_get get_option ppd; flag = opt_bool get_option ppd;
          density = (case get ''Density'' of
                       Some (c # cs) \<Rightarrow>
                         (if isdigit c then (let d = strtol_digits (c # cs) in if 4 < d then 4 else d)
                          else 2)
                     | _ \<Rightarrow> 2);
          density = (if flag ''TonerMode'' then 0 else density)
      in \<lparr>j_density = density, j_dpi1200 = flag ''DPI1200'', j_negative = flag ''NegativePrint'',
          j_rotate180 = flag ''ImageRotation'', j_manual_duplex = flag ''ManualDuplex'',
          j_tray = (case get ''InputSlot'' of
                      None \<Rightarrow> 0
                    | Some v \<Rightarrow>
                        if same_nocase v ''ManualFeed'' then 1
                        else if same_nocase v ''AutoFeed'' then 2 else 0)\<rparr>)"

section \<open>Page headers\<close>

text \<open>The fields of \<^verbatim>\<open>cups_page_header2_t\<close> the filter reads.\<close>

record page_header =
  cupsWidth :: u32
  cupsHeight :: u32
  cupsBitsPerPixel :: u32
  cupsBytesPerLine :: u32
  cupsColorSpace :: u32
  cupsMediaType :: u32
  NumCopies :: u32
  PageSize0 :: u32
  PageSize1 :: u32
  HWResolution0 :: u32
  HWResolution1 :: u32

definition PT_MAX_DOTS :: u32 where "PT_MAX_DOTS = 32768"
definition CUPS_CSPACE_W :: u32 where "CUPS_CSPACE_W = 0"
definition CUPS_CSPACE_SW :: u32 where "CUPS_CSPACE_SW = 18"

text \<open>The two checks of \<^verbatim>\<open>main\<close> on a header.\<close>

definition header_supported :: "page_header \<Rightarrow> bool" where
  "header_supported hdr \<longleftrightarrow>
     \<not> (cupsBitsPerPixel hdr \<noteq> 8 \<or> cupsWidth hdr = 0 \<or> cupsHeight hdr = 0
        \<or> PT_MAX_DOTS < cupsWidth hdr \<or> PT_MAX_DOTS < cupsHeight hdr
        \<or> cupsBytesPerLine hdr < cupsWidth hdr \<or> PT_MAX_DOTS < cupsBytesPerLine hdr)"

definition colour_supported :: "page_header \<Rightarrow> bool" where
  "colour_supported hdr \<longleftrightarrow>
     \<not> (cupsColorSpace hdr \<noteq> CUPS_CSPACE_W \<and> cupsColorSpace hdr \<noteq> CUPS_CSPACE_SW)"

section \<open>Paper\<close>

record paper_entry =
  width_pt :: u32
  height_pt :: u32
  video_x :: u32
  video_y :: u32
  dmpaper :: u32
  paper_name :: string

definition paper :: "u32 \<Rightarrow> u32 \<Rightarrow> u32 \<Rightarrow> u32 \<Rightarrow> u32 \<Rightarrow> string \<Rightarrow> paper_entry" where
  "paper w h x y d n =
     \<lparr>width_pt = w, height_pt = h, video_x = x, video_y = y, dmpaper = d, paper_name = n\<rparr>"

definition paper_table :: "paper_entry list" where
  "paper_table =
    [paper 420 595 3264 4736 11 ''A5'',
     paper 595 842 4736 6784 9 ''A4'',
     paper 612 792 4864 6368 1 ''Letter'',
     paper 612 1008 4864 8192 5 ''Legal'',
     paper 516 729 4064 5856 13 ''B5'',
     paper 279 540 2112 4288 37 ''EnvMonarch'',
     paper 312 624 2368 4992 27 ''EnvDL'',
     paper 459 649 3616 5184 28 ''EnvC5'',
     paper 297 684 2240 5472 20 ''Com10Envelope'',
     paper 283 420 2144 3264 43 ''Postcard'',
     paper 524 737 4160 5920 263 ''16K'',
     paper 553 765 4384 6144 264 ''Big16K'',
     paper 369 524 2848 4160 266 ''32K'',
     paper 383 553 2976 4384 260 ''Big32K'',
     paper 298 420 2272 3264 70 ''A6'',
     paper 499 709 3936 5696 34 ''ISOB5'',
     paper 522 756 4128 6080 7 ''Executive'',
     paper 612 936 4864 7584 14 ''Folio'',
     paper 612 972 4864 7872 269 ''Oficio'',
     paper 396 612 3072 4864 6 ''Statement'',
     paper 323 459 2464 3616 31 ''EnvC6'',
     paper 340 652 2624 5216 270 ''ZL'',
     paper 354 499 2720 3936 271 ''B6'']"

definition PT_A5_ROT_WIDTH_PT :: u32 where "PT_A5_ROT_WIDTH_PT = 421"
definition PT_A5_ROT_HEIGHT_PT :: u32 where "PT_A5_ROT_HEIGHT_PT = 595"
definition PT_A5_WIDTH_PT :: u32 where "PT_A5_WIDTH_PT = 420"
definition PT_A5_HEIGHT_PT :: u32 where "PT_A5_HEIGHT_PT = 595"
definition ZJ_DMPAPER_A5_ROTATED :: u32 where "ZJ_DMPAPER_A5_ROTATED = 61"

definition paper_find :: "u32 \<Rightarrow> u32 \<Rightarrow> paper_entry option" where
  "paper_find w h = find (\<lambda>p. width_pt p = w \<and> height_pt p = h) paper_table"

record page_layout_t =
  l_dmpaper :: u32
  l_video_x :: u32
  l_video_y :: u32
  l_depth :: u32
  l_rotate90 :: bool

definition page_layout :: "page_header \<Rightarrow> job_options \<Rightarrow> page_layout_t" where
  "page_layout hdr opt =
     (let depth = (if j_dpi1200 opt then 2 else 1);
          found = paper_find (PageSize0 hdr) (PageSize1 hdr);
          (found, rotate90) =
            (if found = None \<and> PageSize0 hdr = PT_A5_ROT_WIDTH_PT
                \<and> PageSize1 hdr = PT_A5_ROT_HEIGHT_PT
             then (let a5 = paper_find PT_A5_WIDTH_PT PT_A5_HEIGHT_PT in (a5, a5 \<noteq> None))
             else (found, False))
      in case found of
           Some p \<Rightarrow>
             \<lparr>l_dmpaper = (if rotate90 then ZJ_DMPAPER_A5_ROTATED else dmpaper p),
              l_video_x = (if rotate90 then video_y p else video_x p),
              l_video_y = (if rotate90 then video_x p else video_y p),
              l_depth = depth, l_rotate90 = rotate90\<rparr>
         | None \<Rightarrow>
             \<lparr>l_dmpaper = 0,
              l_video_x = (cupsWidth hdr + 31) AND NOT 31,
              l_video_y = (cupsHeight hdr + 7) AND NOT 7,
              l_depth = depth, l_rotate90 = rotate90\<rparr>)"

section \<open>Halftoning\<close>

definition ht_table_600 :: "byte list" where
  "ht_table_600 =
    [0x06, 0x52, 0xe9, 0xfe, 0xfb, 0xe2, 0x46, 0x05, 0x07, 0x55, 0xeb, 0xff, 0xfc, 0xe4, 0x49, 0x05,
     0x37, 0x79, 0xa5, 0xda, 0xd3, 0x98, 0x72, 0x31, 0x39, 0x7a, 0xa7, 0xdc, 0xd5, 0x9c, 0x73, 0x2f,
     0xc7, 0x86, 0x69, 0x29, 0x1b, 0x5f, 0x7e, 0xc0, 0xca, 0x88, 0x6b, 0x2d, 0x1f, 0x61, 0x7b, 0xbe,
     0xf3, 0xb4, 0x12, 0x03, 0x01, 0x0d, 0xac, 0xee, 0xf4, 0xb6, 0x13, 0x03, 0x01, 0x0c, 0xaa, 0xed,
     0xf8, 0xde, 0x41, 0x04, 0x0a, 0x4f, 0xe8, 0xfd, 0xfa, 0xe0, 0x43, 0x04, 0x09, 0x4c, 0xe6, 0xfc,
     0xd0, 0x91, 0x6d, 0x35, 0x3e, 0x77, 0xa2, 0xd8, 0xd2, 0x95, 0x70, 0x33, 0x3b, 0x75, 0x9f, 0xd7,
     0x16, 0x58, 0x83, 0xc5, 0xce, 0x8e, 0x66, 0x26, 0x18, 0x5b, 0x80, 0xc3, 0xcc, 0x8b, 0x64, 0x22,
     0x02, 0x10, 0xb1, 0xf1, 0xf7, 0xbb, 0x15, 0x02, 0x01, 0x0f, 0xaf, 0xf0, 0xf5, 0xb9, 0x14, 0x02,
     0x07, 0x55, 0xeb, 0xff, 0xfc, 0xe4, 0x49, 0x05, 0x06, 0x52, 0xe9, 0xfe, 0xfb, 0xe2, 0x46, 0x05,
     0x39, 0x7a, 0xa7, 0xdc, 0xd5, 0x9c, 0x73, 0x2f, 0x37, 0x79, 0xa5, 0xda, 0xd3, 0x98, 0x72, 0x31,
     0xca, 0x88, 0x6b, 0x2d, 0x1f, 0x61, 0x7b, 0xbe, 0xc7, 0x86, 0x69, 0x29, 0x1b, 0x5f, 0x7e, 0xc0,
     0xf4, 0xb6, 0x13, 0x03, 0x01, 0x0c, 0xaa, 0xed, 0xf3, 0xb4, 0x12, 0x03, 0x01, 0x0d, 0xac, 0xee,
     0xfa, 0xe0, 0x43, 0x04, 0x09, 0x4c, 0xe6, 0xfc, 0xf8, 0xde, 0x41, 0x04, 0x0a, 0x4f, 0xe8, 0xfd,
     0xd2, 0x95, 0x70, 0x33, 0x3b, 0x75, 0x9f, 0xd7, 0xd0, 0x91, 0x6d, 0x35, 0x3e, 0x77, 0xa2, 0xd8,
     0x18, 0x5b, 0x80, 0xc3, 0xcc, 0x8b, 0x64, 0x22, 0x16, 0x58, 0x83, 0xc5, 0xce, 0x8e, 0x66, 0x26,
     0x01, 0x0f, 0xaf, 0xf0, 0xf5, 0xb9, 0x14, 0x02, 0x02, 0x10, 0xb1, 0xf1, 0xf7, 0xbb, 0x15, 0x02]"

definition ht_level_to_code :: "int \<Rightarrow> u32" where
  "ht_level_to_code level =
     (if level \<le> 0 then 0 else if level < 24 then 1 else if level < 64 then 2 else 3)"

text \<open>The code of one pixel, one or two bits.\<close>

definition dot_code :: "u32 \<Rightarrow> bool \<Rightarrow> byte \<Rightarrow> byte \<Rightarrow> u32" where
  "dot_code depth negative thr g =
     (if depth = 1 then
        (if negative then (if thr \<le> g then 1 else 0) else (if g < thr then 1 else 0))
      else
        (let level = (if g = 0 then 0xff else 0xff - uint g - uint thr);
             code = ht_level_to_code level
         in if negative then 3 - code else code))"

text \<open>The loop over the pixels of a row: the bytes it stores, the bits of the current byte in
  \<open>acc\<close>, \<open>shift\<close> of them still free.\<close>

fun halftone_loop ::
  "byte list \<Rightarrow> u32 \<Rightarrow> bool \<Rightarrow> nat \<Rightarrow> byte list \<Rightarrow> u32 \<Rightarrow> nat \<Rightarrow> byte list" where
  "halftone_loop thr_row depth negative x [] acc shift = []"
| "halftone_loop thr_row depth negative x (g # gray) acc shift =
     (let code = dot_code depth negative (thr_row ! (x mod 16)) g;
          shift = shift - unat depth;
          acc = acc OR push_bit shift code
      in if shift = 0 then ucast acc # halftone_loop thr_row depth negative (x + 1) gray 0 8
         else halftone_loop thr_row depth negative (x + 1) gray acc shift)"

definition halftone_row :: "byte list \<Rightarrow> nat \<Rightarrow> nat \<Rightarrow> u32 \<Rightarrow> bool \<Rightarrow> byte list" where
  "halftone_row gray width y depth negative =
     halftone_loop (drop (y mod 16 * 16) ht_table_600) depth negative 0 (take width gray) 0 8"

end
