(* ===== verification/Print_Page.thy ===== *)
theory Print_Page
  imports Print_Job
begin

text \<open>
  One page of the print filter: the growable buffer the compressor fills, the page written
  out as chunks (\<^verbatim>\<open>emit_page\<close>, \<^verbatim>\<open>finish_page\<close>), and a raster page read,
  turned, halftoned (\<^verbatim>\<open>render_page\<close>), or blank (\<^verbatim>\<open>render_blank_page\<close>).

  \<open>print_env\<close> holds what is not in this repository: the CUPS raster reader, jbig-kit, the
  allocator, the signal flag and the standard streams' ways to fail, over a state \<open>'r\<close>.
  \<open>ras_pixels n\<close> is \<^verbatim>\<open>cupsRasterReadPixels\<close> for \<open>n\<close> bytes (\<open>None\<close>: it returned 0);
  \<open>heap n\<close> is an allocation, with whatever the block holds; \<open>tmp_file\<close> is
  \<^verbatim>\<open>tmpfile\<close>; \<open>jbig w h bitmap\<close> is the
  sequence of pieces the encoder hands to its callback, with the fixed options of the source.
\<close>

unbundle bit_operations_syntax

record 'r print_env =
  ras_header :: "'r \<Rightarrow> page_header option \<times> 'r"
  ras_pixels :: "nat \<Rightarrow> 'r \<Rightarrow> byte list option \<times> 'r"
  job_cancelled :: "'r \<Rightarrow> bool \<times> 'r"
  heap :: "nat \<Rightarrow> 'r \<Rightarrow> byte list option \<times> 'r"
  jbig :: "u32 \<Rightarrow> u32 \<Rightarrow> byte list \<Rightarrow> byte list list"
  io_ok :: "'r \<Rightarrow> bool \<times> 'r"
  tmp_file :: "'r \<Rightarrow> c_file option \<times> 'r"

section \<open>The growable buffer\<close>

record buf =
  buf_data :: "byte list"
  buf_cap :: nat
  buf_failed :: bool

definition empty_buf :: buf where
  "empty_buf = \<lparr>buf_data = [], buf_cap = 0, buf_failed = False\<rparr>"

function double_up :: "nat \<Rightarrow> nat \<Rightarrow> nat" where
  "double_up cap need = (if cap < need \<and> 0 < cap then double_up (cap * 2) need else cap)"
  by pat_completeness auto
termination
  by (relation "measure (\<lambda>(cap, need). need - cap)") auto

declare double_up.simps [simp del]

definition buf_append :: "'r print_env \<Rightarrow> buf \<Rightarrow> byte list \<Rightarrow> 'r \<Rightarrow> buf \<times> 'r" where
  "buf_append E b src r =
     (if buf_failed b then (b, r)
      else
        let need = length (buf_data b) + length src in
        if buf_cap b < need then
          (let cap = double_up (if buf_cap b \<noteq> 0 then buf_cap b else 65536) need in
           case heap E cap r of
             (None, r) \<Rightarrow> (b\<lparr>buf_failed := True\<rparr>, r)
           | (Some block, r) \<Rightarrow> (b\<lparr>buf_cap := cap, buf_data := buf_data b @ src\<rparr>, r))
        else (b\<lparr>buf_data := buf_data b @ src\<rparr>, r))"

section \<open>Compression\<close>

definition JBIG_BIH_LEN :: nat where "JBIG_BIH_LEN = 20"

fun jbig_collect :: "'r print_env \<Rightarrow> byte list list \<Rightarrow> buf \<Rightarrow> 'r \<Rightarrow> buf \<times> 'r" where
  "jbig_collect E [] b r = (b, r)"
| "jbig_collect E (piece # rest) b r =
     (case buf_append E b piece r of (b, r) \<Rightarrow> jbig_collect E rest b r)"

definition jbig_compress ::
  "'r print_env \<Rightarrow> buf \<Rightarrow> byte list \<Rightarrow> u32 \<Rightarrow> u32 \<Rightarrow> 'r \<Rightarrow> bool \<times> buf \<times> 'r" where
  "jbig_compress E bie bitmap width height r =
     (case jbig_collect E (jbig E width height bitmap) bie r of (bie, r) \<Rightarrow>
        (\<not> (buf_failed bie \<or> length (buf_data bie) < JBIG_BIH_LEN), bie, r))"

section \<open>Emitting a page\<close>

definition ZJ_BID_MAX :: nat where "ZJ_BID_MAX = 0x10000"

definition item :: "u16 \<Rightarrow> u32 \<Rightarrow> zj_item" where
  "item ty v = \<lparr>zi_type = ty, zi_value = v\<rparr>"

text \<open>\<^verbatim>\<open>(uint32_t)((uint64_t)points * 600u / 72u)\<close>.\<close>

definition dots_600 :: "u32 \<Rightarrow> u32" where
  "dots_600 points = of_nat (unat points * 600 div 72)"

definition page_items :: "page_header \<Rightarrow> page_layout_t \<Rightarrow> job_options \<Rightarrow> zj_item list" where
  "page_items hdr lay opt =
     (let media = (if cupsMediaType hdr \<noteq> 0 then cupsMediaType hdr else 1);
          tray = (if media \<noteq> 1 then 1 else word_of_int (j_tray opt))
      in [item ZJI_DMPAPER (l_dmpaper lay)]
         @ (if l_dmpaper lay = 0
            then [item ZJI_CUSTOM_UNIT 0, item ZJI_CUSTOM_WIDTH (dots_600 (PageSize0 hdr)),
                  item ZJI_CUSTOM_HEIGHT (dots_600 (PageSize1 hdr))]
            else [])
         @ [item ZJI_DMCOPIES (if NumCopies hdr \<noteq> 0 then NumCopies hdr else 1),
            item ZJI_DMDEFAULTSOURCE tray,
            item ZJI_DMMEDIATYPE media,
            item ZJI_NBIE 1,
            item ZJI_RESOLUTION_X (HWResolution0 hdr),
            item ZJI_RESOLUTION_Y (HWResolution1 hdr),
            item ZJI_RET 0,
            item ZJI_RASTER_X (l_video_x lay * l_depth lay),
            item ZJI_RASTER_Y (l_video_y lay),
            item ZJI_VIDEO_BPP (l_depth lay),
            item ZJI_VIDEO_X (l_video_x lay),
            item ZJI_VIDEO_Y (l_video_y lay),
            item ZJI_PANTUM_DENSITY (word_of_int (j_density opt))])"

text \<open>The loop over the data chunks; \<open>data\<close> is what lies behind \<^verbatim>\<open>off\<close>.\<close>

function emit_bids :: "byte list \<Rightarrow> c_file \<Rightarrow> bool \<times> c_file" where
  "emit_bids data fp =
     (if data = [] then (True, fp)
      else
        let n_bytes = (if ZJ_BID_MAX < length data then ZJ_BID_MAX else length data) in
        case write_chunk ZJT_JBIG_BID [] (take n_bytes data) fp of (ok, fp) \<Rightarrow>
          if \<not> ok then (False, fp) else emit_bids (drop ZJ_BID_MAX data) fp)"
  by pat_completeness auto
termination
  by (relation "measure (\<lambda>(data, fp). length data)") (auto simp: ZJ_BID_MAX_def)

declare emit_bids.simps [simp del]

definition emit_page ::
  "page_header \<Rightarrow> page_layout_t \<Rightarrow> job_options \<Rightarrow> byte list \<Rightarrow> c_file \<Rightarrow> bool \<times> c_file" where
  "emit_page hdr lay opt bie fp =
     (case write_chunk ZJT_START_PAGE (page_items hdr lay opt) [] fp of (ok, fp) \<Rightarrow>
      if \<not> ok then (False, fp)
      else case write_chunk ZJT_JBIG_BIH [] (take JBIG_BIH_LEN bie) fp of (ok, fp) \<Rightarrow>
      if \<not> ok then (False, fp)
      else case emit_bids (drop JBIG_BIH_LEN bie) fp of (ok, fp) \<Rightarrow>
      if \<not> ok then (False, fp)
      else case write_chunk ZJT_END_JBIG [] [] fp of (ok, fp) \<Rightarrow>
      if \<not> ok then (False, fp)
      else write_chunk ZJT_END_PAGE [] [] fp)"

definition finish_page ::
  "'r print_env \<Rightarrow> page_header \<Rightarrow> page_layout_t \<Rightarrow> job_options \<Rightarrow> byte list \<Rightarrow> u32 \<Rightarrow> u32
   \<Rightarrow> c_file \<Rightarrow> 'r \<Rightarrow> bool \<times> c_file \<times> 'r" where
  "finish_page E hdr lay opt bitmap bmp_w bmp_h fp r =
     (case jbig_compress E empty_buf bitmap (bmp_w * l_depth lay) bmp_h r of (ok, bie, r) \<Rightarrow>
        if ok then (case emit_page hdr lay opt (buf_data bie) fp of (ok, fp) \<Rightarrow> (ok, fp, r))
        else (False, fp, r))"

section \<open>Rendering\<close>

text \<open>The swap loop of \<^verbatim>\<open>ImageRotation\<close>.\<close>

function swap_ends :: "nat \<Rightarrow> nat \<Rightarrow> byte list \<Rightarrow> byte list" where
  "swap_ends a b row =
     (if a < b then swap_ends (a + 1) (b - 1) (row[a := row ! b, b := row ! a]) else row)"
  by pat_completeness auto
termination
  by (relation "measure (\<lambda>(a, b, row). b - a)") auto

declare swap_ends.simps [simp del]

text \<open>The buffers of \<^verbatim>\<open>render_page\<close>.\<close>

record canvas =
  cv_row :: "byte list"
  cv_gray :: "byte list"
  cv_bitmap :: "byte list"

text \<open>The fixed sizes of one page: source geometry, bytes per bitmap row, row buffer, pixels
  taken from the raster.\<close>

record geometry =
  g_src_w :: u32
  g_src_h :: u32
  g_bpl :: nat
  g_rowlen :: nat
  g_copy_w :: nat

definition page_geometry :: "page_header \<Rightarrow> page_layout_t \<Rightarrow> geometry" where
  "page_geometry hdr lay =
     (let src_w = (if l_rotate90 lay then l_video_y lay else l_video_x lay);
          src_h = (if l_rotate90 lay then l_video_x lay else l_video_y lay);
          rowlen = (if src_w < l_video_x lay then l_video_x lay else src_w);
          rowlen = (if rowlen < cupsBytesPerLine hdr then cupsBytesPerLine hdr else rowlen)
      in \<lparr>g_src_w = src_w, g_src_h = src_h,
          g_bpl = unat (l_video_x lay) * unat (l_depth lay) div 8,
          g_rowlen = unat rowlen,
          g_copy_w = unat (if cupsWidth hdr < src_w then cupsWidth hdr else src_w)\<rparr>)"

text \<open>What happens to a row that has been read: the turn, and the halftone or the gray page.\<close>

definition place_row ::
  "page_layout_t \<Rightarrow> job_options \<Rightarrow> geometry \<Rightarrow> nat \<Rightarrow> canvas \<Rightarrow> canvas" where
  "place_row lay opt g y c =
     (let dst = (if j_rotate180 opt then unat (g_src_h g) - 1 - y else y);
          row = (if j_rotate180 opt then swap_ends 0 (unat (g_src_w g - 1)) (cv_row c)
                 else cv_row c);
          c = c\<lparr>cv_row := row\<rparr>
      in if l_rotate90 lay then
           c\<lparr>cv_gray := poke (cv_gray c) (dst * unat (g_src_w g)) (take (unat (g_src_w g)) row)\<rparr>
         else
           c\<lparr>cv_bitmap := poke (cv_bitmap c) (dst * g_bpl g)
               (halftone_row row (unat (l_video_x lay)) dst (l_depth lay) (j_negative opt))\<rparr>)"

text \<open>The rows of the page buffer; \<open>False\<close> is the jump to \<^verbatim>\<open>done\<close> on a short read.\<close>

fun render_rows ::
  "'r print_env \<Rightarrow> page_header \<Rightarrow> page_layout_t \<Rightarrow> job_options \<Rightarrow> geometry \<Rightarrow> nat list
   \<Rightarrow> canvas \<Rightarrow> 'r \<Rightarrow> bool \<times> canvas \<times> 'r" where
  "render_rows E hdr lay opt g [] c r = (True, c, r)"
| "render_rows E hdr lay opt g (y # ys) c r =
     (if y < unat (cupsHeight hdr) then
        (case ras_pixels E (unat (cupsBytesPerLine hdr)) r of
           (None, r) \<Rightarrow> (False, c, snd (job_cancelled E r))
         | (Some pixels, r) \<Rightarrow>
             let row = poke (cv_row c) 0 pixels;
                 row = (if g_copy_w g < g_rowlen g
                        then memset_at row (g_copy_w g) 0xff (g_rowlen g - g_copy_w g) else row)
             in render_rows E hdr lay opt g ys (place_row lay opt g y (c\<lparr>cv_row := row\<rparr>)) r)
      else
        let row = (if y = unat (cupsHeight hdr) then memset_at (cv_row c) 0 0xff (g_rowlen g)
                   else cv_row c)
        in render_rows E hdr lay opt g ys (place_row lay opt g y (c\<lparr>cv_row := row\<rparr>)) r)"

text \<open>The quarter turn: output row \<open>y\<close> is source column \<open>y\<close> read from the bottom up.\<close>

definition turn_row :: "page_layout_t \<Rightarrow> job_options \<Rightarrow> geometry \<Rightarrow> nat \<Rightarrow> canvas \<Rightarrow> canvas" where
  "turn_row lay opt g y c =
     (let row = fold (\<lambda>x row. row[x := cv_gray c ! ((unat (g_src_h g) - 1 - x) * unat (g_src_w g) + y)])
                  [0..<unat (l_video_x lay)] (cv_row c)
      in c\<lparr>cv_row := row,
           cv_bitmap := poke (cv_bitmap c) (y * g_bpl g)
             (halftone_row row (unat (l_video_x lay)) y (l_depth lay) (j_negative opt))\<rparr>)"

definition turn_page :: "page_layout_t \<Rightarrow> job_options \<Rightarrow> geometry \<Rightarrow> canvas \<Rightarrow> canvas" where
  "turn_page lay opt g c =
     (if l_rotate90 lay then fold (turn_row lay opt g) [0..<unat (l_video_y lay)] c else c)"

text \<open>Lines below the page buffer are read and dropped.\<close>

fun drain_rows :: "'r print_env \<Rightarrow> nat \<Rightarrow> nat \<Rightarrow> 'r \<Rightarrow> 'r" where
  "drain_rows E n 0 r = r"
| "drain_rows E n (Suc k) r =
     (case ras_pixels E n r of (None, r) \<Rightarrow> r | (Some pixels, r) \<Rightarrow> drain_rows E n k r)"

definition render_page ::
  "'r print_env \<Rightarrow> page_header \<Rightarrow> job_options \<Rightarrow> c_file \<Rightarrow> 'r \<Rightarrow> bool \<times> c_file \<times> 'r" where
  "render_page E hdr opt fp r =
     (let lay = page_layout hdr opt; g = page_geometry hdr lay in
      case heap E (g_bpl g * unat (l_video_y lay)) r of (bitmap, r) \<Rightarrow>
      case heap E (g_rowlen g) r of (row, r) \<Rightarrow>
      case (if l_rotate90 lay then heap E (unat (g_src_w g) * unat (g_src_h g)) r else (Some [], r)) of
        (gray, r) \<Rightarrow>
      if bitmap = None \<or> row = None \<or> gray = None then (False, fp, r)
      else
        let c = \<lparr>cv_row = memset_at (the row) 0 0xff (g_rowlen g), cv_gray = the gray,
                 cv_bitmap = the bitmap\<rparr>
        in case render_rows E hdr lay opt g [0..<unat (g_src_h g)] c r of (ok, c, r) \<Rightarrow>
           if \<not> ok then (False, fp, r)
           else
             let c = turn_page lay opt g c;
                 r = drain_rows E (unat (cupsBytesPerLine hdr))
                       (unat (cupsHeight hdr) - unat (g_src_h g)) r
             in finish_page E hdr lay opt (cv_bitmap c) (l_video_x lay) (l_video_y lay) fp r)"

definition render_blank_page ::
  "'r print_env \<Rightarrow> page_header \<Rightarrow> job_options \<Rightarrow> c_file \<Rightarrow> 'r \<Rightarrow> bool \<times> c_file \<times> 'r" where
  "render_blank_page E hdr opt fp r =
     (let lay = page_layout hdr opt;
          bmp_w = (if l_rotate90 lay then l_video_y lay else l_video_x lay);
          bmp_h = (if l_rotate90 lay then l_video_x lay else l_video_y lay);
          size = unat bmp_w * unat (l_depth lay) div 8 * unat bmp_h
      in case heap E size r of
           (None, r) \<Rightarrow> (False, fp, r)
         | (Some block, r) \<Rightarrow>
             finish_page E hdr lay opt (replicate size 0) bmp_w bmp_h fp r)"

end
