(* ===== verification/Print_Filter.thy ===== *)
theory Print_Filter
  imports Print_Page
begin

text \<open>
  The print filter as a whole: the spools of the manual duplex path and \<^verbatim>\<open>main\<close>. The
  page loop runs as long as the raster stream has pages, so it is a partial function. The log
  keeps the lines the scheduler acts on (\<^verbatim>\<open>PAGE:\<close> accounting and the
  \<^verbatim>\<open>MDuplex\<close> state); messages for humans are left out.
\<close>

unbundle bit_operations_syntax

section \<open>Spools\<close>

text \<open>\<open>sp_count\<close> of the source is the length of \<open>sp_slots\<close>; a slot is an offset and a
  length.\<close>

record spool =
  sp_file :: c_file
  sp_slots :: "(nat \<times> nat) list"
  sp_cap :: nat

definition no_spool :: spool where
  "no_spool = \<lparr>sp_file = empty_file, sp_slots = [], sp_cap = 0\<rparr>"

definition spool_open :: "'r print_env \<Rightarrow> 'r \<Rightarrow> bool \<times> spool \<times> 'r" where
  "spool_open E r =
     (case tmp_file E r of
        (None, r) \<Rightarrow> (False, no_spool, r)
      | (Some fp, r) \<Rightarrow> (True, no_spool\<lparr>sp_file := fp\<rparr>, r))"

text \<open>\<^verbatim>\<open>ftell\<close>: a spool is only ever appended to, so the position is its length.\<close>

definition ftell :: "'r print_env \<Rightarrow> c_file \<Rightarrow> 'r \<Rightarrow> nat option \<times> 'r" where
  "ftell E fp r =
     (case io_ok E r of (ok, r) \<Rightarrow> (if ok then Some (length (file_data fp)) else None, r))"

definition spool_mark :: "'r print_env \<Rightarrow> nat \<Rightarrow> spool \<Rightarrow> 'r \<Rightarrow> bool \<times> spool \<times> 'r" where
  "spool_mark E start sp r =
     (case ftell E (sp_file sp) r of
        (None, r) \<Rightarrow> (False, sp, r)
      | (Some end, r) \<Rightarrow>
          if length (sp_slots sp) = sp_cap sp then
            (let cap = (if sp_cap sp \<noteq> 0 then sp_cap sp * 2 else 16) in
             case heap E (cap * 16) r of
               (None, r) \<Rightarrow> (False, sp, r)
             | (Some block, r) \<Rightarrow>
                 (True, sp\<lparr>sp_cap := cap, sp_slots := sp_slots sp @ [(start, end - start)]\<rparr>, r))
          else (True, sp\<lparr>sp_slots := sp_slots sp @ [(start, end - start)]\<rparr>, r))"

text \<open>The copy loop: \<open>pos\<close> is the read position, \<open>left\<close> what is still to copy.\<close>

function copy_loop ::
  "'r print_env \<Rightarrow> byte list \<Rightarrow> nat \<Rightarrow> nat \<Rightarrow> c_file \<Rightarrow> 'r \<Rightarrow> bool \<times> c_file \<times> 'r" where
  "copy_loop E data pos left fp r =
     (if left = 0 then (True, fp, r)
      else
        let want = (if 65536 < left then 65536 else left);
            chunk = take want (drop pos data)
        in case io_ok E r of (ok, r) \<Rightarrow>
           if \<not> ok \<or> length chunk \<noteq> want then (False, fp, r)
           else case fwrite chunk fp of (ok, fp) \<Rightarrow>
             if \<not> ok then (False, fp, r)
             else copy_loop E data (pos + want) (left - want) fp r)"
  by pat_completeness auto
termination
  by (relation "measure (\<lambda>(E, data, pos, left, fp, r). left)") (auto split: if_splits)

declare copy_loop.simps [simp del]

definition spool_copy :: "'r print_env \<Rightarrow> spool \<Rightarrow> nat \<Rightarrow> c_file \<Rightarrow> 'r \<Rightarrow> bool \<times> c_file \<times> 'r" where
  "spool_copy E sp index fp r =
     (case sp_slots sp ! index of (off, len) \<Rightarrow>
      case io_ok E r of (ok, r) \<Rightarrow>
        if \<not> ok then (False, fp, r) else copy_loop E (file_data (sp_file sp)) off len fp r)"

section \<open>The job\<close>

datatype log_line = Log_Page u32 u32 | Log_MDuplex_Off | Log_MDuplex_On

record filter_state =
  fs_stdout :: c_file
  fs_fronts :: spool
  fs_backs :: spool
  fs_page :: u32
  fs_status :: int
  fs_log :: "log_line list"
  fs_last :: page_header

definition zero_header :: page_header where
  "zero_header = \<lparr>cupsWidth = 0, cupsHeight = 0, cupsBitsPerPixel = 0, cupsBytesPerLine = 0,
     cupsColorSpace = 0, cupsMediaType = 0, NumCopies = 0, PageSize0 = 0, PageSize1 = 0,
     HWResolution0 = 0, HWResolution1 = 0\<rparr>"

definition copies_of :: "page_header \<Rightarrow> u32" where
  "copies_of hdr = (if NumCopies hdr \<noteq> 0 then NumCopies hdr else 1)"

text \<open>The three writes in front of the first page.\<close>

definition write_prologue :: "c_file \<Rightarrow> bool \<times> c_file" where
  "write_prologue fp =
     (case fwrite (UEL @ ZJ_MAGIC) fp of (ok, fp) \<Rightarrow>
        if \<not> ok then (False, fp)
        else case write_chunk ZJT_PANTUM_PARAM [] pantum_param_blob fp of (ok, fp) \<Rightarrow>
          if \<not> ok then (False, fp)
          else write_chunk ZJT_START_DOC
                 [item ZJI_PAGECOUNT 0, item ZJI_DMCOLLATE 0, item ZJI_DMDUPLEX ZJ_DMDUPLEX_SIMPLEX] [] fp)"

text \<open>The end of the loop body for a page that goes to a spool.\<close>

definition spool_page ::
  "'r print_env \<Rightarrow> page_header \<Rightarrow> job_options \<Rightarrow> spool \<Rightarrow> 'r
   \<Rightarrow> (bool \<times> bool) \<times> spool \<times> 'r" where
  "spool_page E hdr opt sp r =
     (case ftell E (sp_file sp) r of
        (None, r) \<Rightarrow> ((False, False), sp, r)
      | (Some start, r) \<Rightarrow>
          (case render_page E hdr opt (sp_file sp) r of (ok, fp, r) \<Rightarrow>
             let sp = sp\<lparr>sp_file := fp\<rparr> in
             if \<not> ok then ((False, True), sp, r)
             else case spool_mark E start sp r of (ok, sp, r) \<Rightarrow> ((ok, False), sp, r)))"

text \<open>The body of the page loop; the first component says whether the loop goes on. A page
  that failed to render is no error once the job is cancelled.\<close>

definition page_turn ::
  "'r print_env \<Rightarrow> job_options \<Rightarrow> page_header \<Rightarrow> filter_state \<Rightarrow> 'r
   \<Rightarrow> bool \<times> filter_state \<times> 'r" where
  "page_turn E opt hdr s r =
     (if \<not> header_supported hdr \<or> \<not> colour_supported hdr then (False, s\<lparr>fs_status := 1\<rparr>, r)
      else
        let s = s\<lparr>fs_page := fs_page s + 1\<rparr>;
            s = s\<lparr>fs_log := fs_log s @ [Log_Page (fs_page s) (copies_of hdr)]\<rparr>;
            front = bit (fs_page s) 0;
            (((ok, rendering), s), r) =
              (if j_manual_duplex opt then
                 (case spool_page E hdr opt (if front then fs_fronts s else fs_backs s) r of
                    (res, sp, r) \<Rightarrow>
                      ((res, if front then s\<lparr>fs_fronts := sp\<rparr> else s\<lparr>fs_backs := sp\<rparr>), r))
               else
                 (case render_page E hdr opt (fs_stdout s) r of (ok, fp, r) \<Rightarrow>
                    (((ok, \<not> ok), s\<lparr>fs_stdout := fp\<rparr>), r)))
        in if ok then (True, s\<lparr>fs_last := hdr\<rparr>, r)
           else if rendering then
             (case job_cancelled E r of (c, r) \<Rightarrow> (False, if c then s else s\<lparr>fs_status := 1\<rparr>, r))
           else (False, s\<lparr>fs_status := 1\<rparr>, r))"

partial_function (option) page_loop ::
  "'r print_env \<Rightarrow> job_options \<Rightarrow> filter_state \<Rightarrow> 'r \<Rightarrow> (filter_state \<times> 'r) option" where
  "page_loop E opt s r =
     (case job_cancelled E r of (c, r1) \<Rightarrow>
        if c then Some (s, r1)
        else case ras_header E r1 of (h, r2) \<Rightarrow>
          (case h of
             None \<Rightarrow> Some (s, r2)
           | Some hdr \<Rightarrow>
               (case page_turn E opt hdr s r2 of (go, s1, r3) \<Rightarrow>
                  if go then page_loop E opt s1 r3 else Some (s1, r3))))"

section \<open>Manual duplex\<close>

text \<open>Copying the pages of a spool in the order of a list of slots, until one fails.\<close>

fun copy_pages ::
  "'r print_env \<Rightarrow> spool \<Rightarrow> nat list \<Rightarrow> c_file \<Rightarrow> 'r \<Rightarrow> bool \<times> c_file \<times> 'r" where
  "copy_pages E sp [] fp r = (True, fp, r)"
| "copy_pages E sp (i # is) fp r =
     (case spool_copy E sp i fp r of (ok, fp, r) \<Rightarrow>
        if ok then copy_pages E sp is fp r else (False, fp, r))"

definition fail_if :: "bool \<Rightarrow> filter_state \<Rightarrow> filter_state" where
  "fail_if b s = (if b then s\<lparr>fs_status := 1\<rparr> else s)"

definition blank_back :: "'r print_env \<Rightarrow> job_options \<Rightarrow> filter_state \<Rightarrow> 'r \<Rightarrow> filter_state \<times> 'r" where
  "blank_back E opt s r =
     (if length (sp_slots (fs_backs s)) < length (sp_slots (fs_fronts s)) then
        (let s = s\<lparr>fs_page := fs_page s + 1\<rparr>;
             s = s\<lparr>fs_log := fs_log s @ [Log_Page (fs_page s) 1]\<rparr>
         in case render_blank_page E (fs_last s) opt (fs_stdout s) r of (ok, fp, r) \<Rightarrow>
              (fail_if (\<not> ok) (s\<lparr>fs_stdout := fp\<rparr>), r))
      else (s, r))"

definition replay :: "'r print_env \<Rightarrow> job_options \<Rightarrow> filter_state \<Rightarrow> 'r \<Rightarrow> filter_state \<times> 'r" where
  "replay E opt s r =
     (case copy_pages E (fs_fronts s) [0..<length (sp_slots (fs_fronts s))] (fs_stdout s) r of
        (ok, fp, r) \<Rightarrow>
          let s = fail_if (\<not> ok) (s\<lparr>fs_stdout := fp\<rparr>) in
          if fs_status s \<noteq> 0 then (s, r)
          else
            let s = s\<lparr>fs_log := fs_log s @ [Log_MDuplex_On]\<rparr> in
            case write_chunk ZJT_2600N_PAUSE [] [] (fs_stdout s) of (ok, fp) \<Rightarrow>
            let s = fail_if (\<not> ok) (s\<lparr>fs_stdout := fp\<rparr>) in
            case blank_back E opt s r of (s, r) \<Rightarrow>
              if fs_status s \<noteq> 0 then (s, r)
              else case copy_pages E (fs_backs s) (rev [0..<length (sp_slots (fs_backs s))])
                          (fs_stdout s) r of
                (ok, fp, r) \<Rightarrow> (fail_if (\<not> ok) (s\<lparr>fs_stdout := fp\<rparr>), r))"

section \<open>Main\<close>

definition write_trailer :: "c_file \<Rightarrow> bool \<times> c_file" where
  "write_trailer fp =
     (case write_chunk ZJT_END_DOC [] [] fp of (ok, fp) \<Rightarrow>
        if ok then fwrite UEL fp else (False, fp))"

text \<open>Everything behind the page loop.\<close>

definition finish_job :: "'r print_env \<Rightarrow> job_options \<Rightarrow> filter_state \<Rightarrow> 'r \<Rightarrow> filter_state \<times> 'r" where
  "finish_job E opt s r =
     (case (if fs_status s = 0 then job_cancelled E r else (True, r)) of (c, r) \<Rightarrow>
      let s = fail_if (\<not> c \<and> fs_page s = 0) s in
      case (if fs_status s = 0 then job_cancelled E r else (True, r)) of (c, r) \<Rightarrow>
      case (if \<not> c \<and> j_manual_duplex opt then replay E opt s r else (s, r)) of (s, r) \<Rightarrow>
      case write_trailer (fs_stdout s) of (ok, fp) \<Rightarrow>
      let s = fail_if (\<not> ok) (s\<lparr>fs_stdout := fp\<rparr>) in
      case io_ok E r of (flushed, r) \<Rightarrow> (fail_if (\<not> flushed) s, r))"

definition start_state :: "c_file \<Rightarrow> filter_state" where
  "start_state fp = \<lparr>fs_stdout = fp, fs_fronts = no_spool, fs_backs = no_spool, fs_page = 0,
     fs_status = 0, fs_log = [Log_MDuplex_Off], fs_last = zero_header\<rparr>"

text \<open>The spools of a manual duplex job; the second is not opened when the first fails.\<close>

definition open_spools :: "'r print_env \<Rightarrow> job_options \<Rightarrow> 'r \<Rightarrow> bool \<times> spool \<times> spool \<times> 'r" where
  "open_spools E opt r =
     (if j_manual_duplex opt then
        (case spool_open E r of (ok, fronts, r) \<Rightarrow>
           if \<not> ok then (False, fronts, no_spool, r)
           else case spool_open E r of (ok, backs, r) \<Rightarrow> (ok, fronts, backs, r))
      else (True, no_spool, no_spool, r))"

text \<open>\<open>argc\<close> decides the usage error and whether a print file is opened; \<open>get_option\<close> and
  \<open>ppd\<close> are the parsed options and the PPD. The exit status is \<open>fs_status\<close>.\<close>

definition filter_main ::
  "'r print_env \<Rightarrow> int \<Rightarrow> (string \<Rightarrow> string option) \<Rightarrow> ppd option \<Rightarrow> c_file \<Rightarrow> 'r
   \<Rightarrow> (filter_state \<times> 'r) option" where
  "filter_main E argc get_option ppd fp r =
     (let s = start_state fp; fail = fail_if True in
      if argc < 6 \<or> 7 < argc then Some (fail (s\<lparr>fs_log := []\<rparr>), r)
      else case (if argc = 7 then io_ok E r else (True, r)) of (opened, r) \<Rightarrow>
        if \<not> opened then Some (fail (s\<lparr>fs_log := []\<rparr>), r)
        else
          let opt = options_read get_option ppd in
          case open_spools E opt r of (ok, fronts, backs, r) \<Rightarrow>
            let s = s\<lparr>fs_fronts := fronts, fs_backs := backs\<rparr> in
            if \<not> ok then Some (fail s, r)
            else case io_ok E r of (ras, r) \<Rightarrow>
              if \<not> ras then Some (fail s, r)
              else case write_prologue (fs_stdout s) of (ok, fp) \<Rightarrow>
                let s = s\<lparr>fs_stdout := fp\<rparr> in
                if \<not> ok then Some (fail s, r)
                else
                  (case page_loop E opt s r of
                     None \<Rightarrow> None
                   | Some (s, r) \<Rightarrow> Some (finish_job E opt s r)))"

end
