(* ===== verification/Emit_Laws.thy ===== *)
theory Emit_Laws
  imports Zj_Wire Print_Filter
begin

text \<open>
  What one page puts on the stream, as chunks, and the buffer between the compressor and the
  writer: it holds all the pieces in order or is marked as failed.
\<close>

section \<open>The buffer\<close>

lemma double_up_enough: "0 < cap \<Longrightarrow> need \<le> double_up cap need \<and> cap \<le> double_up cap need"
proof (induction cap need rule: double_up.induct)
  case (1 cap need)
  show ?case
  proof (cases "cap < need \<and> 0 < cap")
    case True
    with 1 have "need \<le> double_up (cap * 2) need \<and> cap * 2 \<le> double_up (cap * 2) need" by simp
    with True show ?thesis by (subst (1 2) double_up.simps) simp
  next
    case False
    with 1(2) show ?thesis by (subst (1 2) double_up.simps) auto
  qed
qed

definition buf_ok :: "buf \<Rightarrow> bool" where
  "buf_ok b \<longleftrightarrow> length (buf_data b) \<le> buf_cap b"

lemma buf_append_result:
  assumes "buf_append E b src r = (b', r')" "buf_ok b"
  shows "buf_ok b'" "buf_failed b \<Longrightarrow> b' = b" "\<not> buf_failed b' \<Longrightarrow> buf_data b' = buf_data b @ src"
    "buf_failed b' \<Longrightarrow> buf_data b' = buf_data b"
proof -
  let ?need = "length (buf_data b) + length src"
  have big: "?need \<le> double_up (if buf_cap b \<noteq> 0 then buf_cap b else 65536) ?need"
    using double_up_enough [of "if buf_cap b \<noteq> 0 then buf_cap b else 65536" ?need] by auto
  show "buf_ok b'" "buf_failed b \<Longrightarrow> b' = b" "\<not> buf_failed b' \<Longrightarrow> buf_data b' = buf_data b @ src"
    "buf_failed b' \<Longrightarrow> buf_data b' = buf_data b"
    using assms big by (auto simp: buf_append_def buf_ok_def Let_def split: if_splits option.splits prod.splits)
qed

lemma jbig_collect_result:
  "jbig_collect E ps b r = (b', r') \<Longrightarrow> buf_ok b \<Longrightarrow>
   buf_ok b' \<and> (buf_failed b \<longrightarrow> b' = b) \<and> (\<not> buf_failed b' \<longrightarrow> \<not> buf_failed b \<and> buf_data b' = buf_data b @ concat ps)"
proof (induction ps arbitrary: b r)
  case Nil
  then show ?case by simp
next
  case (Cons p ps)
  obtain b1 r1 where a: "buf_append E b p r = (b1, r1)" by (metis surj_pair)
  note one = buf_append_result [OF a Cons.prems(2)]
  with Cons.IH [of b1 r1] Cons.prems(1) a show ?case by (auto split: prod.splits)
qed

lemma jbig_compress_result:
  assumes "jbig_compress E empty_buf bitmap w h r = (ok, bie, r')"
  shows "ok \<Longrightarrow> buf_data bie = concat (jbig E w h bitmap) \<and> JBIG_BIH_LEN \<le> length (buf_data bie)"
proof -
  obtain b r1 where c: "jbig_collect E (jbig E w h bitmap) empty_buf r = (b, r1)" by (metis surj_pair)
  have "buf_ok empty_buf" "buf_data empty_buf = []" by (simp_all add: buf_ok_def empty_buf_def)
  with jbig_collect_result [OF c] assms c
  show "ok \<Longrightarrow> buf_data bie = concat (jbig E w h bitmap) \<and> JBIG_BIH_LEN \<le> length (buf_data bie)"
    by (auto simp: jbig_compress_def not_less)
qed

section \<open>A page as chunks\<close>

definition page_chunks :: "page_header \<Rightarrow> page_layout_t \<Rightarrow> job_options \<Rightarrow> byte list \<Rightarrow> chunk list" where
  "page_chunks hdr lay opt bie =
     [(ZJT_START_PAGE, page_items hdr lay opt, []), (ZJT_JBIG_BIH, [], take JBIG_BIH_LEN bie)]
     @ map (\<lambda>p. (ZJT_JBIG_BID, [], p)) (pieces ZJ_BID_MAX (drop JBIG_BIH_LEN bie))
     @ [(ZJT_END_JBIG, [], []), (ZJT_END_PAGE, [], [])]"

definition stream_bytes :: "chunk list \<Rightarrow> byte list" where
  "stream_bytes cs = concat (map bytes_of cs)"

lemma stream_bytes_simps [simp]:
  "stream_bytes [] = []" "stream_bytes (c # cs) = bytes_of c @ stream_bytes cs"
  "stream_bytes (cs @ ds) = stream_bytes cs @ stream_bytes ds"
  by (simp_all add: stream_bytes_def)

lemma page_items_count: "length (page_items hdr lay opt) \<le> 17"
  by (simp add: page_items_def Let_def)

lemma page_chunks_wf: "\<forall>c \<in> set (page_chunks hdr lay opt bie). chunk_wf c"
  using page_items_count [of hdr lay opt]
  by (auto simp: page_chunks_def JBIG_BIH_LEN_def dest!: pieces_bounds) (auto simp: ZJ_BID_MAX_def)

lemma emit_bids_emits:
  "emits (emit_bids data) (stream_bytes (map (\<lambda>p. (ZJT_JBIG_BID, [], p)) (pieces ZJ_BID_MAX data)))"
proof (induction "length data" arbitrary: data rule: less_induct)
  case less
  show ?case
  proof (cases "data = []")
    case True
    have "emit_bids [] = Pair True" by (simp add: fun_eq_iff emit_bids.simps)
    with True show ?thesis by (simp add: pieces.simps appends_nothing)
  next
    case False
    have pos: "0 < ZJ_BID_MAX" by (simp add: ZJ_BID_MAX_def)
    have "emits (emit_bids (drop ZJ_BID_MAX data))
        (stream_bytes (map (\<lambda>p. (ZJT_JBIG_BID, [], p)) (pieces ZJ_BID_MAX (drop ZJ_BID_MAX data))))"
      by (rule less) (use False pos in simp)
    note rest = stdio.both [OF write_chunk_emits [of ZJT_JBIG_BID "[]" "take ZJ_BID_MAX data"] this]
    have n: "take (if ZJ_BID_MAX < length data then ZJ_BID_MAX else length data) data = take ZJ_BID_MAX data"
      by simp
    have "emit_bids data = (\<lambda>s. case write_chunk ZJT_JBIG_BID [] (take ZJ_BID_MAX data) s of (ok, s) \<Rightarrow>
        if ok then emit_bids (drop ZJ_BID_MAX data) s else (False, s))"
      using False by (auto simp: fun_eq_iff emit_bids.simps [of data] Let_def n split: prod.splits)
    with rest False pos show ?thesis by (simp add: pieces.simps [of _ data])
  qed
qed

lemma emit_page_emits:
  "emits (emit_page hdr lay opt bie) (stream_bytes (page_chunks hdr lay opt bie))"
proof -
  have split: "emit_page hdr lay opt bie =
    (\<lambda>s. case write_chunk ZJT_START_PAGE (page_items hdr lay opt) [] s of (ok, s) \<Rightarrow> if ok then
      (\<lambda>s. case write_chunk ZJT_JBIG_BIH [] (take JBIG_BIH_LEN bie) s of (ok, s) \<Rightarrow> if ok then
        (\<lambda>s. case emit_bids (drop JBIG_BIH_LEN bie) s of (ok, s) \<Rightarrow> if ok then
          (\<lambda>s. case write_chunk ZJT_END_JBIG [] [] s of (ok, s) \<Rightarrow> if ok then
            write_chunk ZJT_END_PAGE [] [] s else (False, s)) s else (False, s)) s else (False, s)) s
       else (False, s))"
    by (auto simp: fun_eq_iff emit_page_def split: prod.splits)
  have bytes: "stream_bytes (page_chunks hdr lay opt bie) =
    chunk_bytes ZJT_START_PAGE (page_items hdr lay opt) [] @ chunk_bytes ZJT_JBIG_BIH [] (take JBIG_BIH_LEN bie)
    @ stream_bytes (map (\<lambda>p. (ZJT_JBIG_BID, [], p)) (pieces ZJ_BID_MAX (drop JBIG_BIH_LEN bie)))
    @ chunk_bytes ZJT_END_JBIG [] [] @ chunk_bytes ZJT_END_PAGE [] []"
    by (simp add: page_chunks_def)
  show ?thesis
    unfolding split bytes
    by (intro stdio.both write_chunk_emits emit_bids_emits)
qed

text \<open>
  C20. A page on the stream is one START_PAGE, the 20-byte JBIG header, the rest of the
  JBIG data cut into chunks of at most 64 KiB and never an empty one, END_JBIG and END_PAGE:
  when \<^verbatim>\<open>emit_page\<close> succeeds, a reader of what it wrote gets exactly these chunks, and the
  JBIG chunks put together are the compressed page, byte for byte.
\<close>

theorem page_on_the_stream:
  assumes "emit_page hdr lay opt bie fp = (True, fp')" "JBIG_BIH_LEN \<le> length bie"
  shows "\<exists>bytes bids. file_data fp' = file_data fp @ bytes
    \<and> parse_stream bytes = Some ([(ZJT_START_PAGE, page_items hdr lay opt, []), (ZJT_JBIG_BIH, [], take 20 bie)]
        @ map (\<lambda>p. (ZJT_JBIG_BID, [], p)) bids @ [(ZJT_END_JBIG, [], []), (ZJT_END_PAGE, [], [])])
    \<and> take 20 bie @ concat bids = bie \<and> (\<forall>p \<in> set bids. p \<noteq> [] \<and> length p \<le> 65536)"
proof -
  let ?bids = "pieces ZJ_BID_MAX (drop JBIG_BIH_LEN bie)"
  have "file_data fp' = file_data fp @ stream_bytes (page_chunks hdr lay opt bie)"
    by (rule appends_whole [OF emit_page_emits assms(1)])
  moreover have "parse_stream (stream_bytes (page_chunks hdr lay opt bie)) = Some (page_chunks hdr lay opt bie)"
    using parse_stream_chunks [OF page_chunks_wf] by (simp add: stream_bytes_def)
  moreover have "take 20 bie @ concat ?bids = bie"
    by (simp add: concat_pieces ZJ_BID_MAX_def JBIG_BIH_LEN_def)
  moreover have "\<forall>p \<in> set ?bids. p \<noteq> [] \<and> length p \<le> 65536"
    by (auto dest!: pieces_bounds) (auto simp: ZJ_BID_MAX_def)
  ultimately show ?thesis
    unfolding page_chunks_def JBIG_BIH_LEN_def [symmetric] by blast
qed

text \<open>A page with ten bytes of image behind its header.\<close>

theorem page_on_the_stream_witness:
  "\<exists>bytes bids. parse_stream bytes = Some ([(ZJT_START_PAGE, page_items zero_header (page_layout zero_header
        (options_read (\<lambda>_. None) None)) (options_read (\<lambda>_. None) None), []), (ZJT_JBIG_BIH, [], replicate 20 1)]
        @ map (\<lambda>p. (ZJT_JBIG_BID, [], p)) bids @ [(ZJT_END_JBIG, [], []), (ZJT_END_PAGE, [], [])])
    \<and> concat bids = replicate 10 2"
proof -
  let ?opt = "options_read (\<lambda>_. None) None"
  let ?bie = "replicate 20 1 @ replicate 10 2 :: byte list"
  obtain ok fp' where e: "emit_page zero_header (page_layout zero_header ?opt) ?opt ?bie empty_file = (ok, fp')"
    by (metis surj_pair)
  have "reliable empty_file" by (simp add: reliable_def empty_file_def)
  from appends_sound [OF emit_page_emits e this] e have
    "emit_page zero_header (page_layout zero_header ?opt) ?opt ?bie empty_file = (True, fp')" by simp
  from page_on_the_stream [OF this] show ?thesis by (auto simp: JBIG_BIH_LEN_def)
qed

section \<open>A finished page\<close>

definition page_image :: "'r print_env \<Rightarrow> page_layout_t \<Rightarrow> byte list \<Rightarrow> u32 \<Rightarrow> u32 \<Rightarrow> byte list" where
  "page_image E lay bitmap w h = concat (jbig E (w * l_depth lay) h bitmap)"

lemma finish_page_result:
  assumes "finish_page E hdr lay opt bitmap w h fp r = (ok, fp', r')"
  obtains k where "file_data fp' = file_data fp @
      take k (stream_bytes (page_chunks hdr lay opt (page_image E lay bitmap w h)))"
    "ok \<Longrightarrow> file_data fp' = file_data fp @ stream_bytes (page_chunks hdr lay opt (page_image E lay bitmap w h))"
    "ok \<Longrightarrow> 20 \<le> length (page_image E lay bitmap w h)"
    "reliable fp \<Longrightarrow> reliable fp'" "reliable fp \<Longrightarrow> \<not> ok \<Longrightarrow> fp' = fp"
proof -
  obtain good bie r1 where c: "jbig_compress E empty_buf bitmap (w * l_depth lay) h r = (good, bie, r1)"
    by (rule prod_cases3)
  show thesis
  proof (cases good)
    case False
    with assms c have "\<not> ok" "fp' = fp" by (auto simp: finish_page_def)
    then show thesis by (intro that [of 0]) auto
  next
    case True
    have b: "buf_data bie = page_image E lay bitmap w h" "20 \<le> length (page_image E lay bitmap w h)"
      using jbig_compress_result [OF c True] by (auto simp: page_image_def JBIG_BIH_LEN_def)
    from True assms c b have e: "emit_page hdr lay opt (page_image E lay bitmap w h) fp = (ok, fp')"
      by (auto simp: finish_page_def split: prod.splits)
    note em = emit_page_emits [of hdr lay opt "page_image E lay bitmap w h"]
    obtain k where "file_data fp' = file_data fp @
        take k (stream_bytes (page_chunks hdr lay opt (page_image E lay bitmap w h)))"
      using appends_prefix [OF em e] by blast
    then show thesis
      using appends_whole [OF em, of fp fp'] appends_sound [OF em e] e b(2) by (intro that [of k]) auto
  qed
qed

end
