(* ===== verification/Halftone_Laws.thy ===== *)
theory Halftone_Laws
  imports Emit_Laws
begin

text \<open>
  Layout and halftone: the video size of every page the filter accepts, and the bits of a
  halftoned row, one or two per pixel, packed from the most significant end.
\<close>

unbundle bit_operations_syntax

section \<open>Layout\<close>

lemma paper_find_in: "paper_find w h = Some p \<Longrightarrow> p \<in> set paper_table \<and> width_pt p = w \<and> height_pt p = h"
  by (auto simp: paper_find_def find_Some_iff)

lemma paper_sizes:
  "\<forall>p \<in> set paper_table. unat (video_x p) mod 32 = 0 \<and> unat (video_y p) mod 32 = 0
     \<and> 0 < unat (video_x p) \<and> unat (video_x p) \<le> 8192 \<and> 0 < unat (video_y p) \<and> unat (video_y p) \<le> 8192
     \<and> dmpaper p \<noteq> 0 \<and> dmpaper p \<noteq> 61"
  by (simp add: paper_table_def paper_def)

lemma round_up:
  assumes "unat (w :: u32) \<le> 32768"
  shows "unat ((w + 31) AND NOT 31) = (unat w + 31) div 32 * 32" "unat ((w + 7) AND NOT 7) = (unat w + 7) div 8 * 8"
proof -
  have sum: "unat (w + 31) = unat w + 31" "unat (w + 7) = unat w + 7"
    using assms by (simp_all add: unat_word_ariths take_bit_nat_eq_self)
  have m: "(31 :: u32) = mask 5" "(7 :: u32) = mask 3" by (simp_all add: mask_eq_exp_minus_1)
  have cut: "x AND NOT (mask n) = x div 2 ^ n * 2 ^ n" for x :: u32 and n
  proof -
    have "x AND NOT (mask n) = push_bit n (drop_bit n x)"
      by (rule bit_eqI) (auto simp: bit_and_iff bit_not_iff bit_mask_iff bit_push_bit_iff bit_drop_bit_eq)
    then show ?thesis by (simp only: push_bit_eq_mult drop_bit_eq_div)
  qed
  have whole: "unat (x div 32 * 32) = unat x div 32 * 32" "unat (x div 8 * 8) = unat x div 8 * 8" for x :: u32
  proof -
    have l: "unat x div 32 * 32 < 2 ^ 32" "unat x div 8 * 8 < 2 ^ 32"
      using unsigned_less [of x, where ?'a = nat] by (auto intro: div_less_iff_less_mult [THEN iffD2])
    show "unat (x div 32 * 32) = unat x div 32 * 32" "unat (x div 8 * 8) = unat x div 8 * 8"
      using l by (simp_all add: unat_word_ariths unat_div)
  qed
  have "(w + 31) AND NOT 31 = (w + 31) div 32 * 32" "(w + 7) AND NOT 7 = (w + 7) div 8 * 8"
    using cut [of "w + 31" 5] cut [of "w + 7" 3] by (simp_all only: m) simp_all
  then show "unat ((w + 31) AND NOT 31) = (unat w + 31) div 32 * 32" "unat ((w + 7) AND NOT 7) = (unat w + 7) div 8 * 8"
    by (simp_all only: whole sum)
qed

definition depth_of :: "job_options \<Rightarrow> nat" where
  "depth_of opt = (if j_dpi1200 opt then 2 else 1)"

definition layout_wf :: "page_layout_t \<Rightarrow> bool" where
  "layout_wf lay \<longleftrightarrow> unat (l_video_x lay) mod 32 = 0 \<and> unat (l_video_y lay) mod 8 = 0
     \<and> 0 < unat (l_video_x lay) \<and> unat (l_video_x lay) \<le> 32768
     \<and> 0 < unat (l_video_y lay) \<and> unat (l_video_y lay) \<le> 32768
     \<and> (l_depth lay = 1 \<or> l_depth lay = 2)"

lemma page_layout_cases:
  obtains (listed) p rot where "p \<in> set paper_table" "rot \<longleftrightarrow> PageSize0 hdr = 421 \<and> PageSize1 hdr = 595"
      "paper_find (PageSize0 hdr) (PageSize1 hdr) = (if rot then None else Some p)"
      "page_layout hdr opt = \<lparr>l_dmpaper = (if rot then 61 else dmpaper p),
         l_video_x = (if rot then video_y p else video_x p), l_video_y = (if rot then video_x p else video_y p),
         l_depth = (if j_dpi1200 opt then 2 else 1), l_rotate90 = rot\<rparr>"
  | (custom) "paper_find (PageSize0 hdr) (PageSize1 hdr) = None" "\<not> (PageSize0 hdr = 421 \<and> PageSize1 hdr = 595)"
      "page_layout hdr opt = \<lparr>l_dmpaper = 0, l_video_x = (cupsWidth hdr + 31) AND NOT 31,
         l_video_y = (cupsHeight hdr + 7) AND NOT 7, l_depth = (if j_dpi1200 opt then 2 else 1), l_rotate90 = False\<rparr>"
proof -
  have a5': "paper_find 420 595 = Some (hd paper_table)" and none: "paper_find 421 595 = None"
    by (simp_all add: paper_find_def paper_table_def paper_def)
  define a5 where "a5 = hd paper_table"
  note a5 = a5' [folded a5_def] none
  note defs = page_layout_def Let_def PT_A5_ROT_WIDTH_PT_def PT_A5_ROT_HEIGHT_PT_def PT_A5_WIDTH_PT_def
    PT_A5_HEIGHT_PT_def ZJ_DMPAPER_A5_ROTATED_def
  show thesis
  proof (cases "paper_find (PageSize0 hdr) (PageSize1 hdr)")
    case (Some p)
    then have "\<not> (PageSize0 hdr = 421 \<and> PageSize1 hdr = 595)" using a5(2) by auto
    with Some paper_find_in [OF Some] show thesis
      by (intro listed [of p False]) (simp_all add: defs)
  next
    case None
    show thesis
    proof (cases "PageSize0 hdr = 421 \<and> PageSize1 hdr = 595")
      case True
      with None paper_find_in [OF a5(1)] a5 show thesis
        by (intro listed [of a5 True]) (simp_all add: defs)
    next
      case False
      with None show thesis by (intro custom) (auto simp: defs)
    qed
  qed
qed

lemma page_layout_wf:
  assumes "header_supported hdr"
  shows "layout_wf (page_layout hdr opt)" "unat (l_depth (page_layout hdr opt)) = depth_of opt"
proof -
  have w: "unat (cupsWidth hdr) \<le> 32768" "unat (cupsHeight hdr) \<le> 32768" "0 < unat (cupsWidth hdr)" "0 < unat (cupsHeight hdr)"
    using assms by (auto simp: header_supported_def PT_MAX_DOTS_def word_less_nat_alt unat_gt_0)
  have a: "(n + 31) div 32 * 32 \<le> (32768 :: nat)" "(n + 7) div 8 * 8 \<le> (32768 :: nat)" if "n \<le> 32768" for n
    using div_le_mono [of "n + 31" 32799 32] div_le_mono [of "n + 7" 32775 8] that by simp_all
  have b: "0 < (n + 31) div 32 * 32" "0 < (n + 7) div 8 * (8 :: nat)" if "0 < n" for n :: nat
    using div_le_mono [of 32 "n + 31" 32] div_le_mono [of 8 "n + 7" 8] that by simp_all
  have m8: "k mod 32 = 0 \<Longrightarrow> k mod 8 = 0" for k :: nat by presburger
  have "layout_wf (page_layout hdr opt) \<and> unat (l_depth (page_layout hdr opt)) = depth_of opt"
  proof (cases hdr opt rule: page_layout_cases)
    case (listed p rot)
    from bspec [OF paper_sizes listed(1)] m8 show ?thesis
      by (auto simp: listed(4) layout_wf_def depth_of_def)
  next
    case custom
    note up = round_up [OF w(1)] round_up [OF w(2)]
    show ?thesis
      unfolding custom(3) layout_wf_def page_layout_t.simps up
      using a(1) [OF w(1)] a(2) [OF w(2)] b(1) [OF w(3)] b(2) [OF w(4)] by (simp add: depth_of_def)
  qed
  then show "layout_wf (page_layout hdr opt)" "unat (l_depth (page_layout hdr opt)) = depth_of opt" by simp_all
qed

text \<open>
  C28. Every page the filter accepts gets a video size the engine can take. For any header
  that passes the checks of \<^verbatim>\<open>main\<close>: the width is a positive multiple of 32 dots and the
  height a positive multiple of 8, neither above 32768; a sheet that is not in the paper table
  is announced as custom (code 0) and its video area covers the raster; one that is in the
  table has a non-zero code, and only the 421 by 595 point sheet is turned a quarter.
\<close>

theorem video_size_legal:
  assumes "header_supported hdr"
  shows "(case page_layout hdr opt of lay \<Rightarrow>
    unat (l_video_x lay) mod 32 = 0 \<and> unat (l_video_y lay) mod 8 = 0
    \<and> 0 < l_video_x lay \<and> l_video_x lay \<le> PT_MAX_DOTS \<and> 0 < l_video_y lay \<and> l_video_y lay \<le> PT_MAX_DOTS
    \<and> (l_dmpaper lay = 0 \<longleftrightarrow> paper_find (PageSize0 hdr) (PageSize1 hdr) = None
        \<and> \<not> (PageSize0 hdr = 421 \<and> PageSize1 hdr = 595))
    \<and> (l_dmpaper lay = 0 \<longrightarrow> cupsWidth hdr \<le> l_video_x lay \<and> cupsHeight hdr \<le> l_video_y lay)
    \<and> (l_rotate90 lay \<longleftrightarrow> l_dmpaper lay = 61)
    \<and> (l_rotate90 lay \<longleftrightarrow> PageSize0 hdr = 421 \<and> PageSize1 hdr = 595))"
proof -
  define lay where "lay = page_layout hdr opt"
  have wf: "layout_wf lay" using page_layout_wf(1) [OF assms] by (simp add: lay_def)
  have w: "unat (cupsWidth hdr) \<le> 32768" "unat (cupsHeight hdr) \<le> 32768"
    using assms by (auto simp: header_supported_def PT_MAX_DOTS_def word_less_nat_alt)
  have up: "n \<le> (n + 31) div 32 * 32" "n \<le> (n + 7) div 8 * 8" for n :: nat
    using div_mult_mod_eq [of "n + 31" 32] div_mult_mod_eq [of "n + 7" 8]
      mod_less_divisor [of 32 "n + 31"] mod_less_divisor [of 8 "n + 7"] by linarith+
  have codes: "(l_dmpaper lay = 0 \<longleftrightarrow> paper_find (PageSize0 hdr) (PageSize1 hdr) = None
      \<and> \<not> (PageSize0 hdr = 421 \<and> PageSize1 hdr = 595))
    \<and> (l_dmpaper lay = 0 \<longrightarrow> cupsWidth hdr \<le> l_video_x lay \<and> cupsHeight hdr \<le> l_video_y lay)
    \<and> (l_rotate90 lay \<longleftrightarrow> l_dmpaper lay = 61) \<and> (l_rotate90 lay \<longleftrightarrow> PageSize0 hdr = 421 \<and> PageSize1 hdr = 595)"
  proof (cases hdr opt rule: page_layout_cases)
    case (listed p rot)
    from bspec [OF paper_sizes listed(1)] listed(2,3) show ?thesis
      by (auto simp: lay_def listed(4))
  next
    case custom
    have "cupsWidth hdr \<le> l_video_x lay" "cupsHeight hdr \<le> l_video_y lay"
      unfolding lay_def custom(3) page_layout_t.simps word_le_nat_alt round_up [OF w(1)] round_up [OF w(2)]
      by (rule up)+
    moreover have "l_dmpaper lay = 0" "\<not> l_rotate90 lay" by (simp_all add: lay_def custom(3))
    ultimately show ?thesis using custom(1,2) by auto
  qed
  show ?thesis
    using wf codes unfolding lay_def [symmetric] layout_wf_def
    by (auto simp: PT_MAX_DOTS_def word_less_nat_alt word_le_nat_alt)
qed

definition demo_header :: page_header where
  "demo_header = zero_header\<lparr>cupsWidth := 100, cupsHeight := 50, cupsBitsPerPixel := 8,
     cupsBytesPerLine := 100, PageSize0 := 72, PageSize1 := 36\<rparr>"

theorem video_size_legal_witness:
  "l_video_x (page_layout demo_header (options_read (\<lambda>_. None) None)) = 128
   \<and> l_video_y (page_layout demo_header (options_read (\<lambda>_. None) None)) = 56
   \<and> unat (l_video_x (page_layout demo_header (options_read (\<lambda>_. None) None))) mod 32 = 0"
proof -
  have "header_supported demo_header"
    by (simp add: header_supported_def demo_header_def zero_header_def PT_MAX_DOTS_def)
  from video_size_legal [OF this, of "options_read (\<lambda>_. None) None"] show ?thesis
    by (simp add: page_layout_def paper_find_def paper_table_def paper_def demo_header_def zero_header_def
        PT_A5_ROT_WIDTH_PT_def Let_def)
qed

section \<open>Packed dots\<close>

lemma dot_code_bits:
  "bit (dot_code 1 neg thr g) n \<longleftrightarrow> n = 0 \<and> dot_code 1 neg thr g = 1"
  "dot_code 2 neg thr g < 4"
proof -
  show "bit (dot_code 1 neg thr g) n \<longleftrightarrow> n = 0 \<and> dot_code 1 neg thr g = 1"
    by (auto simp: dot_code_def bit_1_iff)
  show "dot_code 2 neg thr g < 4"
    by (simp add: dot_code_def ht_level_to_code_def Let_def)
qed

definition dots :: "byte list \<Rightarrow> u32 \<Rightarrow> bool \<Rightarrow> nat \<Rightarrow> byte list \<Rightarrow> nat \<Rightarrow> u32" where
  "dots thr_row depth neg x gray i = dot_code depth neg (thr_row ! ((x + i) mod 16)) (gray ! i)"

lemma eight_pixels:
  "halftone_loop thr_row 1 neg x (a # b # c # d # e # f # g # h # rest) 0 8 =
     ucast (push_bit 7 (dot_code 1 neg (thr_row ! (x mod 16)) a) OR push_bit 6 (dot_code 1 neg (thr_row ! ((x + 1) mod 16)) b)
       OR push_bit 5 (dot_code 1 neg (thr_row ! ((x + 2) mod 16)) c) OR push_bit 4 (dot_code 1 neg (thr_row ! ((x + 3) mod 16)) d)
       OR push_bit 3 (dot_code 1 neg (thr_row ! ((x + 4) mod 16)) e) OR push_bit 2 (dot_code 1 neg (thr_row ! ((x + 5) mod 16)) f)
       OR push_bit 1 (dot_code 1 neg (thr_row ! ((x + 6) mod 16)) g) OR dot_code 1 neg (thr_row ! ((x + 7) mod 16)) h)
     # halftone_loop thr_row 1 neg (x + 8) rest 0 8"
proof -
  have e: "Suc (Suc (Suc (Suc (Suc (Suc (Suc (Suc x))))))) = x + 8" by simp
  show ?thesis by (simp add: Let_def or.assoc add.commute e)
qed

lemma four_pixels:
  "halftone_loop thr_row 2 neg x (a # b # c # d # rest) 0 8 =
     ucast (push_bit 6 (dot_code 2 neg (thr_row ! (x mod 16)) a) OR push_bit 4 (dot_code 2 neg (thr_row ! ((x + 1) mod 16)) b)
       OR push_bit 2 (dot_code 2 neg (thr_row ! ((x + 2) mod 16)) c) OR dot_code 2 neg (thr_row ! ((x + 3) mod 16)) d)
     # halftone_loop thr_row 2 neg (x + 4) rest 0 8"
proof -
  have e: "Suc (Suc (Suc (Suc x))) = x + 4" by simp
  show ?thesis by (simp add: Let_def or.assoc add.commute e)
qed

lemma bit_times2: "bit (x * 2 :: u32) n \<longleftrightarrow> n \<noteq> 0 \<and> n < 32 \<and> bit x (n - 1)"
  by (cases n) (auto simp: bit_double_iff mult.commute [of x])

lemma length_multiple_cons:
  assumes "length xs = 8 * Suc n"
  obtains a b c d e f g h rest where "xs = a # b # c # d # e # f # g # h # rest" "length rest = 8 * n"
  using assms by (auto simp: length_Suc_conv numeral_eq_Suc)

lemma length_four_cons:
  assumes "length xs = 4 * Suc n"
  obtains a b c d rest where "xs = a # b # c # d # rest" "length rest = 4 * n"
  using assms by (auto simp: length_Suc_conv numeral_eq_Suc)

lemma halftone_loop_one:
  "length gray = 8 * n \<Longrightarrow>
   length (halftone_loop thr_row 1 neg x gray 0 8) = n
   \<and> (\<forall>i < 8 * n. bit (halftone_loop thr_row 1 neg x gray 0 8 ! (i div 8)) (7 - i mod 8) \<longleftrightarrow> dots thr_row 1 neg x gray i = 1)"
proof (induction n arbitrary: x gray)
  case 0
  then show ?case by simp
next
  case (Suc n)
  obtain a b c d e f g h rest where gray: "gray = a # b # c # d # e # f # g # h # rest" "length rest = 8 * n"
    using length_multiple_cons [OF Suc.prems] .
  note IH = Suc.IH [OF gray(2), of "x + 8"]
  have "bit (halftone_loop thr_row 1 neg x gray 0 8 ! (i div 8)) (7 - i mod 8) \<longleftrightarrow> dots thr_row 1 neg x gray i = 1"
    if "i < 8 * Suc n" for i
  proof (cases "i < 8")
    case True
    then consider "i = 0" | "i = 1" | "i = 2" | "i = 3" | "i = 4" | "i = 5" | "i = 6" | "i = 7" by linarith
    then show ?thesis
      by cases (simp_all only: gray eight_pixels, simp_all add: bit_simps bit_times2 dot_code_bits(1) dots_def del: halftone_loop.simps)
  next
    case False
    then obtain j where j: "i = j + 8" by (metis add.commute le_add_diff_inverse not_less)
    with that have "j < 8 * n" by simp
    with IH have "bit (halftone_loop thr_row 1 neg (x + 8) rest 0 8 ! (j div 8)) (7 - j mod 8) \<longleftrightarrow> dots thr_row 1 neg (x + 8) rest j = 1"
      by blast
    moreover have "(j + 8) div 8 = Suc (j div 8)" "(j + 8) mod 8 = j mod 8" by simp_all
    ultimately show ?thesis
      unfolding gray eight_pixels j by (simp add: dots_def ac_simps del: halftone_loop.simps)
  qed
  then show ?case using IH by (simp only: gray eight_pixels) (simp del: halftone_loop.simps)
qed

lemma two_bits:
  assumes "(a :: u32) < 4" "b < 4" "c < 4" "d < 4"
  defines "w \<equiv> (ucast (push_bit 6 a OR push_bit 4 b OR push_bit 2 c OR d) :: byte)"
  shows "take_bit 2 (drop_bit 6 w) = ucast a" "take_bit 2 (drop_bit 4 w) = ucast b"
    "take_bit 2 (drop_bit 2 w) = ucast c" "take_bit 2 w = ucast d"
proof -
  have hi: "n < 2" if "x < 4" "bit x n" for x :: u32 and n
  proof (rule ccontr)
    assume "\<not> n < 2"
    have "unat x < 2 ^ 2" using that(1) by (simp add: word_less_nat_alt)
    then have "take_bit 2 (unat x) = unat x" by (rule take_bit_nat_eq_self)
    then have "bit (unat x) n = bit (take_bit 2 (unat x)) n" by simp
    with \<open>\<not> n < 2\<close> have "\<not> bit (unat x) n" by (simp add: bit_take_bit_iff)
    with that(2) show False by (simp add: bit_unsigned_iff bit_imp_le_length)
  qed
  show "take_bit 2 (drop_bit 6 w) = ucast a" "take_bit 2 (drop_bit 4 w) = ucast b"
    "take_bit 2 (drop_bit 2 w) = ucast c" "take_bit 2 w = ucast d"
    by (auto intro!: bit_eqI simp: w_def bit_simps dest!: hi [OF assms(1)] hi [OF assms(2)] hi [OF assms(3)] hi [OF assms(4)])
qed


lemma halftone_loop_two:
  "length gray = 4 * n \<Longrightarrow>
   length (halftone_loop thr_row 2 neg x gray 0 8) = n
   \<and> (\<forall>i < 4 * n. take_bit 2 (drop_bit (6 - 2 * (i mod 4)) (halftone_loop thr_row 2 neg x gray 0 8 ! (i div 4)))
        = ucast (dots thr_row 2 neg x gray i))"
proof (induction n arbitrary: x gray)
  case 0
  then show ?case by simp
next
  case (Suc n)
  obtain a b c d rest where gray: "gray = a # b # c # d # rest" "length rest = 4 * n"
    using length_four_cons [OF Suc.prems] .
  note IH = Suc.IH [OF gray(2), of "x + 4"]
  note four = two_bits [OF dot_code_bits(2) dot_code_bits(2) dot_code_bits(2) dot_code_bits(2)]
  have "take_bit 2 (drop_bit (6 - 2 * (i mod 4)) (halftone_loop thr_row 2 neg x gray 0 8 ! (i div 4)))
      = ucast (dots thr_row 2 neg x gray i)"
    if "i < 4 * Suc n" for i
  proof (cases "i < 4")
    case True
    then consider "i = 0" | "i = 1" | "i = 2" | "i = 3" by linarith
    then show ?thesis
      by cases (simp_all only: gray four_pixels, simp_all add: four dots_def del: halftone_loop.simps)
  next
    case False
    then obtain j where j: "i = j + 4" by (metis add.commute le_add_diff_inverse not_less)
    with that have "j < 4 * n" by simp
    with IH have "take_bit 2 (drop_bit (6 - 2 * (j mod 4)) (halftone_loop thr_row 2 neg (x + 4) rest 0 8 ! (j div 4)))
        = ucast (dots thr_row 2 neg (x + 4) rest j)"
      by blast
    moreover have "(j + 4) div 4 = Suc (j div 4)" "(j + 4) mod 4 = j mod 4" by simp_all
    ultimately show ?thesis
      unfolding gray four_pixels j by (simp add: dots_def ac_simps del: halftone_loop.simps)
  qed
  then show ?case using IH by (simp only: gray four_pixels) (simp del: halftone_loop.simps)
qed

text \<open>The threshold under pixel \<open>x\<close> of row \<open>y\<close>.\<close>

definition threshold_at :: "nat \<Rightarrow> nat \<Rightarrow> byte" where
  "threshold_at y x = ht_table_600 ! (y mod 16 * 16 + x mod 16)"

lemma threshold_row: "drop (y mod 16 * 16) ht_table_600 ! (x mod 16) = threshold_at y x"
proof -
  have "length ht_table_600 = 256" by (simp add: ht_table_600_def)
  moreover have "y mod 16 * 16 \<le> 240" by simp
  ultimately show ?thesis by (simp add: threshold_at_def)
qed

lemma halftone_row_length:
  assumes "unat depth = d" "d = 1 \<or> d = 2" "width mod 8 = 0" "width \<le> length gray"
  shows "length (halftone_row gray width y depth neg) = width * d div 8"
proof -
  from assms(1,2) have "depth = 1 \<or> depth = 2" by (auto simp: word_unat_eq_iff)
  moreover have "length (take width gray) = 8 * (width div 8)" "length (take width gray) = 4 * (width div 4)"
    using assms(3,4) by (auto simp: min_absorb2)
  ultimately show ?thesis
    using halftone_loop_one [of "take width gray" "width div 8"] halftone_loop_two [of "take width gray" "width div 4"] assms(1,3)
    by (auto simp: halftone_row_def)
qed

text \<open>
  C29. The bits of a halftoned row. For a row whose width is a multiple of 8, the output
  has exactly width times depth bits. At one bit per pixel, bit 7 - x mod 8 of byte x div 8 is
  set exactly if the gray value of pixel x is below the threshold of the 16 by 16 screen under
  it, and exactly if it is not when the page is printed as a negative. At two bits per pixel
  the field of pixel x holds its dot code, which is 3 for black and the ink left over the
  threshold otherwise, complemented for a negative.
\<close>

theorem halftone_row_bits:
  assumes "width mod 8 = 0" "width \<le> length gray" "x < width"
  shows "length (halftone_row gray width y 1 neg) = width div 8
    \<and> length (halftone_row gray width y 2 neg) = width div 4
    \<and> (bit (halftone_row gray width y 1 neg ! (x div 8)) (7 - x mod 8) \<longleftrightarrow> (gray ! x < threshold_at y x) \<noteq> neg)
    \<and> take_bit 2 (drop_bit (6 - 2 * (x mod 4)) (halftone_row gray width y 2 neg ! (x div 4))) =
        (let ink = (if gray ! x = 0 then 255 else 255 - uint (gray ! x) - uint (threshold_at y x));
             code = (if ink \<le> 0 then 0 else if ink < 24 then 1 else if ink < 64 then 2 else 3)
         in if neg then 3 - code else code)"
proof -
  have len: "length (take width gray) = 8 * (width div 8)" "length (take width gray) = 4 * (width div 4)"
    using assms(1,2) by (auto simp: min_absorb2)
  have x: "x < 8 * (width div 8)" "x < 4 * (width div 4)" using assms(3) len assms(2) by auto
  note one = halftone_loop_one [OF len(1), of "drop (y mod 16 * 16) ht_table_600" neg 0, folded halftone_row_def]
  note two = halftone_loop_two [OF len(2), of "drop (y mod 16 * 16) ht_table_600" neg 0, folded halftone_row_def]
  have d: "dots (drop (y mod 16 * 16) ht_table_600) k neg 0 (take width gray) x = dot_code k neg (threshold_at y x) (gray ! x)" for k
    using assms(3) by (simp add: dots_def threshold_row)
  have "dot_code 1 neg (threshold_at y x) (gray ! x) = 1 \<longleftrightarrow> (gray ! x < threshold_at y x) \<noteq> neg"
    by (auto simp: dot_code_def not_less)
  moreover have "ucast (dot_code 2 neg (threshold_at y x) (gray ! x)) =
     (let ink = (if gray ! x = 0 then 255 else 255 - uint (gray ! x) - uint (threshold_at y x));
          code = (if ink \<le> 0 then 0 else if ink < 24 then 1 else if ink < 64 then 2 else 3 :: byte)
      in if neg then 3 - code else code)"
    by (simp add: dot_code_def ht_level_to_code_def Let_def)
  ultimately show ?thesis using one two x d by simp
qed

theorem halftone_row_bits_witness:
  "bit (halftone_row [0, 255, 100, 255, 255, 255, 255, 255] 8 0 1 False ! 0) 7
   \<and> \<not> bit (halftone_row [0, 255, 100, 255, 255, 255, 255, 255] 8 0 1 True ! 0) 7
   \<and> threshold_at 0 0 = 6"
  using halftone_row_bits [of 8 "[0, 255, 100, 255, 255, 255, 255, 255]" 0 0 False]
    halftone_row_bits [of 8 "[0, 255, 100, 255, 255, 255, 255, 255]" 0 0 True]
  by (simp add: threshold_at_def ht_table_600_def)

end
