(* ===== verification/Render_Laws.thy ===== *)
theory Render_Laws
  imports Halftone_Laws
begin

text \<open>
  Rendering: the bitmap a page ends up with, as a function of the lines read. The buffers the
  code writes row by row are read back as slices; the loop invariant is that the rows done so
  far hold what the sheet has there.
\<close>

unbundle bit_operations_syntax

section \<open>Buffers made of rows\<close>

definition slice :: "nat \<Rightarrow> 'a list \<Rightarrow> nat \<Rightarrow> 'a list" where
  "slice n buf d = take n (drop (d * n) buf)"

lemma length_poke: "off + length bs \<le> length buf \<Longrightarrow> length (poke buf off bs) = length buf"
  by (simp add: poke_def)

lemma nth_poke:
  assumes "off + length bs \<le> length buf" "i < length buf"
  shows "poke buf off bs ! i = (if off \<le> i \<and> i < off + length bs then bs ! (i - off) else buf ! i)"
  using assms by (auto simp: poke_def nth_append min_absorb2 not_less)

lemma row_room: "(d :: nat) < h \<Longrightarrow> d * n + n \<le> h * n"
  using mult_le_mono1 [of "Suc d" h n] by simp

lemma slice_poke:
  assumes "length buf = h * n" "d < h" "d' < h" "length bs = n"
  shows "slice n (poke buf (d * n) bs) d' = (if d' = d then bs else slice n buf d')"
proof (rule nth_equalityI)
  have room: "d * n + n \<le> h * n" "d' * n + n \<le> h * n" using row_room assms by auto
  show l: "length (slice n (poke buf (d * n) bs) d') = length (if d' = d then bs else slice n buf d')"
    using room assms by (simp add: slice_def length_poke)
  fix i
  assume "i < length (slice n (poke buf (d * n) bs) d')"
  then have i: "i < n" using room assms by (simp add: slice_def length_poke)
  have pos: "d' * n + i < h * n" using i room by linarith
  have "d * n \<le> d' * n + i \<and> d' * n + i < d * n + n \<longleftrightarrow> d' = d"
  proof
    assume a: "d * n \<le> d' * n + i \<and> d' * n + i < d * n + n"
    then have "d * n < Suc d' * n" "d' * n < Suc d * n" using i by simp_all
    then have "d < Suc d'" "d' < Suc d" by (auto simp: mult_less_cancel2 simp del: mult_Suc)
    then show "d' = d" by simp
  qed (use i in simp)
  with pos room assms i show "slice n (poke buf (d * n) bs) d' ! i = (if d' = d then bs else slice n buf d') ! i"
    by (auto simp: slice_def length_poke nth_poke)
qed

lemma slices_whole:
  assumes "length buf = h * n" "\<And>d. d < h \<Longrightarrow> slice n buf d = f d"
  shows "buf = concat (map f [0..<h])"
  using assms
proof (induction h arbitrary: buf)
  case 0
  then show ?case by simp
next
  case (Suc h)
  have "slice n (take (h * n) buf) d = f d" if "d < h" for d
    using Suc.prems(2) [of d] row_room [OF that, of n] that by (simp add: slice_def take_drop min_absorb1 add.commute)
  with Suc.IH [of "take (h * n) buf"] Suc.prems(1) have "take (h * n) buf = concat (map f [0..<h])" by simp
  moreover have "drop (h * n) buf = f h" using Suc.prems(2) [of h] Suc.prems(1) by (simp add: slice_def)
  ultimately show ?case by (metis append_take_drop_id concat_append concat.simps map_append list.map upt_Suc_append append_Nil2 le0)
qed

lemma swap_ends_nth:
  "b < length row \<Longrightarrow> length (swap_ends a b row) = length row
     \<and> (\<forall>i < length row. swap_ends a b row ! i = (if a \<le> i \<and> i \<le> b then row ! (a + b - i) else row ! i))"
proof (induction a b row rule: swap_ends.induct)
  case (1 a b row)
  show ?case
  proof (cases "a < b")
    case False
    then have "a + b - i = i" if "a \<le> i" "i \<le> b" for i using that by linarith
    with False show ?thesis by (auto simp: swap_ends.simps [of a b row])
  next
    case True
    define row' where "row' = row[a := row ! b, b := row ! a]"
    have IH: "length (swap_ends (a + 1) (b - 1) row') = length row'"
      "\<And>i. i < length row' \<Longrightarrow> swap_ends (a + 1) (b - 1) row' ! i =
         (if a + 1 \<le> i \<and> i \<le> b - 1 then row' ! (a + 1 + (b - 1) - i) else row' ! i)"
      using "1.IH" [OF True] 1(2) by (auto simp: row'_def)
    have e: "swap_ends a b row = swap_ends (a + 1) (b - 1) row'"
      using True by (simp add: swap_ends.simps [of a b row] row'_def)
    have "swap_ends a b row ! i = (if a \<le> i \<and> i \<le> b then row ! (a + b - i) else row ! i)" if "i < length row" for i
    proof -
      have i: "i < length row'" using that by (simp add: row'_def)
      consider "i = a" | "i = b" | "a < i" "i < b" | "i < a \<or> b < i" by linarith
      then show ?thesis
        using IH(2) [OF i] True 1(2) that
        by cases (auto simp: e row'_def nth_list_update)
    qed
    then show ?thesis using IH(1) e by (simp add: row'_def)
  qed
qed

lemma swap_ends_rev:
  assumes "0 < n" "n \<le> length row"
  shows "swap_ends 0 (n - 1) row = rev (take n row) @ drop n row"
proof (rule nth_equalityI)
  have b: "n - 1 < length row" using assms by simp
  show "length (swap_ends 0 (n - 1) row) = length (rev (take n row) @ drop n row)"
    using swap_ends_nth [OF b, of 0] assms by simp
  fix i
  assume "i < length (swap_ends 0 (n - 1) row)"
  then have i: "i < length row" using swap_ends_nth [OF b, of 0] by simp
  then show "swap_ends 0 (n - 1) row ! i = (rev (take n row) @ drop n row) ! i"
    using swap_ends_nth [OF b, of 0] assms by (auto simp: nth_append rev_nth min_absorb2 not_less)
qed


section \<open>What a page looks like\<close>

text \<open>What the raster library and the allocator promise about lengths.\<close>

definition raster_ok :: "'r print_env \<Rightarrow> bool" where
  "raster_ok E \<longleftrightarrow> (\<forall>n r px r'. ras_pixels E n r = (Some px, r') \<longrightarrow> length px = n)
     \<and> (\<forall>n r b r'. heap E n r = (Some b, r') \<longrightarrow> length b = n)"

fun read_lines :: "'r print_env \<Rightarrow> nat \<Rightarrow> nat \<Rightarrow> 'r \<Rightarrow> (byte list list \<times> 'r) option" where
  "read_lines E n 0 r = Some ([], r)"
| "read_lines E n (Suc k) r =
     (case ras_pixels E n r of
        (None, r) \<Rightarrow> None
      | (Some px, r) \<Rightarrow> map_option (\<lambda>(ls, r). (px # ls, r)) (read_lines E n k r))"

text \<open>Row \<open>y\<close> of the source: the pixels the page takes from the raster, paper white around
  them.\<close>

definition source_row :: "geometry \<Rightarrow> byte list list \<Rightarrow> nat \<Rightarrow> byte list" where
  "source_row g ls y =
     (if y < length ls then take (g_copy_w g) (ls ! y) @ replicate (unat (g_src_w g) - g_copy_w g) 0xff
      else replicate (unat (g_src_w g)) 0xff)"

text \<open>Row \<open>d\<close> of the gray page after the half turn.\<close>

definition turned_row :: "job_options \<Rightarrow> geometry \<Rightarrow> byte list list \<Rightarrow> nat \<Rightarrow> byte list" where
  "turned_row opt g ls d =
     (if j_rotate180 opt then rev (source_row g ls (unat (g_src_h g) - 1 - d)) else source_row g ls d)"

text \<open>Row \<open>y\<close> of the sheet as the engine sees it, and its bitmap.\<close>

definition sheet_row :: "page_layout_t \<Rightarrow> job_options \<Rightarrow> geometry \<Rightarrow> byte list list \<Rightarrow> nat \<Rightarrow> byte list" where
  "sheet_row lay opt g ls y =
     (if l_rotate90 lay
      then map (\<lambda>x. turned_row opt g ls (unat (g_src_h g) - 1 - x) ! y) [0..<unat (l_video_x lay)]
      else turned_row opt g ls y)"

definition page_bitmap :: "page_layout_t \<Rightarrow> job_options \<Rightarrow> geometry \<Rightarrow> byte list list \<Rightarrow> byte list" where
  "page_bitmap lay opt g ls =
     concat (map (\<lambda>y. halftone_row (sheet_row lay opt g ls y) (unat (l_video_x lay)) y (l_depth lay) (j_negative opt))
       [0..<unat (l_video_y lay)])"

text \<open>The sizes fit together.\<close>

definition geometry_ok :: "page_header \<Rightarrow> page_layout_t \<Rightarrow> geometry \<Rightarrow> bool" where
  "geometry_ok hdr lay g \<longleftrightarrow> layout_wf lay
     \<and> g_src_w g = (if l_rotate90 lay then l_video_y lay else l_video_x lay)
     \<and> g_src_h g = (if l_rotate90 lay then l_video_x lay else l_video_y lay)
     \<and> g_bpl g = unat (l_video_x lay) * unat (l_depth lay) div 8
     \<and> unat (l_video_x lay) \<le> g_rowlen g \<and> unat (g_src_w g) \<le> g_rowlen g
     \<and> unat (cupsBytesPerLine hdr) \<le> g_rowlen g
     \<and> g_copy_w g \<le> unat (cupsBytesPerLine hdr) \<and> g_copy_w g \<le> unat (g_src_w g) \<and> 0 < unat (g_src_w g)"

lemma page_geometry_ok:
  assumes "header_supported hdr" "lay = page_layout hdr opt"
  shows "geometry_ok hdr lay (page_geometry hdr lay)"
proof -
  have lay: "layout_wf lay" using page_layout_wf(1) [OF assms(1)] by (simp add: assms(2))
  have "unat (cupsWidth hdr) \<le> unat (cupsBytesPerLine hdr)"
    using assms(1) by (auto simp: header_supported_def word_less_nat_alt)
  with lay show ?thesis
    by (auto simp: geometry_ok_def page_geometry_def Let_def word_less_nat_alt layout_wf_def)
qed

lemma source_row_length:
  assumes "geometry_ok hdr lay g" "\<forall>l \<in> set ls. length l = unat (cupsBytesPerLine hdr)"
  shows "length (source_row g ls y) = unat (g_src_w g)"
  using assms by (auto simp: source_row_def geometry_ok_def min_absorb2)

text \<open>One read row in the row buffer, and the row buffer below the image.\<close>

lemma fresh_row:
  assumes "geometry_ok hdr lay g" "length row = g_rowlen g" "length px = unat (cupsBytesPerLine hdr)"
  defines "row' \<equiv> (let row = poke row 0 px in
     if g_copy_w g < g_rowlen g then memset_at row (g_copy_w g) 0xff (g_rowlen g - g_copy_w g) else row)"
  shows "length row' = g_rowlen g"
    "take (unat (g_src_w g)) row' = take (g_copy_w g) px @ replicate (unat (g_src_w g) - g_copy_w g) 0xff"
proof -
  have g: "unat (cupsBytesPerLine hdr) \<le> g_rowlen g" "g_copy_w g \<le> unat (cupsBytesPerLine hdr)"
    "g_copy_w g \<le> unat (g_src_w g)" "unat (g_src_w g) \<le> g_rowlen g"
    using assms(1) by (auto simp: geometry_ok_def)
  have "row' = take (g_copy_w g) px @ replicate (g_rowlen g - g_copy_w g) 0xff"
  proof (cases "g_copy_w g < g_rowlen g")
    case True
    with g assms(2,3) show ?thesis
      by (simp add: row'_def Let_def poke_def memset_at_def min_absorb1 take_append)
  next
    case False
    with g assms(2,3) show ?thesis by (simp add: row'_def Let_def poke_def)
  qed
  with g assms(3) show "length row' = g_rowlen g"
    "take (unat (g_src_w g)) row' = take (g_copy_w g) px @ replicate (unat (g_src_w g) - g_copy_w g) 0xff"
    by (simp_all add: min_absorb1 min_absorb2)
qed


section \<open>The rendering loop\<close>

definition target :: "job_options \<Rightarrow> geometry \<Rightarrow> nat \<Rightarrow> nat" where
  "target opt g y = (if j_rotate180 opt then unat (g_src_h g) - 1 - y else y)"

definition row_bits :: "page_layout_t \<Rightarrow> job_options \<Rightarrow> byte list \<Rightarrow> nat \<Rightarrow> byte list" where
  "row_bits lay opt row d = halftone_row row (unat (l_video_x lay)) d (l_depth lay) (j_negative opt)"

text \<open>The buffer a page is collected in holds row \<open>d\<close>.\<close>

definition row_done :: "page_layout_t \<Rightarrow> job_options \<Rightarrow> geometry \<Rightarrow> byte list list \<Rightarrow> canvas \<Rightarrow> nat \<Rightarrow> bool" where
  "row_done lay opt g ls c d \<longleftrightarrow>
     (if l_rotate90 lay then slice (unat (g_src_w g)) (cv_gray c) d = turned_row opt g ls d
      else slice (g_bpl g) (cv_bitmap c) d = row_bits lay opt (turned_row opt g ls d) d)"

definition canvas_ok :: "page_layout_t \<Rightarrow> geometry \<Rightarrow> canvas \<Rightarrow> bool" where
  "canvas_ok lay g c \<longleftrightarrow> length (cv_row c) = g_rowlen g
     \<and> length (cv_bitmap c) = unat (l_video_y lay) * g_bpl g
     \<and> (l_rotate90 lay \<longrightarrow> length (cv_gray c) = unat (g_src_h g) * unat (g_src_w g))"

lemma row_bits_take: "unat (l_video_x lay) \<le> n \<Longrightarrow> row_bits lay opt (take n row) d = row_bits lay opt row d"
  by (simp add: row_bits_def halftone_row_def min_absorb1)

lemma row_bits_length:
  assumes "geometry_ok hdr lay g" "unat (l_video_x lay) \<le> length row"
  shows "length (row_bits lay opt row d) = g_bpl g"
proof -
  have lay: "layout_wf lay" "g_bpl g = unat (l_video_x lay) * unat (l_depth lay) div 8"
    using assms(1) by (simp_all add: geometry_ok_def)
  then have "unat (l_depth lay) = 1 \<or> unat (l_depth lay) = 2" "unat (l_video_x lay) mod 8 = 0"
    by (auto simp: layout_wf_def)
  from halftone_row_length [OF refl this assms(2), of d "j_negative opt"] show ?thesis
    by (simp add: row_bits_def lay(2))
qed

lemma turned_target:
  assumes "y < unat (g_src_h g)"
  shows "turned_row opt g ls (target opt g y) = (if j_rotate180 opt then rev (source_row g ls y) else source_row g ls y)"
    "target opt g y < unat (g_src_h g)"
  using assms by (auto simp: turned_row_def target_def)

lemma target_inj: "y < unat (g_src_h g) \<Longrightarrow> y' < unat (g_src_h g) \<Longrightarrow> target opt g y = target opt g y' \<Longrightarrow> y = y'"
  by (auto simp: target_def split: if_splits)

lemma place_row_done:
  fixes opt :: job_options
  assumes g: "geometry_ok hdr lay g" and c: "canvas_ok lay g c" and y: "y < unat (g_src_h g)"
    and row: "take (unat (g_src_w g)) (cv_row c) = source_row g ls y" "length (source_row g ls y) = unat (g_src_w g)"
  defines "c' \<equiv> place_row lay opt g y c"
  shows "canvas_ok lay g c'"
    "take (unat (g_src_w g)) (cv_row c') = turned_row opt g ls (target opt g y)"
    "d < unat (g_src_h g) \<Longrightarrow> row_done lay opt g ls' c' d \<longleftrightarrow>
       (if d = target opt g y then row_done lay opt g ls' c' d else row_done lay opt g ls' c d)"
    "row_done lay opt g ls c' (target opt g y)"
proof -
  let ?w = "unat (g_src_w g)" and ?h = "unat (g_src_h g)"
  have w: "0 < ?w" "?w \<le> length (cv_row c)" "unat (g_src_w g - 1) = ?w - 1"
  proof -
    from g have "0 < ?w \<and> ?w \<le> g_rowlen g" unfolding geometry_ok_def by blast
    with c show "0 < ?w" "?w \<le> length (cv_row c)" unfolding canvas_ok_def by simp_all
    then show "unat (g_src_w g - 1) = ?w - 1" by (simp add: unat_gt_0 unat_minus_one)
  qed
  define row' where "row' = (if j_rotate180 opt then swap_ends 0 (?w - 1) (cv_row c) else cv_row c)"
  have row': "length row' = length (cv_row c)" "take ?w row' = turned_row opt g ls (target opt g y)"
    using swap_ends_rev [OF w(1,2)] turned_target(1) [OF y, where opt = opt and ls = ls] row w(2)
    by (auto simp: row'_def min_absorb2)
  have c': "c' = (if l_rotate90 lay then c\<lparr>cv_row := row', cv_gray := poke (cv_gray c) (target opt g y * ?w) (take ?w row')\<rparr>
      else c\<lparr>cv_row := row', cv_bitmap := poke (cv_bitmap c) (target opt g y * g_bpl g) (row_bits lay opt row' (target opt g y))\<rparr>)"
    by (simp add: c'_def place_row_def Let_def row'_def w(3) target_def row_bits_def)
  have t: "target opt g y < ?h" using turned_target(2) [OF y] .
  have len: "length (turned_row opt g ls (target opt g y)) = ?w"
    using turned_target(1) [OF y, where opt = opt and ls = ls] row(2) by simp
  show "take ?w (cv_row c') = turned_row opt g ls (target opt g y)"
    using row'(2) by (simp add: c')
  have main: "canvas_ok lay g c' \<and> row_done lay opt g ls c' (target opt g y)
      \<and> (d < ?h \<longrightarrow> d \<noteq> target opt g y \<longrightarrow> row_done lay opt g ls' c' d = row_done lay opt g ls' c d)"
  proof (cases "l_rotate90 lay")
    case True
    have gl: "length (cv_gray c) = ?h * ?w" using c True by (simp add: canvas_ok_def)
    note s = slice_poke [OF gl t _ , of _ "take ?w row'"]
    have bl: "length (take ?w row') = ?w" using len row'(2) by simp
    show ?thesis
      using True c row' bl t s [OF t bl] s [OF _ bl, of d] row_room [OF t, of ?w]
      by (auto simp: c' canvas_ok_def row_done_def gl length_poke)
  next
    case False
    have hv: "?h = unat (l_video_y lay)" "?w = unat (l_video_x lay)" using g False by (auto simp: geometry_ok_def)
    have bl: "length (cv_bitmap c) = ?h * g_bpl g" using c hv by (simp add: canvas_ok_def)
    have rb: "length (row_bits lay opt row' (target opt g y)) = g_bpl g"
      by (rule row_bits_length [OF g]) (use row'(1) w(2) hv in simp)
    have same: "row_bits lay opt row' d = row_bits lay opt (turned_row opt g ls (target opt g y)) d" for d
      using row_bits_take [of lay ?w opt row'] hv(2) row'(2) by simp
    note s = slice_poke [OF bl t _ rb]
    show ?thesis
      using False c row' bl t s [OF t] s [of d] row_room [OF t, of "g_bpl g"] rb hv
      by (auto simp: c' canvas_ok_def row_done_def length_poke same)
  qed
  then show "canvas_ok lay g c'" "row_done lay opt g ls c' (target opt g y)"
    "d < ?h \<Longrightarrow> row_done lay opt g ls' c' d \<longleftrightarrow>
       (if d = target opt g y then row_done lay opt g ls' c' d else row_done lay opt g ls' c d)"
    by auto
qed

lemma read_lines_None:
  "read_lines E (unat (cupsBytesPerLine hdr)) (min (unat (cupsHeight hdr)) h - k) r = None \<Longrightarrow> k \<le> h \<Longrightarrow>
   \<not> fst (render_rows E hdr lay opt g [k..<h] c r)"
proof (induction "h - k" arbitrary: k c r)
  case 0
  then show ?case by simp
next
  case (Suc m)
  let ?n = "unat (cupsHeight hdr)" and ?b = "unat (cupsBytesPerLine hdr)"
  have ks: "[k..<h] = k # [Suc k..<h]" using Suc.hyps(2) by (simp add: upt_rec)
  have kn: "k < ?n" using Suc.prems(1) by (cases "k < ?n") auto
  then obtain j where j: "min ?n h - k = Suc j" "min ?n h - Suc k = j" using Suc.hyps(2) by (metis Suc_diff_Suc diff_Suc_Suc less_Suc_eq min_less_iff_conj zero_less_Suc zero_less_diff)
  show ?case
  proof (cases "ras_pixels E ?b r")
    case (Pair px r1)
    show ?thesis
    proof (cases px)
      case None
      with Pair kn show ?thesis by (simp add: ks)
    next
      case (Some p)
      with Suc.prems(1) Pair j have "read_lines E ?b (min ?n h - Suc k) r1 = None" by simp
      from Suc.hyps(1) [OF _ this] Suc.hyps(2) Some Pair kn show ?thesis by (simp add: ks Let_def)
    qed
  qed
qed

text \<open>All rows from \<open>k\<close> on, when the lines are there.\<close>

lemma render_rows_done:
  assumes g: "geometry_ok hdr lay g" and ls: "\<forall>l \<in> set ls. length l = unat (cupsBytesPerLine hdr)"
    "length ls = min (unat (cupsHeight hdr)) (unat (g_src_h g))"
  shows "canvas_ok lay g c \<Longrightarrow> k \<le> unat (g_src_h g) \<Longrightarrow>
    (unat (cupsHeight hdr) < k \<longrightarrow> take (unat (g_src_w g)) (cv_row c) = replicate (unat (g_src_w g)) 0xff) \<Longrightarrow>
    (\<forall>y < k. row_done lay opt g ls c (target opt g y)) \<Longrightarrow>
    read_lines E (unat (cupsBytesPerLine hdr)) (length ls - k) r = Some (drop k ls, r') \<Longrightarrow>
    \<exists>c'. render_rows E hdr lay opt g [k..<unat (g_src_h g)] c r = (True, c', r') \<and> canvas_ok lay g c'
      \<and> (\<forall>y < unat (g_src_h g). row_done lay opt g ls c' (target opt g y))"
proof (induction "unat (g_src_h g) - k" arbitrary: k c r)
  case 0
  then show ?case using ls(2) by auto
next
  case (Suc m)
  let ?n = "unat (cupsHeight hdr)" and ?b = "unat (cupsBytesPerLine hdr)" and ?h = "unat (g_src_h g)" and ?w = "unat (g_src_w g)"
  have k: "k < ?h" using Suc.hyps(2) by simp
  then have ks: "[k..<?h] = k # [Suc k..<?h]" by (simp add: upt_rec)
  have len: "length (source_row g ls y) = ?w" for y using source_row_length [OF g ls(1)] .
  have go: ?case
    if row: "take ?w row = source_row g ls k" "length row = g_rowlen g"
      and step: "render_rows E hdr lay opt g [k..<?h] c r
         = render_rows E hdr lay opt g [Suc k..<?h] (place_row lay opt g k (c\<lparr>cv_row := row\<rparr>)) r1"
      and rest: "read_lines E ?b (length ls - Suc k) r1 = Some (drop (Suc k) ls, r')"
      and white: "?n < Suc k \<Longrightarrow> source_row g ls k = replicate ?w 0xff" for row r1
  proof -
    let ?c = "c\<lparr>cv_row := row\<rparr>"
    have ok: "canvas_ok lay g ?c" using Suc.prems(1) row(2) by (simp add: canvas_ok_def)
    have r: "take ?w (cv_row ?c) = source_row g ls k" using row(1) by simp
    note p = place_row_done [OF g ok k r len, where opt = opt]
    have filled: "row_done lay opt g ls (place_row lay opt g k ?c) (target opt g y)" if "y < Suc k" for y
    proof (cases "y = k")
      case True
      then show ?thesis using p(4) by simp
    next
      case False
      then have y: "y < k" "target opt g y \<noteq> target opt g k" "target opt g y < ?h"
        using that target_inj [of y g k opt] k turned_target(2) [of y g, where opt = opt] by auto
      have "row_done lay opt g ls ?c (target opt g y)"
        using Suc.prems(4) y(1) by (simp add: row_done_def)
      with p(3) [OF y(3), where ls' = ls] y(2) show ?thesis by simp
    qed
    have w: "take ?w (cv_row (place_row lay opt g k ?c)) = replicate ?w 0xff" if "?n < Suc k"
      using p(2) turned_target(1) [OF k, where opt = opt and ls = ls] white [OF that] by simp
    show ?thesis
      unfolding step
      by (rule Suc.hyps(1)) (use Suc.hyps(2) p(1) k w filled rest in auto)
  qed
  show ?case
  proof (cases "k < ?n")
    case True
    have kl: "k < length ls" using True k ls(2) by simp
    then have d: "drop k ls = ls ! k # drop (Suc k) ls" "length ls - k = Suc (length ls - Suc k)"
      by (simp_all add: Cons_nth_drop_Suc Suc_diff_Suc)
    with Suc.prems(5) obtain r1 where r1: "ras_pixels E ?b r = (Some (ls ! k), r1)"
      "read_lines E ?b (length ls - Suc k) r1 = Some (drop (Suc k) ls, r')"
      by (auto split: prod.splits option.splits)
    define row where "row = (let row = poke (cv_row c) 0 (ls ! k) in
       if g_copy_w g < g_rowlen g then memset_at row (g_copy_w g) 0xff (g_rowlen g - g_copy_w g) else row)"
    have cr: "length (cv_row c) = g_rowlen g" using Suc.prems(1) by (simp add: canvas_ok_def)
    have lk: "length (ls ! k) = ?b" using ls(1) kl by simp
    note f = fresh_row [OF g cr lk, folded row_def]
    show ?thesis
    proof (rule go)
      show "take ?w row = source_row g ls k" using f(2) kl by (simp add: source_row_def)
      show "render_rows E hdr lay opt g [k..<?h] c r
         = render_rows E hdr lay opt g [Suc k..<?h] (place_row lay opt g k (c\<lparr>cv_row := row\<rparr>)) r1"
        using True r1(1) by (simp add: ks row_def Let_def)
    qed (use f(1) r1(2) True in auto)
  next
    case False
    have kl: "length ls \<le> k" using False ls(2) by simp
    define row where "row = (if k = ?n then memset_at (cv_row c) 0 0xff (g_rowlen g) else cv_row c)"
    have cr: "length (cv_row c) = g_rowlen g" using Suc.prems(1) by (simp add: canvas_ok_def)
    have wl: "?w \<le> g_rowlen g" using g unfolding geometry_ok_def by blast
    have sr: "source_row g ls k = replicate ?w 0xff" using kl by (simp add: source_row_def)
    show ?thesis
    proof (rule go)
      show "take ?w row = source_row g ls k"
        using Suc.prems(3) False cr wl by (auto simp: sr row_def memset_at_def)
      show "length row = g_rowlen g" using cr by (simp add: row_def memset_at_def)
      show "render_rows E hdr lay opt g [k..<?h] c r
         = render_rows E hdr lay opt g [Suc k..<?h] (place_row lay opt g k (c\<lparr>cv_row := row\<rparr>)) r"
        using False by (simp add: ks row_def Let_def)
      show "read_lines E ?b (length ls - Suc k) r = Some (drop (Suc k) ls, r')"
        using Suc.prems(5) kl by simp
    qed (rule sr)
  qed
qed

text \<open>The quarter turn.\<close>

lemma fold_fill:
  "n \<le> length row \<Longrightarrow> fold (\<lambda>x row. row[x := f x]) [0..<n] row = map f [0..<n] @ drop n row"
proof (induction n)
  case 0
  then show ?case by simp
next
  case (Suc n)
  then have "drop n row = row ! n # drop (Suc n) row" by (simp add: Cons_nth_drop_Suc)
  with Suc show ?case by (simp add: list_update_append)
qed

lemma turn_row_bitmap:
  assumes g: "geometry_ok hdr lay g" "l_rotate90 lay" and c: "canvas_ok lay g c"
    and d: "\<forall>d < unat (g_src_h g). row_done lay opt g ls c d" and y: "y < unat (l_video_y lay)"
  shows "turn_row lay opt g y c = c\<lparr>cv_row := cv_row (turn_row lay opt g y c),
      cv_bitmap := poke (cv_bitmap c) (y * g_bpl g) (row_bits lay opt (sheet_row lay opt g ls y) y)\<rparr>"
    "length (cv_row (turn_row lay opt g y c)) = g_rowlen g"
    "length (row_bits lay opt (sheet_row lay opt g ls y) y) = g_bpl g"
proof -
  let ?x = "unat (l_video_x lay)" and ?w = "unat (g_src_w g)" and ?h = "unat (g_src_h g)"
  define pix where "pix x = cv_gray c ! ((?h - 1 - x) * ?w + y)" for x
  have sz: "?x = ?h" "?w = unat (l_video_y lay)" "?x \<le> g_rowlen g" "length (cv_row c) = g_rowlen g"
    "length (cv_gray c) = ?h * ?w"
    using g c by (auto simp: geometry_ok_def canvas_ok_def)
  have "pix x = turned_row opt g ls (?h - 1 - x) ! y" if "x < ?x" for x
  proof -
    have h: "?h - 1 - x < ?h" using that sz(1) by simp
    have room: "(?h - 1 - x) * ?w + ?w \<le> ?h * ?w" by (rule row_room [OF h])
    have "slice ?w (cv_gray c) (?h - 1 - x) = turned_row opt g ls (?h - 1 - x)"
      using d h g(2) by (simp add: row_done_def)
    moreover have "slice ?w (cv_gray c) (?h - 1 - x) ! y = pix x"
      using y sz room by (simp add: slice_def pix_def)
    ultimately show ?thesis by simp
  qed
  then have sheet: "sheet_row lay opt g ls y = map pix [0..<?x]"
    using g(2) by (simp add: sheet_row_def)
  define row where "row = fold (\<lambda>x row. row[x := pix x]) [0..<?x] (cv_row c)"
  have row: "row = map pix [0..<?x] @ drop ?x (cv_row c)"
    unfolding row_def by (rule fold_fill) (use sz in simp)
  have bits: "row_bits lay opt row y = row_bits lay opt (sheet_row lay opt g ls y) y"
    using row_bits_take [of lay ?x opt row y] by (simp add: row sheet)
  show eq: "turn_row lay opt g y c = c\<lparr>cv_row := cv_row (turn_row lay opt g y c),
      cv_bitmap := poke (cv_bitmap c) (y * g_bpl g) (row_bits lay opt (sheet_row lay opt g ls y) y)\<rparr>"
    unfolding bits [symmetric] by (simp add: turn_row_def Let_def row_def pix_def row_bits_def)
  show "length (cv_row (turn_row lay opt g y c)) = g_rowlen g"
  proof -
    have "cv_row (turn_row lay opt g y c) = row" by (simp add: turn_row_def Let_def row_def pix_def)
    with row sz show ?thesis by simp
  qed
  show "length (row_bits lay opt (sheet_row lay opt g ls y) y) = g_bpl g"
    by (rule row_bits_length [OF g(1)]) (simp add: sheet)
qed

lemma turn_rows_bitmap:
  assumes g: "geometry_ok hdr lay g" "l_rotate90 lay" and c: "canvas_ok lay g c"
    and d: "\<forall>d < unat (g_src_h g). row_done lay opt g ls c d"
  shows "n \<le> unat (l_video_y lay) \<Longrightarrow>
    canvas_ok lay g (fold (turn_row lay opt g) [0..<n] c)
    \<and> cv_gray (fold (turn_row lay opt g) [0..<n] c) = cv_gray c
    \<and> (\<forall>y < n. slice (g_bpl g) (cv_bitmap (fold (turn_row lay opt g) [0..<n] c)) y
         = row_bits lay opt (sheet_row lay opt g ls y) y)"
proof (induction n)
  case 0
  then show ?case using c by simp
next
  case (Suc n)
  define c1 where "c1 = fold (turn_row lay opt g) [0..<n] c"
  have c1: "canvas_ok lay g c1" "cv_gray c1 = cv_gray c"
    "\<forall>y < n. slice (g_bpl g) (cv_bitmap c1) y = row_bits lay opt (sheet_row lay opt g ls y) y"
    using Suc by (simp_all add: c1_def)
  have d1: "\<forall>d < unat (g_src_h g). row_done lay opt g ls c1 d"
    using d c1(2) g(2) by (simp add: row_done_def)
  have n: "n < unat (l_video_y lay)" using Suc.prems by simp
  note t = turn_row_bitmap [OF g c1(1) d1 n]
  have bl: "length (cv_bitmap c1) = unat (l_video_y lay) * g_bpl g" using c1(1) by (simp add: canvas_ok_def)
  have "slice (g_bpl g) (poke (cv_bitmap c1) (n * g_bpl g) (row_bits lay opt (sheet_row lay opt g ls n) n)) y
      = row_bits lay opt (sheet_row lay opt g ls y) y" if "y < Suc n" for y
    using slice_poke [OF bl n _ t(3), of y] that c1(3) n by (auto simp: less_Suc_eq)
  moreover have "cv_bitmap (turn_row lay opt g n c1)
      = poke (cv_bitmap c1) (n * g_bpl g) (row_bits lay opt (sheet_row lay opt g ls n) n)"
    "cv_gray (turn_row lay opt g n c1) = cv_gray c1"
    by (subst t(1), simp)+
  moreover have "canvas_ok lay g (turn_row lay opt g n c1)"
    using c1(1) t(2,3) calculation(2,3) row_room [OF n, of "g_bpl g"] by (simp add: canvas_ok_def length_poke)
  ultimately show ?case using c1(2) by (simp add: c1_def)
qed

lemma turn_page_bitmap:
  assumes g: "geometry_ok hdr lay g" and c: "canvas_ok lay g c"
    and d: "\<forall>d < unat (g_src_h g). row_done lay opt g ls c d"
  shows "cv_bitmap (turn_page lay opt g c) = page_bitmap lay opt g ls"
proof -
  let ?v = "unat (l_video_y lay)"
  have "\<exists>c'. turn_page lay opt g c = c' \<and> canvas_ok lay g c' \<and>
      (\<forall>y < ?v. slice (g_bpl g) (cv_bitmap c') y = row_bits lay opt (sheet_row lay opt g ls y) y)"
  proof (cases "l_rotate90 lay")
    case True
    with turn_rows_bitmap [OF g True c d order_refl] show ?thesis by (simp add: turn_page_def)
  next
    case False
    moreover have "unat (g_src_h g) = ?v" using g False by (auto simp: geometry_ok_def)
    ultimately show ?thesis using c d by (auto simp: turn_page_def row_done_def sheet_row_def)
  qed
  then obtain c' where c': "turn_page lay opt g c = c'" "canvas_ok lay g c'"
    "\<And>y. y < ?v \<Longrightarrow> slice (g_bpl g) (cv_bitmap c') y = row_bits lay opt (sheet_row lay opt g ls y) y" by blast
  then have l: "length (cv_bitmap c') = ?v * g_bpl g" by (simp add: canvas_ok_def)
  show ?thesis
    using slices_whole [OF l c'(3)] c'(1) by (simp add: page_bitmap_def row_bits_def)
qed


section \<open>A rendered page\<close>

lemma raster_okD:
  "raster_ok E \<Longrightarrow> ras_pixels E n r = (Some px, r') \<Longrightarrow> length px = n"
  "raster_ok E \<Longrightarrow> heap E n r = (Some px, r') \<Longrightarrow> length px = n"
  unfolding raster_ok_def by blast+

lemma read_lines_length:
  "read_lines E n k r = Some (ls, r') \<Longrightarrow> raster_ok E \<Longrightarrow> length ls = k \<and> (\<forall>l \<in> set ls. length l = n)"
proof (induction k arbitrary: r ls)
  case 0
  then show ?case by simp
next
  case (Suc k)
  from Suc.prems(1) obtain px r1 ls1 where r1: "ras_pixels E n r = (Some px, r1)"
    "read_lines E n k r1 = Some (ls1, r')" "ls = px # ls1"
    by (auto split: prod.splits option.splits)
  with Suc.IH [OF r1(2) Suc.prems(2)] raster_okD(1) [OF Suc.prems(2)] show ?case by auto
qed

text \<open>Nothing fails: every block is granted and the encoder produces at least its header;
  every line comes.\<close>

definition no_shortage :: "'r print_env \<Rightarrow> bool" where
  "no_shortage E \<longleftrightarrow> (\<forall>n r. fst (heap E n r) \<noteq> None) \<and> (\<forall>w h b. JBIG_BIH_LEN \<le> length (concat (jbig E w h b)))"

definition never_fails :: "'r print_env \<Rightarrow> bool" where
  "never_fails E \<longleftrightarrow> (\<forall>n r. fst (ras_pixels E n r) \<noteq> None) \<and> no_shortage E"

lemma no_shortageD:
  assumes "no_shortage E"
  obtains "\<And>n r. \<exists>b r'. heap E n r = (Some b, r')" "\<And>w h b. JBIG_BIH_LEN \<le> length (concat (jbig E w h b))"
proof (rule that)
  show "\<exists>b r'. heap E n r = (Some b, r')" for n r
    using assms unfolding no_shortage_def by (metis not_None_eq prod.collapse)
  show "JBIG_BIH_LEN \<le> length (concat (jbig E w h b))" for w h b
    using assms by (simp add: no_shortage_def)
qed

lemma jbig_collect_grows:
  "no_shortage E \<Longrightarrow> \<not> buf_failed b \<Longrightarrow> \<not> buf_failed (fst (jbig_collect E ps b r))"
proof (induction ps arbitrary: b r)
  case Nil
  then show ?case by simp
next
  case (Cons p ps)
  obtain b1 r1 where a: "buf_append E b p r = (b1, r1)" by (metis surj_pair)
  obtain block r2 where "heap E (double_up (if buf_cap b \<noteq> 0 then buf_cap b else 65536)
      (length (buf_data b) + length p)) r = (Some block, r2)"
    using no_shortageD [OF Cons.prems(1)] by metis
  with a Cons.prems(2) have "\<not> buf_failed b1"
    by (simp add: buf_append_def Let_def split: if_splits) auto
  with Cons a show ?case by simp
qed

lemma finish_page_works:
  assumes "no_shortage E" "reliable fp"
  shows "fst (finish_page E hdr lay opt bitmap w h fp r)"
proof -
  obtain ok bie r1 where c: "jbig_compress E empty_buf bitmap (w * l_depth lay) h r = (ok, bie, r1)"
    by (rule prod_cases3)
  obtain b r2 where b: "jbig_collect E (jbig E (w * l_depth lay) h bitmap) empty_buf r = (b, r2)" by (metis surj_pair)
  have "\<not> buf_failed b" using jbig_collect_grows [OF assms(1), of empty_buf] b by (metis empty_buf_def buf.select_convs(3) fst_conv)
  moreover have "buf_data b = concat (jbig E (w * l_depth lay) h bitmap)"
    using jbig_collect_result [OF b] calculation by (simp add: buf_ok_def empty_buf_def)
  ultimately have ok: ok
    using assms(1) b c by (auto simp: jbig_compress_def no_shortage_def not_less)
  obtain ok' fp' where e: "emit_page hdr lay opt (buf_data bie) fp = (ok', fp')" by (metis surj_pair)
  from appends_sound [OF emit_page_emits e assms(2)] have ok' by simp
  with c e ok show ?thesis by (simp add: finish_page_def)
qed

lemma render_rows_work: "never_fails E \<Longrightarrow> fst (render_rows E hdr lay opt g ys c r)"
proof (induction ys arbitrary: c r)
  case Nil
  then show ?case by simp
next
  case (Cons y ys)
  obtain px r1 where p: "ras_pixels E (unat (cupsBytesPerLine hdr)) r = (Some px, r1)"
    using Cons.prems unfolding never_fails_def by (metis not_None_eq prod.collapse)
  from Cons p show ?case by (simp add: Let_def)
qed

lemma render_page_works:
  assumes "never_fails E" "reliable fp"
  shows "fst (render_page E hdr opt fp r)"
proof -
  have h: "\<exists>b r'. heap E n r = (Some b, r')" for n r
    using assms(1) no_shortageD unfolding never_fails_def by metis
  define lay where "lay = page_layout hdr opt"
  define g where "g = page_geometry hdr lay"
  obtain bitmap r0 where 0: "heap E (g_bpl g * unat (l_video_y lay)) r = (Some bitmap, r0)" using h by blast
  obtain row r1 where 1: "heap E (g_rowlen g) r0 = (Some row, r1)" using h by blast
  obtain gray r2 where 2:
    "(if l_rotate90 lay then heap E (unat (g_src_w g) * unat (g_src_h g)) r1 else (Some [], r1)) = (Some gray, r2)"
    using h [of "unat (g_src_w g) * unat (g_src_h g)" r1] by (cases "l_rotate90 lay") auto
  define c where "c = \<lparr>cv_row = memset_at row 0 0xff (g_rowlen g), cv_gray = gray, cv_bitmap = bitmap\<rparr>"
  obtain c' r3 where 3: "render_rows E hdr lay opt g [0..<unat (g_src_h g)] c r2 = (True, c', r3)"
    using render_rows_work [OF assms(1)] by (metis (full_types) prod_cases3 fst_conv)
  have "no_shortage E" using assms(1) by (simp add: never_fails_def)
  note works = finish_page_works [OF this assms(2)]
  show ?thesis
    unfolding render_page_def lay_def [symmetric] g_def [symmetric] Let_def
    using 0 1 2 3 works by (simp add: c_def)
qed

lemma render_page_result:
  assumes env: "raster_ok E" and hdr: "header_supported hdr"
    and run: "render_page E hdr opt fp r = (ok, fp', r')"
  defines "lay \<equiv> page_layout hdr opt"
  defines "g \<equiv> page_geometry hdr lay"
  shows "ok \<Longrightarrow> \<exists>lines r1 r2. read_lines E (unat (cupsBytesPerLine hdr)) (min (unat (cupsHeight hdr)) (unat (g_src_h g))) r1
        = Some (lines, r2)
    \<and> file_data fp' = file_data fp @ stream_bytes (page_chunks hdr lay opt
        (page_image E lay (page_bitmap lay opt g lines) (l_video_x lay) (l_video_y lay)))"
    "never_fails E \<Longrightarrow> reliable fp \<Longrightarrow> ok"
proof -
  show "never_fails E \<Longrightarrow> reliable fp \<Longrightarrow> ok" using render_page_works run by (metis fst_conv)
  assume succ: ok
  let ?b = "unat (cupsBytesPerLine hdr)" and ?n = "min (unat (cupsHeight hdr)) (unat (g_src_h g))"
  have g: "geometry_ok hdr lay g" using page_geometry_ok [OF hdr] by (simp add: lay_def g_def)
  obtain bitmap row gray r0 r1 r2 where m: "heap E (g_bpl g * unat (l_video_y lay)) r = (Some bitmap, r0)"
    "heap E (g_rowlen g) r0 = (Some row, r1)"
    "(if l_rotate90 lay then heap E (unat (g_src_w g) * unat (g_src_h g)) r1 else (Some [], r1)) = (Some gray, r2)"
    using run succ unfolding render_page_def lay_def [symmetric] g_def [symmetric] Let_def
    by (auto split: prod.splits if_splits)
  define c where "c = \<lparr>cv_row = memset_at row 0 0xff (g_rowlen g), cv_gray = gray, cv_bitmap = bitmap\<rparr>"
  have sizes: "length bitmap = g_bpl g * unat (l_video_y lay)" "length row = g_rowlen g"
    "l_rotate90 lay \<longrightarrow> length gray = unat (g_src_w g) * unat (g_src_h g)"
    using raster_okD(2) [OF env] m by (auto split: if_splits)
  then have ok: "canvas_ok lay g c" by (auto simp: canvas_ok_def c_def memset_at_def mult.commute)
  obtain good c1 r3 where rows: "render_rows E hdr lay opt g [0..<unat (g_src_h g)] c r2 = (good, c1, r3)"
    by (rule prod_cases3)
  have run': "good \<and> finish_page E hdr lay opt (cv_bitmap (turn_page lay opt g c1)) (l_video_x lay) (l_video_y lay) fp
      (drain_rows E ?b (unat (cupsHeight hdr) - unat (g_src_h g)) r3) = (True, fp', r')"
    using run succ m rows unfolding render_page_def lay_def [symmetric] g_def [symmetric] Let_def c_def
    by (auto split: if_splits)
  have "read_lines E ?b ?n r2 = None \<Longrightarrow> \<not> good"
    using read_lines_None [of E hdr "unat (g_src_h g)" 0 r2 lay opt g c] rows by simp
  then obtain ls r4 where ls: "read_lines E ?b ?n r2 = Some (ls, r4)" using run' by (metis not_None_eq surj_pair)
  note l = read_lines_length [OF ls env]
  have "\<exists>c'. render_rows E hdr lay opt g [0..<unat (g_src_h g)] c r2 = (True, c', r4) \<and> canvas_ok lay g c'
      \<and> (\<forall>y < unat (g_src_h g). row_done lay opt g ls c' (target opt g y))"
    by (rule render_rows_done [OF g]) (use l ok ls in auto)
  with rows have c1: "canvas_ok lay g c1" "\<forall>y < unat (g_src_h g). row_done lay opt g ls c1 (target opt g y)" by auto
  have "row_done lay opt g ls c1 d" if "d < unat (g_src_h g)" for d
  proof -
    have "target opt g (target opt g d) = d" "target opt g d < unat (g_src_h g)" using that by (auto simp: target_def)
    with c1(2) show ?thesis by metis
  qed
  then have "cv_bitmap (turn_page lay opt g c1) = page_bitmap lay opt g ls"
    using turn_page_bitmap [OF g c1(1)] by blast
  with run' have "file_data fp' = file_data fp @ stream_bytes (page_chunks hdr lay opt
      (page_image E lay (page_bitmap lay opt g ls) (l_video_x lay) (l_video_y lay)))"
    using finish_page_result [of E hdr lay opt "page_bitmap lay opt g ls"] by metis
  with ls show "\<exists>lines r1 r2. read_lines E ?b ?n r1 = Some (lines, r2)
    \<and> file_data fp' = file_data fp @ stream_bytes (page_chunks hdr lay opt
        (page_image E lay (page_bitmap lay opt g lines) (l_video_x lay) (l_video_y lay)))" by blast
qed


text \<open>Two black lines of 100 pixels on a custom page.\<close>

definition demo_env :: "nat print_env" where
  "demo_env = \<lparr>ras_header = (\<lambda>r. (if 0 < r then Some (zero_header\<lparr>cupsWidth := 100, cupsHeight := 2, cupsBitsPerPixel := 8,
       cupsBytesPerLine := 100, PageSize0 := 72, PageSize1 := 36, cupsColorSpace := CUPS_CSPACE_SW\<rparr>) else None, r - 1)),
     ras_pixels = (\<lambda>n r. (Some (replicate n 0), r)), job_cancelled = (\<lambda>r. (False, r)),
     heap = (\<lambda>n r. (Some (replicate n 7), r)), jbig = (\<lambda>w h b. [replicate 20 1, b]), io_ok = (\<lambda>r. (True, r)), tmp_file = (\<lambda>r. (Some empty_file, r))\<rparr>"

lemma demo_env_fine: "raster_ok demo_env" "never_fails demo_env"
  by (simp_all add: raster_ok_def never_fails_def no_shortage_def demo_env_def JBIG_BIH_LEN_def)


end
