(* ===== verification/Spool_Laws.thy ===== *)
theory Spool_Laws
  imports Render_Laws
begin

text \<open>
  The spools of the manual duplex path: what a spool holds, that a marked page is read back byte
  for byte, and what the copies of a row of pages leave on the output. A spool's slots are the
  running offsets of the pages in its file.
\<close>

section \<open>What a spool holds\<close>

fun slots_from :: "nat \<Rightarrow> byte list list \<Rightarrow> (nat \<times> nat) list" where
  "slots_from off [] = []"
| "slots_from off (p # ps) = (off, length p) # slots_from (off + length p) ps"

text \<open>The marked pages, and behind them what a page that was not marked left.\<close>

definition spool_holds :: "spool \<Rightarrow> byte list list \<Rightarrow> byte list \<Rightarrow> bool" where
  "spool_holds sp ps tail \<longleftrightarrow> file_data (sp_file sp) = concat ps @ tail \<and> sp_slots sp = slots_from 0 ps"

lemma length_slots [simp]: "length (slots_from off ps) = length ps"
  by (induction ps arbitrary: off) simp_all

lemma slots_append: "slots_from off (ps @ qs) = slots_from off ps @ slots_from (off + length (concat ps)) qs"
  by (induction ps arbitrary: off) (simp_all add: add.assoc)

lemma slots_nth: "i < length ps \<Longrightarrow> slots_from off ps ! i = (off + length (concat (take i ps)), length (ps ! i))"
  by (induction ps arbitrary: off i) (auto simp: nth_Cons split: nat.splits)

lemma spool_holds_count: "spool_holds sp ps tail \<Longrightarrow> length (sp_slots sp) = length ps"
  by (simp add: spool_holds_def)

lemma no_spool_holds: "spool_holds no_spool [] []"
  by (simp add: spool_holds_def no_spool_def empty_file_def)

lemma spool_mark_holds:
  assumes "spool_mark E (length (concat ps)) sp r = (ok, sp', r')" "spool_holds sp ps tail"
  shows "sp_file sp' = sp_file sp" "ok \<Longrightarrow> spool_holds sp' (ps @ [tail]) []" "\<not> ok \<Longrightarrow> sp' = sp"
  using assms
  by (auto simp: spool_mark_def ftell_def spool_holds_def Let_def slots_append split: prod.splits option.splits if_splits)

section \<open>Reading back\<close>

lemma fwrite_result:
  "fwrite bs fp = (ok, fp') \<Longrightarrow> ok \<Longrightarrow> file_data fp' = file_data fp @ bs"
  "fwrite bs fp = (ok, fp') \<Longrightarrow> reliable fp \<Longrightarrow> ok \<and> reliable fp'"
  by (auto simp: fwrite_def reliable_def split: list.splits if_splits)

lemma copy_loop_result:
  "copy_loop E data pos left fp r = (ok, fp', r') \<Longrightarrow>
     (ok \<longrightarrow> file_data fp' = file_data fp @ take left (drop pos data)) \<and> (reliable fp \<longrightarrow> reliable fp')"
proof (induction E data pos left fp r rule: copy_loop.induct)
  case (1 E data pos left fp r)
  show ?case
  proof (cases "left = 0")
    case True
    with 1(2) show ?thesis by (simp add: copy_loop.simps)
  next
    case False
    define want where "want = (if 65536 < left then 65536 else left)"
    define chunk where "chunk = take want (drop pos data)"
    obtain io r1 where io: "io_ok E r = (io, r1)" by (metis surj_pair)
    obtain w fp1 where w: "fwrite chunk fp = (w, fp1)" by (metis surj_pair)
    have unfold: "copy_loop E data pos left fp r =
        (if \<not> io \<or> length chunk \<noteq> want then (False, fp, r1) else if \<not> w then (False, fp1, r1)
         else copy_loop E data (pos + want) (left - want) fp1 r1)"
      using False io w by (subst copy_loop.simps) (simp add: want_def chunk_def Let_def)
    show ?thesis
    proof (cases "io \<and> length chunk = want \<and> w")
      case False
      with 1(2) unfold fwrite_result(2) [OF w] show ?thesis by (auto split: if_splits)
    next
      case True
      then have rec: "copy_loop E data (pos + want) (left - want) fp1 r1 = (ok, fp', r')"
        using 1(2) unfold by simp
      have "(ok \<longrightarrow> file_data fp' = file_data fp1 @ take (left - want) (drop (pos + want) data))
          \<and> (reliable fp1 \<longrightarrow> reliable fp')"
        by (rule "1.IH" [OF False want_def chunk_def io [symmetric] _ w [symmetric] _ rec]) (use True in auto)
      moreover have "take left (drop pos data) = chunk @ take (left - want) (drop (pos + want) data)"
      proof -
        have "left = want + (left - want)" by (simp add: want_def)
        then have "take left (drop pos data) = take (want + (left - want)) (drop pos data)" by simp
        also have "\<dots> = chunk @ take (left - want) (drop (pos + want) data)"
          by (simp only: take_add chunk_def drop_drop add.commute)
        finally show ?thesis .
      qed
      ultimately show ?thesis using True fwrite_result [OF w] by auto
    qed
  qed
qed

lemma spool_copy_result:
  assumes "spool_copy E sp i fp r = (ok, fp', r')" "spool_holds sp ps tail" "i < length ps"
  shows "ok \<Longrightarrow> file_data fp' = file_data fp @ ps ! i" "reliable fp \<Longrightarrow> reliable fp'"
proof -
  obtain io r1 where io: "io_ok E r = (io, r1)" by (metis surj_pair)
  have slot: "sp_slots sp ! i = (length (concat (take i ps)), length (ps ! i))"
    using assms(2,3) slots_nth [of i ps 0] by (simp add: spool_holds_def)
  have "ps = take i ps @ ps ! i # drop (Suc i) ps" using assms(3) by (simp add: id_take_nth_drop)
  then have "concat ps = concat (take i ps) @ ps ! i @ concat (drop (Suc i) ps)"
    by (metis concat.simps(2) concat_append)
  then have page: "take (length (ps ! i)) (drop (length (concat (take i ps))) (file_data (sp_file sp))) = ps ! i"
    using assms(2) by (simp add: spool_holds_def)
  show "ok \<Longrightarrow> file_data fp' = file_data fp @ ps ! i" "reliable fp \<Longrightarrow> reliable fp'"
    using assms(1) slot io copy_loop_result [of E "file_data (sp_file sp)" "length (concat (take i ps))" "length (ps ! i)" fp r1]
    by (auto simp: spool_copy_def page split: if_splits)
qed

text \<open>Pages copied in any order.\<close>

lemma copy_pages_result:
  "copy_pages E sp is fp r = (ok, fp', r') \<Longrightarrow> spool_holds sp ps tail \<Longrightarrow> set is \<subseteq> {..<length ps} \<Longrightarrow>
   (ok \<longrightarrow> file_data fp' = file_data fp @ concat (map ((!) ps) is)) \<and> (reliable fp \<longrightarrow> reliable fp')"
proof (induction "is" arbitrary: fp r)
  case Nil
  then show ?case by simp
next
  case (Cons i "is")
  obtain ok1 fp1 r1 where c: "spool_copy E sp i fp r = (ok1, fp1, r1)" by (rule prod_cases3)
  with spool_copy_result [OF c Cons.prems(2)] Cons.IH [of fp1 r1] Cons.prems show ?case
    by (auto split: if_splits)
qed

text \<open>On a disk and an output that take everything no copy fails.\<close>

definition io_fine :: "'r print_env \<Rightarrow> bool" where
  "io_fine E \<longleftrightarrow> (\<forall>r. fst (io_ok E r))"

lemma copy_loop_works:
  "io_fine E \<Longrightarrow> reliable fp \<Longrightarrow> pos + left \<le> length data \<Longrightarrow> fst (copy_loop E data pos left fp r)"
proof (induction E data pos left fp r rule: copy_loop.induct)
  case (1 E data pos left fp r)
  show ?case
  proof (cases "left = 0")
    case True
    then show ?thesis by (simp add: copy_loop.simps)
  next
    case False
    define want where "want = (if 65536 < left then 65536 else left)"
    define chunk where "chunk = take want (drop pos data)"
    obtain io r1 where io: "io_ok E r = (io, r1)" by (metis surj_pair)
    obtain w fp1 where w: "fwrite chunk fp = (w, fp1)" by (metis surj_pair)
    have ok: io w "reliable fp1" "length chunk = want" "want \<le> left"
      using 1(2-4) io fwrite_result(2) [OF w] by (auto simp: io_fine_def want_def chunk_def dest: spec [of _ r])
    then have unfold: "copy_loop E data pos left fp r = copy_loop E data (pos + want) (left - want) fp1 r1"
      using False io w by (subst copy_loop.simps) (simp add: want_def chunk_def Let_def)
    have "fst (copy_loop E data (pos + want) (left - want) fp1 r1)"
      by (rule "1.IH" [OF False want_def chunk_def io [symmetric] _ w [symmetric]]) (use ok 1(2-4) in auto)
    then show ?thesis by (simp add: unfold)
  qed
qed

lemma spool_copy_works:
  assumes "io_fine E" "reliable fp" "spool_holds sp ps tail" "i < length ps"
  shows "fst (spool_copy E sp i fp r)"
proof -
  obtain io r1 where io: "io_ok E r = (io, r1)" by (metis surj_pair)
  have io': io using assms(1) io unfolding io_fine_def by (metis fst_conv)
  have "ps = take i ps @ ps ! i # drop (Suc i) ps" using assms(4) by (simp add: id_take_nth_drop)
  then have "length (concat ps) = length (concat (take i ps)) + length (ps ! i) + length (concat (drop (Suc i) ps))"
    by (metis concat.simps(2) concat_append length_append add.assoc)
  then have "length (concat (take i ps)) + length (ps ! i) \<le> length (file_data (sp_file sp))"
    using assms(3) by (simp add: spool_holds_def)
  with io io' copy_loop_works [OF assms(1,2)] show ?thesis
    using assms(3,4) slots_nth [OF assms(4), of 0] by (simp add: spool_copy_def spool_holds_def)
qed

lemma copy_pages_works:
  "io_fine E \<Longrightarrow> reliable fp \<Longrightarrow> spool_holds sp ps tail \<Longrightarrow> set is \<subseteq> {..<length ps} \<Longrightarrow> fst (copy_pages E sp is fp r)"
proof (induction "is" arbitrary: fp r)
  case Nil
  then show ?case by simp
next
  case (Cons i "is")
  obtain ok1 fp1 r1 where c: "spool_copy E sp i fp r = (ok1, fp1, r1)" by (rule prod_cases3)
  with spool_copy_result [OF c Cons.prems(3)] spool_copy_works [OF Cons.prems(1,2,3), of i r] Cons show ?case
    by simp
qed

section \<open>Round trip\<close>

text \<open>Pages written to a spool one after the other and marked.\<close>

fun spool_all :: "'r print_env \<Rightarrow> byte list list \<Rightarrow> spool \<Rightarrow> 'r \<Rightarrow> bool \<times> spool \<times> 'r" where
  "spool_all E [] sp r = (True, sp, r)"
| "spool_all E (p # ps) sp r =
     (case ftell E (sp_file sp) r of
        (None, r) \<Rightarrow> (False, sp, r)
      | (Some start, r) \<Rightarrow>
          (case fwrite p (sp_file sp) of (ok, fp) \<Rightarrow>
           if \<not> ok then (False, sp\<lparr>sp_file := fp\<rparr>, r)
           else case spool_mark E start (sp\<lparr>sp_file := fp\<rparr>) r of (ok, sp, r) \<Rightarrow>
             if \<not> ok then (False, sp, r) else spool_all E ps sp r))"

lemma spool_all_holds:
  "spool_all E ps sp r = (True, sp', r') \<Longrightarrow> spool_holds sp qs [] \<Longrightarrow> spool_holds sp' (qs @ ps) []"
proof (induction ps arbitrary: sp r qs)
  case Nil
  then show ?case by simp
next
  case (Cons p ps)
  have start: "length (file_data (sp_file sp)) = length (concat qs)" using Cons.prems(2) by (simp add: spool_holds_def)
  from Cons.prems(1) obtain fp sp1 r1 r2 where run: "fwrite p (sp_file sp) = (True, fp)"
    "spool_mark E (length (concat qs)) (sp\<lparr>sp_file := fp\<rparr>) r1 = (True, sp1, r2)" "spool_all E ps sp1 r2 = (True, sp', r')"
    by (auto simp: ftell_def start split: prod.splits option.splits if_splits)
  have "spool_holds (sp\<lparr>sp_file := fp\<rparr>) qs p"
    using fwrite_result(1) [OF run(1)] Cons.prems(2) by (simp add: spool_holds_def)
  from spool_mark_holds(2) [OF run(2) this] have "spool_holds sp1 (qs @ [p]) []" by simp
  from Cons.IH [OF run(3) this] show ?case by simp
qed

text \<open>
  C22. Pages come back from a spool byte for byte. After any row of pages has been written to
  a fresh spool and each has been marked, copying page number i appends exactly its bytes to the
  output, and copying a list of pages appends them in the order of the list; on an output that
  takes everything and a spool that can be read, the copy does not fail.
\<close>

theorem spool_round_trip:
  assumes "spool_all E ps no_spool r = (True, sp, r')" "set is \<subseteq> {..<length ps}"
    "copy_pages E sp is fp r' = (ok, fp', r'')"
  shows "(ok \<longrightarrow> file_data fp' = file_data fp @ concat (map ((!) ps) is)) \<and> (io_fine E \<and> reliable fp \<longrightarrow> ok)"
proof -
  have "spool_holds sp ps []" using spool_all_holds [OF assms(1) no_spool_holds] by simp
  with copy_pages_result [OF assms(3) _ assms(2)] copy_pages_works [of E fp sp ps "[]" "is" r'] assms(2,3)
  show ?thesis by auto
qed

theorem spool_round_trip_witness:
  "\<exists>sp fp' r'. spool_all demo_env [[1, 2], [], [3]] no_spool 0 = (True, sp, 0)
     \<and> copy_pages demo_env sp [2, 1, 0] empty_file 0 = (True, fp', r') \<and> file_data fp' = [3, 1, 2]"
proof -
  obtain sp where sp: "spool_all demo_env [[1, 2], [], [3]] no_spool 0 = (True, sp, 0)"
    by (simp add: ftell_def fwrite_def spool_mark_def demo_env_def no_spool_def empty_file_def Let_def)
  obtain ok fp' r' where c: "copy_pages demo_env sp [2, 1, 0] empty_file 0 = (ok, fp', r')" by (rule prod_cases3)
  have "set [2, 1, 0] \<subseteq> {..<length [[1, 2], [], [3 :: byte]]}" "io_fine demo_env" "reliable empty_file"
    by (auto simp: io_fine_def demo_env_def reliable_def empty_file_def)
  with spool_round_trip [OF sp _ c] have "ok" "file_data fp' = [3, 1, 2]" by (auto simp: empty_file_def)
  with sp c show ?thesis by (intro exI [of _ sp] exI [of _ fp'] exI [of _ r']) simp
qed

end
