(* ===== verification/Filter_Laws.thy ===== *)
theory Filter_Laws
  imports Spool_Laws
begin

text \<open>
  The print job as a whole: the invariant of the page loop, and what the output stream is when
  the filter ends.
\<close>

section \<open>Pages, accounting and documents\<close>

text \<open>A printed page is its header and its compressed image.\<close>

type_synonym printed = "page_header \<times> byte list"

fun chunks_of :: "job_options \<Rightarrow> printed \<Rightarrow> chunk list" where
  "chunks_of opt (hdr, bie) = page_chunks hdr (page_layout hdr opt) opt bie"

definition page_bytes :: "job_options \<Rightarrow> printed \<Rightarrow> byte list" where
  "page_bytes opt p = stream_bytes (chunks_of opt p)"

text \<open>The image is the halftone of lines the raster reader gave.\<close>

definition image_of :: "'r print_env \<Rightarrow> job_options \<Rightarrow> page_header \<Rightarrow> byte list list \<Rightarrow> byte list" where
  "image_of E opt hdr lines =
     (let lay = page_layout hdr opt in
      page_image E lay (page_bitmap lay opt (page_geometry hdr lay) lines) (l_video_x lay) (l_video_y lay))"

definition sheet_lines :: "job_options \<Rightarrow> page_header \<Rightarrow> nat" where
  "sheet_lines opt hdr = min (unat (cupsHeight hdr)) (unat (g_src_h (page_geometry hdr (page_layout hdr opt))))"

fun rendered :: "'r print_env \<Rightarrow> job_options \<Rightarrow> printed \<Rightarrow> bool" where
  "rendered E opt (hdr, bie) \<longleftrightarrow> header_supported hdr \<and> colour_supported hdr \<and>
     (\<exists>lines r r'. read_lines E (unat (cupsBytesPerLine hdr)) (sheet_lines opt hdr) r = Some (lines, r')
        \<and> bie = image_of E opt hdr lines)"

definition accounting :: "page_header list \<Rightarrow> log_line list" where
  "accounting hdrs = map (\<lambda>i. Log_Page (of_nat (Suc i)) (copies_of (hdrs ! i))) [0..<length hdrs]"

lemma accounting_simps [simp]:
  "accounting [] = []"
  "accounting (hs @ [h]) = accounting hs @ [Log_Page (of_nat (Suc (length hs))) (copies_of h)]"
  by (simp_all add: accounting_def nth_append del: of_nat_Suc)

definition fronts_of :: "'a list \<Rightarrow> 'a list" where "fronts_of ps = nths ps {i. even i}"
definition backs_of :: "'a list \<Rightarrow> 'a list" where "backs_of ps = nths ps {i. odd i}"

lemma sides_append:
  "fronts_of (ps @ [p]) = (if even (length ps) then fronts_of ps @ [p] else fronts_of ps)"
  "backs_of (ps @ [p]) = (if even (length ps) then backs_of ps else backs_of ps @ [p])"
  by (simp_all add: fronts_of_def backs_of_def nths_append)

lemma sides_empty [simp]: "fronts_of [] = []" "backs_of [] = []"
  by (simp_all add: fronts_of_def backs_of_def)

lemma sides_length: "length (fronts_of ps) = (length ps + 1) div 2" "length (backs_of ps) = length ps div 2"
  by (induction ps rule: rev_induct) (auto simp: sides_append)

lemma sides_subset: "set (fronts_of ps) \<subseteq> set ps" "set (backs_of ps) \<subseteq> set ps"
  by (auto simp: fronts_of_def backs_of_def dest: in_set_nthsD)

text \<open>What the printer reads: the wake-up string, the magic, chunks, and the exit string.\<close>

definition parse_document :: "byte list \<Rightarrow> chunk list option" where
  "parse_document bs =
     (let head = UEL @ ZJ_MAGIC; n = length bs - length UEL in
      if take (length head) bs = head \<and> length head \<le> n \<and> drop n bs = UEL
      then parse_stream (drop (length head) (take n bs)) else None)"

definition doc_chunks :: "chunk list \<Rightarrow> chunk list" where
  "doc_chunks body =
     [(ZJT_PANTUM_PARAM, [], pantum_param_blob),
      (ZJT_START_DOC, [item ZJI_PAGECOUNT 0, item ZJI_DMCOLLATE 0, item ZJI_DMDUPLEX ZJ_DMDUPLEX_SIMPLEX], [])]
     @ body @ [(ZJT_END_DOC, [], [])]"

definition prologue_bytes :: "byte list" where
  "prologue_bytes = UEL @ ZJ_MAGIC @ bytes_of (ZJT_PANTUM_PARAM, [], pantum_param_blob)
     @ bytes_of (ZJT_START_DOC, [item ZJI_PAGECOUNT 0, item ZJI_DMCOLLATE 0, item ZJI_DMDUPLEX ZJ_DMDUPLEX_SIMPLEX], [])"

lemma write_prologue_emits: "emits write_prologue prologue_bytes"
proof -
  have split: "write_prologue = (\<lambda>s. case fwrite (UEL @ ZJ_MAGIC) s of (ok, s) \<Rightarrow> if ok then
     (\<lambda>s. case write_chunk ZJT_PANTUM_PARAM [] pantum_param_blob s of (ok, s) \<Rightarrow> if ok then
        write_chunk ZJT_START_DOC [item ZJI_PAGECOUNT 0, item ZJI_DMCOLLATE 0, item ZJI_DMDUPLEX ZJ_DMDUPLEX_SIMPLEX] [] s
      else (False, s)) s else (False, s))"
    by (auto simp: fun_eq_iff write_prologue_def split: prod.splits)
  have bytes: "prologue_bytes = (UEL @ ZJ_MAGIC) @ chunk_bytes ZJT_PANTUM_PARAM [] pantum_param_blob
     @ chunk_bytes ZJT_START_DOC [item ZJI_PAGECOUNT 0, item ZJI_DMCOLLATE 0, item ZJI_DMDUPLEX ZJ_DMDUPLEX_SIMPLEX] []"
    by (simp add: prologue_bytes_def)
  show ?thesis unfolding split bytes by (intro stdio.both stdio.put_appends write_chunk_emits)
qed

lemma write_trailer_emits: "emits write_trailer (bytes_of (ZJT_END_DOC, [], []) @ UEL)"
proof -
  have split: "write_trailer = (\<lambda>s. case write_chunk ZJT_END_DOC [] [] s of (ok, s) \<Rightarrow> if ok then fwrite UEL s else (False, s))"
    by (auto simp: fun_eq_iff write_trailer_def split: prod.splits)
  show ?thesis unfolding split bytes_of.simps by (intro stdio.both stdio.put_appends write_chunk_emits)
qed

lemma parse_document_whole:
  assumes "\<forall>c \<in> set body. chunk_wf c"
  shows "parse_document (prologue_bytes @ stream_bytes body @ bytes_of (ZJT_END_DOC, [], []) @ UEL) = Some (doc_chunks body)"
proof -
  have whole: "prologue_bytes @ stream_bytes body @ bytes_of (ZJT_END_DOC, [], []) @ UEL
      = (UEL @ ZJ_MAGIC) @ stream_bytes (doc_chunks body) @ UEL"
    by (simp add: prologue_bytes_def doc_chunks_def)
  have "\<forall>c \<in> set (doc_chunks body). chunk_wf c"
    using assms by (auto simp: doc_chunks_def pantum_param_blob_def)
  then have "parse_stream (stream_bytes (doc_chunks body)) = Some (doc_chunks body)"
    using parse_stream_chunks by (simp add: stream_bytes_def)
  then show ?thesis unfolding whole by (simp add: parse_document_def Let_def)
qed

lemma pages_wf: "\<forall>c \<in> set (concat (map (chunks_of opt) ps)). chunk_wf c"
  using page_chunks_wf by fastforce

lemma stream_pages: "stream_bytes (concat (map (chunks_of opt) ps)) = concat (map (page_bytes opt) ps)"
  by (induction ps) (simp_all add: page_bytes_def)

section \<open>The page loop\<close>

definition spool_whole :: "spool \<Rightarrow> byte list list \<Rightarrow> page_header list \<Rightarrow> bool" where
  "spool_whole sp ps extra \<longleftrightarrow> (\<exists>tail. spool_holds sp ps tail \<and> (extra = [] \<longrightarrow> tail = []))"

text \<open>\<open>ps\<close> are the pages done, \<open>extra\<close> is one that was announced and then failed, \<open>base\<close> the
  output when the loop started.\<close>

definition job_holds ::
  "'r print_env \<Rightarrow> job_options \<Rightarrow> c_file \<Rightarrow> printed list \<Rightarrow> page_header list \<Rightarrow> filter_state \<Rightarrow> bool" where
  "job_holds E opt base ps extra s \<longleftrightarrow>
     (\<forall>p \<in> set ps. rendered E opt p) \<and> length extra \<le> 1
     \<and> fs_page s = of_nat (length ps + length extra)
     \<and> fs_log s = Log_MDuplex_Off # accounting (map fst ps @ extra)
     \<and> fs_last s = (if ps = [] then zero_header else fst (last ps))
     \<and> (reliable base \<longrightarrow> reliable (fs_stdout s))
     \<and> (fs_status s = 0 \<longrightarrow> extra = [] \<or> (\<exists>r. fst (job_cancelled E r)))
     \<and> (if j_manual_duplex opt
        then fs_stdout s = base \<and> spool_whole (fs_fronts s) (map (page_bytes opt) (fronts_of ps)) extra
          \<and> spool_whole (fs_backs s) (map (page_bytes opt) (backs_of ps)) extra
        else extra = [] \<or> reliable base \<longrightarrow>
          file_data (fs_stdout s) = file_data base @ concat (map (page_bytes opt) ps))"

lemma render_page_grows:
  assumes "render_page E hdr opt fp r = (ok, fp', r')"
  shows "\<exists>more. file_data fp' = file_data fp @ more" "reliable fp \<Longrightarrow> reliable fp'" "reliable fp \<Longrightarrow> \<not> ok \<Longrightarrow> fp' = fp"
proof -
  have "fp' = fp \<and> \<not> ok \<or> (\<exists>bitmap w h r1. finish_page E hdr (page_layout hdr opt) opt bitmap w h fp r1 = (ok, fp', r'))"
    using assms unfolding render_page_def Let_def by (auto split: prod.splits if_splits)
  then show "\<exists>more. file_data fp' = file_data fp @ more" "reliable fp \<Longrightarrow> reliable fp'" "reliable fp \<Longrightarrow> \<not> ok \<Longrightarrow> fp' = fp"
    by (auto elim!: finish_page_result)
qed

lemma render_page_done:
  assumes "raster_ok E" "header_supported hdr" "colour_supported hdr" "render_page E hdr opt fp r = (True, fp', r')"
  obtains bie where "rendered E opt (hdr, bie)" "file_data fp' = file_data fp @ page_bytes opt (hdr, bie)"
  using render_page_result(1) [OF assms(1,2,4)] that assms(2,3)
  by (fastforce simp: page_bytes_def image_of_def sheet_lines_def Let_def)

lemma page_parity: "bit (of_nat n :: u32) 0 \<longleftrightarrow> odd n"
  by (simp add: bit_0)

lemma spool_page_result:
  assumes E: "raster_ok E" "header_supported hdr" "colour_supported hdr" and sp: "spool_holds sp ps []"
    and run: "spool_page E hdr opt sp r = ((ok, rendering), sp', r')"
  shows "ok \<Longrightarrow> \<exists>bie. rendered E opt (hdr, bie) \<and> spool_holds sp' (ps @ [page_bytes opt (hdr, bie)]) []"
    "\<exists>tail. \<not> ok \<longrightarrow> spool_holds sp' ps tail"
proof -
  have start: "length (file_data (sp_file sp)) = length (concat ps)" using sp by (simp add: spool_holds_def)
  obtain io r1 where io: "io_ok E r = (io, r1)" by (metis surj_pair)
  obtain good fp1 r2 where p: "render_page E hdr opt (sp_file sp) r1 = (good, fp1, r2)" by (rule prod_cases3)
  obtain good' sp2 r3 where m: "spool_mark E (length (concat ps)) (sp\<lparr>sp_file := fp1\<rparr>) r2 = (good', sp2, r3)"
    by (rule prod_cases3)
  have res: "(ok, sp') = (if io then if good then (good', sp2) else (False, sp\<lparr>sp_file := fp1\<rparr>) else (False, sp))"
    using run io p m by (auto simp: spool_page_def ftell_def start Let_def split: if_splits)
  obtain more where more: "file_data fp1 = file_data (sp_file sp) @ more" using render_page_grows(1) [OF p] by blast
  have h: "spool_holds (sp\<lparr>sp_file := fp1\<rparr>) ps more" using sp more by (simp add: spool_holds_def)
  note mark = spool_mark_holds [OF m h]
  show "\<exists>tail. \<not> ok \<longrightarrow> spool_holds sp' ps tail"
    using res sp h mark(3) by (cases "io \<and> good \<and> \<not> good'") (auto split: if_splits)
  show "\<exists>bie. rendered E opt (hdr, bie) \<and> spool_holds sp' (ps @ [page_bytes opt (hdr, bie)]) []" if ok
  proof -
    have t: io good good' "sp' = sp2" using res that by (auto split: if_splits)
    from p t(2) have "render_page E hdr opt (sp_file sp) r1 = (True, fp1, r2)" by simp
    from render_page_done [OF E this] obtain bie
      where "rendered E opt (hdr, bie)" "file_data fp1 = file_data (sp_file sp) @ page_bytes opt (hdr, bie)" .
    with mark(2) t more show ?thesis by auto
  qed
qed

text \<open>The state as a page begins, and as it goes on.\<close>

definition announce :: "page_header \<Rightarrow> filter_state \<Rightarrow> filter_state" where
  "announce hdr s = s\<lparr>fs_page := fs_page s + 1, fs_log := fs_log s @ [Log_Page (fs_page s + 1) (copies_of hdr)]\<rparr>"

lemma page_turn_cases:
  assumes "page_turn E opt hdr s r = (go, s', r')"
  obtains (refused) "\<not> header_supported hdr \<or> \<not> colour_supported hdr" "\<not> go" "s' = s\<lparr>fs_status := 1\<rparr>"
  | (spooled) ok rendering sp r1 front where "header_supported hdr" "colour_supported hdr" "j_manual_duplex opt"
      "front \<longleftrightarrow> bit (fs_page s + 1) 0"
      "spool_page E hdr opt (if front then fs_fronts s else fs_backs s) r = ((ok, rendering), sp, r1)" "go \<longleftrightarrow> ok"
      "\<exists>st last. s' = (announce hdr s)\<lparr>fs_fronts := if front then sp else fs_fronts s, fs_backs := if front then fs_backs s else sp,
         fs_last := last, fs_status := st\<rparr>
         \<and> (if ok then st = fs_status s \<and> last = hdr
             else last = fs_last s \<and> (st = 1 \<or> st = fs_status s \<and> (\<exists>r. fst (job_cancelled E r))))"
  | (printed) fp r1 where "header_supported hdr" "colour_supported hdr" "\<not> j_manual_duplex opt"
      "render_page E hdr opt (fs_stdout s) r = (go, fp, r1)"
      "\<exists>st last. s' = (announce hdr s)\<lparr>fs_stdout := fp, fs_last := last, fs_status := st\<rparr>
         \<and> (if go then st = fs_status s \<and> last = hdr
             else last = fs_last s \<and> (st = 1 \<or> st = fs_status s \<and> (\<exists>r. fst (job_cancelled E r))))"
proof -
  have keep: "s1 = s1\<lparr>fs_last := fs_last s1, fs_status := fs_status s1\<rparr>" for s1 :: filter_state by simp
  show thesis
  proof (cases "header_supported hdr \<and> colour_supported hdr")
    case False
    with assms show thesis by (intro refused) (auto simp: page_turn_def)
  next
    case True
    show thesis
    proof (cases "j_manual_duplex opt")
      case False
      obtain ok fp r1 where p: "render_page E hdr opt (fs_stdout s) r = (ok, fp, r1)" by (rule prod_cases3)
      obtain c r2 where c: "job_cancelled E r1 = (c, r2)" by (metis surj_pair)
      have s': "go = ok" "s' = (let s1 = (announce hdr s)\<lparr>fs_stdout := fp\<rparr> in
          if ok then s1\<lparr>fs_last := hdr\<rparr> else if c then s1 else s1\<lparr>fs_status := 1\<rparr>)"
        using assms True False p c by (auto simp: page_turn_def announce_def Let_def split: if_splits)
      show thesis
      proof (rule printed [of fp r1])
        have "c \<Longrightarrow> \<exists>r. fst (job_cancelled E r)" using c by (metis fst_conv)
        then show "\<exists>st last. s' = (announce hdr s)\<lparr>fs_stdout := fp, fs_last := last, fs_status := st\<rparr>
         \<and> (if go then st = fs_status s \<and> last = hdr
             else last = fs_last s \<and> (st = 1 \<or> st = fs_status s \<and> (\<exists>r. fst (job_cancelled E r))))"
          by (intro exI [of _ "fs_status s'"] exI [of _ "fs_last s'"]) (auto simp: s' Let_def announce_def)
      qed (use True False p s' in auto)
    next
      case dup: True
      define front where "front = bit (fs_page s + 1) 0"
      obtain ok rendering sp r1 where p:
        "spool_page E hdr opt (if front then fs_fronts s else fs_backs s) r = ((ok, rendering), sp, r1)"
        by (metis surj_pair)
      obtain c r2 where c: "job_cancelled E r1 = (c, r2)" by (metis surj_pair)
      have s': "go = ok" "s' = (let s1 = (announce hdr s)\<lparr>fs_fronts := if front then sp else fs_fronts s,
            fs_backs := if front then fs_backs s else sp\<rparr> in
          if ok then s1\<lparr>fs_last := hdr\<rparr> else if rendering \<and> c then s1 else s1\<lparr>fs_status := 1\<rparr>)"
        using assms True dup p c by (auto simp: page_turn_def announce_def Let_def front_def split: if_splits)
      show thesis
      proof (rule spooled [OF _ _ dup front_def p])
        have "c \<Longrightarrow> \<exists>r. fst (job_cancelled E r)" using c by (metis fst_conv)
        then show "\<exists>st last. s' = (announce hdr s)\<lparr>fs_fronts := if front then sp else fs_fronts s,
            fs_backs := if front then fs_backs s else sp, fs_last := last, fs_status := st\<rparr>
         \<and> (if ok then st = fs_status s \<and> last = hdr
             else last = fs_last s \<and> (st = 1 \<or> st = fs_status s \<and> (\<exists>r. fst (job_cancelled E r))))"
          by (intro exI [of _ "fs_status s'"] exI [of _ "fs_last s'"]) (auto simp: s' Let_def announce_def)
      qed (use True s' in auto)
    qed
  qed
qed

lemma page_turn_holds:
  assumes E: "raster_ok E" and inv: "job_holds E opt base ps [] s" and st: "fs_status s = 0"
    and run: "page_turn E opt hdr s r = (go, s', r')"
  shows "\<exists>bie extra. if go then fs_status s' = 0 \<and> job_holds E opt base (ps @ [(hdr, bie)]) [] s'
      else job_holds E opt base ps extra s'"
proof -
  have a: "fs_page (announce hdr s) = of_nat (Suc (length ps))"
    "fs_log (announce hdr s) = Log_MDuplex_Off # accounting (map fst ps @ [hdr])"
    "fs_stdout (announce hdr s) = fs_stdout s" "fs_last (announce hdr s) = fs_last s"
    using inv by (simp_all add: job_holds_def announce_def add.commute)
  from run show ?thesis
  proof (cases rule: page_turn_cases)
    case refused
    with inv show ?thesis by (auto simp: job_holds_def intro!: exI [of _ "[]"])
  next
    case (printed fp r1)
    note grow = render_page_grows [OF printed(4)]
    from printed(5) obtain st last where s': "s' = (announce hdr s)\<lparr>fs_stdout := fp, fs_last := last, fs_status := st\<rparr>"
      "if go then st = fs_status s \<and> last = hdr
       else last = fs_last s \<and> (st = 1 \<or> st = fs_status s \<and> (\<exists>r. fst (job_cancelled E r)))" by blast
    show ?thesis
    proof (cases go)
      case True
      then have "render_page E hdr opt (fs_stdout s) r = (True, fp, r1)" using printed(4) by simp
      from render_page_done [OF E printed(1,2) this] obtain bie where
        bie: "rendered E opt (hdr, bie)" "file_data fp = file_data (fs_stdout s) @ page_bytes opt (hdr, bie)" .
      have "job_holds E opt base (ps @ [(hdr, bie)]) [] s'"
        using True printed(3) inv st a grow bie s' unfolding job_holds_def by simp
      with True s' st show ?thesis by auto
    next
      case False
      then have "job_holds E opt base ps [hdr] s'"
        using printed(3) inv st a grow s' unfolding job_holds_def by auto
      with False show ?thesis by auto
    qed
  next
    case (spooled ok rendering sp r1 front)
    have "fs_page s + 1 = of_nat (Suc (length ps))" using inv by (simp add: job_holds_def add.commute)
    then have front: "front \<longleftrightarrow> even (length ps)"
      using spooled(4) page_parity [of "Suc (length ps)"] by (simp only: even_Suc not_not)
    have w: "spool_holds (fs_fronts s) (map (page_bytes opt) (fronts_of ps)) []"
      "spool_holds (fs_backs s) (map (page_bytes opt) (backs_of ps)) []"
      using inv spooled(3) by (auto simp: job_holds_def spool_whole_def)
    define qs where "qs = map (page_bytes opt) (if front then fronts_of ps else backs_of ps)"
    have h: "spool_holds (if front then fs_fronts s else fs_backs s) qs []" using w by (simp add: qs_def)
    note page = spool_page_result [OF E spooled(1,2) h spooled(5)]
    from spooled(7) obtain st last where s': "s' = (announce hdr s)\<lparr>fs_fronts := if front then sp else fs_fronts s,
        fs_backs := if front then fs_backs s else sp, fs_last := last, fs_status := st\<rparr>"
      "if ok then st = fs_status s \<and> last = hdr
       else last = fs_last s \<and> (st = 1 \<or> st = fs_status s \<and> (\<exists>r. fst (job_cancelled E r)))" by blast
    show ?thesis
    proof (cases ok)
      case True
      with page(1) obtain bie where bie: "rendered E opt (hdr, bie)" "spool_holds sp (qs @ [page_bytes opt (hdr, bie)]) []" by blast
      have "job_holds E opt base (ps @ [(hdr, bie)]) [] s'"
        using True spooled(3) inv st a w front bie s' unfolding job_holds_def spool_whole_def
        by (cases front) (simp_all add: qs_def sides_append)
      with True spooled(6) s' st show ?thesis by auto
    next
      case False
      with page(2) obtain tail where "spool_holds sp qs tail" by blast
      with False have "job_holds E opt base ps [hdr] s'"
        using spooled(3) inv st a w front s' unfolding job_holds_def spool_whole_def
        by (cases front) (auto simp: qs_def)
      with False spooled(6) show ?thesis by auto
    qed
  qed
qed

lemma page_loop_holds:
  assumes "page_loop E opt s r = Some (s', r')" "raster_ok E" "job_holds E opt base ps [] s" "fs_status s = 0"
  shows "\<exists>ps extra. job_holds E opt base ps extra s'"
proof -
  have "job_holds E opt base ps [] s \<Longrightarrow> raster_ok E \<Longrightarrow> fs_status s = 0 \<Longrightarrow> \<exists>ps extra. job_holds E opt base ps extra (fst y)"
    if "page_loop E opt s r = Some y" for E opt s r y ps
    using that
  proof (induction E opt s r y arbitrary: ps rule: page_loop.raw_induct [rotated, consumes 1, case_names step])
    case (step loop E opt s r y)
    obtain c r1 where c: "job_cancelled E r = (c, r1)" by (metis surj_pair)
    obtain h r2 where h: "ras_header E r1 = (h, r2)" by (metis surj_pair)
    show ?case
    proof (cases "c \<or> h = None")
      case True
      with step.hyps c h have "fst y = s" by (auto split: if_splits)
      with step.prems show ?thesis by blast
    next
      case False
      then obtain hdr where hdr: "h = Some hdr" by blast
      obtain go s1 r3 where t: "page_turn E opt hdr s r2 = (go, s1, r3)" by (rule prod_cases3)
      from page_turn_holds [OF step.prems(2,1,3) t] obtain bie extra where
        inv: "if go then fs_status s1 = 0 \<and> job_holds E opt base (ps @ [(hdr, bie)]) [] s1
          else job_holds E opt base ps extra s1" by blast
      show ?thesis
      proof (cases go)
        case True
        with step.hyps c h False hdr t have "loop E opt s1 r3 = Some y" by simp
        from step.IH [OF this, of "ps @ [(hdr, bie)]"] inv True step.prems(2) show ?thesis by simp
      next
        case F: False
        with step.hyps c h False hdr t have "fst y = s1" by auto
        with inv F show ?thesis by auto
      qed
    qed
  qed
  from this [OF assms(1,3,2,4)] show ?thesis by simp
qed

section \<open>The end of a job\<close>

lemma fail_if_simps [simp]:
  "fs_stdout (fail_if b s) = fs_stdout s" "fs_fronts (fail_if b s) = fs_fronts s" "fs_backs (fail_if b s) = fs_backs s"
  "fs_page (fail_if b s) = fs_page s" "fs_log (fail_if b s) = fs_log s" "fs_last (fail_if b s) = fs_last s"
  "fs_status (fail_if b s) = (if b then 1 else fs_status s)"
  by (simp_all add: fail_if_def)

text \<open>The sheet side without a picture.\<close>

definition blank_page :: "'r print_env \<Rightarrow> job_options \<Rightarrow> page_header \<Rightarrow> printed" where
  "blank_page E opt hdr =
     (let lay = page_layout hdr opt;
          w = (if l_rotate90 lay then l_video_y lay else l_video_x lay);
          h = (if l_rotate90 lay then l_video_x lay else l_video_y lay)
      in (hdr, page_image E lay (replicate (unat w * unat (l_depth lay) div 8 * unat h) 0) w h))"

lemma render_blank_page_result:
  assumes "render_blank_page E hdr opt fp r = (ok, fp', r')"
  shows "ok \<Longrightarrow> file_data fp' = file_data fp @ page_bytes opt (blank_page E opt hdr)" "reliable fp \<Longrightarrow> reliable fp'"
proof -
  obtain b r1 where h: "heap E (snd (snd ((), fst (blank_page E opt hdr),
      (let lay = page_layout hdr opt; w = (if l_rotate90 lay then l_video_y lay else l_video_x lay);
           h = (if l_rotate90 lay then l_video_x lay else l_video_y lay) in unat w * unat (l_depth lay) div 8 * unat h)))) r = (b, r1)"
    by (metis surj_pair)
  show "ok \<Longrightarrow> file_data fp' = file_data fp @ page_bytes opt (blank_page E opt hdr)" "reliable fp \<Longrightarrow> reliable fp'"
    using assms h unfolding render_blank_page_def Let_def
    by (auto split: option.splits elim!: finish_page_result simp: page_bytes_def blank_page_def Let_def)
qed

text \<open>What the operator gets: all fronts, the pause, a blank back if one is missing, the backs
  from the last to the first.\<close>

definition duplex_chunks :: "'r print_env \<Rightarrow> job_options \<Rightarrow> printed list \<Rightarrow> chunk list" where
  "duplex_chunks E opt ps =
     concat (map (chunks_of opt) (fronts_of ps)) @ [(ZJT_2600N_PAUSE, [], [])]
     @ (if odd (length ps) then chunks_of opt (blank_page E opt (fst (last ps))) else [])
     @ concat (map (chunks_of opt) (rev (backs_of ps)))"

lemma replay_result:
  assumes run: "replay E opt s r = (s', r')" and good: "fs_status s' = 0"
    and f: "spool_holds (fs_fronts s) (map (page_bytes opt) (fronts_of ps)) t"
    and b: "spool_holds (fs_backs s) (map (page_bytes opt) (backs_of ps)) t'"
    and l: "ps \<noteq> [] \<Longrightarrow> fs_last s = fst (last ps)"
  shows "file_data (fs_stdout s') = file_data (fs_stdout s) @ stream_bytes (duplex_chunks E opt ps)"
    "fs_log s' = fs_log s @ [Log_MDuplex_On] @ (if odd (length ps) then [Log_Page (fs_page s + 1) 1] else [])"
proof -
  let ?n = "length (fronts_of ps)" and ?m = "length (backs_of ps)"
  have cnt: "length (sp_slots (fs_fronts s)) = ?n" "length (sp_slots (fs_backs s)) = ?m" "?m < ?n \<longleftrightarrow> odd (length ps)"
    using spool_holds_count [OF f] spool_holds_count [OF b] sides_length [of ps] by (auto elim: oddE)
  obtain ok1 fp1 r1 where 1: "copy_pages E (fs_fronts s) [0..<?n] (fs_stdout s) r = (ok1, fp1, r1)" by (rule prod_cases3)
  obtain ok2 fp2 where 2: "write_chunk ZJT_2600N_PAUSE [] [] fp1 = (ok2, fp2)" by (metis surj_pair)
  define s2 where "s2 = fail_if (\<not> ok2) (s\<lparr>fs_log := fs_log s @ [Log_MDuplex_On], fs_stdout := fp2\<rparr>)"
  obtain s3 r3 where 3: "blank_back E opt s2 r1 = (s3, r3)" by (metis surj_pair)
  obtain ok4 fp4 r4 where 4: "copy_pages E (fs_backs s3) (rev [0..<length (sp_slots (fs_backs s3))]) (fs_stdout s3) r3 = (ok4, fp4, r4)"
    by (rule prod_cases3)
  have ok1 "fs_status s = 0"
    using run good 1 by (auto simp: replay_def cnt Let_def split: if_splits)
  with run good 1 2 3 4 have s': "fs_status s3 = 0" "s' = fail_if (\<not> ok4) (s3\<lparr>fs_stdout := fp4\<rparr>)" ok4
    by (auto simp: replay_def cnt Let_def s2_def fail_if_def split: if_splits)
  obtain ok3 fp3 r3' where 33: "render_blank_page E (fs_last s) opt fp2 r1 = (ok3, fp3, r3')" by (rule prod_cases3)
  have ok2: ok2 and backs: "fs_backs s3 = fs_backs s" and
    s3: "fs_log s3 = fs_log s @ [Log_MDuplex_On] @ (if odd (length ps) then [Log_Page (fs_page s + 1) 1] else [])"
    "if odd (length ps) then ok3 \<and> fs_stdout s3 = fp3 else fs_stdout s3 = fp2"
    using 3 33 s'(1) by (auto simp: blank_back_def s2_def fail_if_def cnt Let_def split: if_splits prod.splits)
  have c1: "file_data fp1 = file_data (fs_stdout s) @ concat (map (page_bytes opt) (fronts_of ps))"
    using copy_pages_result [OF 1 f] \<open>ok1\<close> by (simp add: atLeast0LessThan map_nth [where xs = "map (page_bytes opt) (fronts_of ps)", simplified])
  have c2: "file_data fp2 = file_data fp1 @ bytes_of (ZJT_2600N_PAUSE, [], [])"
    using appends_whole [OF write_chunk_emits] 2 ok2 by auto
  have c3: "file_data (fs_stdout s3) = file_data fp2 @ stream_bytes (if odd (length ps) then chunks_of opt (blank_page E opt (fst (last ps))) else [])"
    using s3(2) render_blank_page_result(1) [OF 33] l by (cases "ps = []") (auto simp: page_bytes_def split: if_splits)
  have c4: "file_data fp4 = file_data (fs_stdout s3) @ concat (map (page_bytes opt) (rev (backs_of ps)))"
    using copy_pages_result [OF 4 b [folded backs]] s'(3) cnt(2) backs
    by (simp add: atLeast0LessThan rev_map [symmetric] map_nth [where xs = "map (page_bytes opt) (backs_of ps)", simplified])
  show "file_data (fs_stdout s') = file_data (fs_stdout s) @ stream_bytes (duplex_chunks E opt ps)"
    using c1 c2 c3 c4 by (simp add: s'(2) duplex_chunks_def stream_pages)
  show "fs_log s' = fs_log s @ [Log_MDuplex_On] @ (if odd (length ps) then [Log_Page (fs_page s + 1) 1] else [])"
    using s3(1) by (simp add: s'(2))
qed

text \<open>The way through \<^verbatim>\<open>main\<close>.\<close>

definition loop_start :: "c_file \<Rightarrow> spool \<Rightarrow> spool \<Rightarrow> c_file \<Rightarrow> filter_state" where
  "loop_start fp fronts backs fp1 = (start_state fp)\<lparr>fs_fronts := fronts, fs_backs := backs, fs_stdout := fp1\<rparr>"

lemma filter_main_run:
  obtains opened r1 ok2 fronts backs r2 ok3 r3 ok4 fp1 where
    "(if argc = 7 then io_ok E r else (True, r)) = (opened, r1)"
    "open_spools E (options_read get ppd) r1 = (ok2, fronts, backs, r2)"
    "io_ok E r2 = (ok3, r3)" "write_prologue fp = (ok4, fp1)"
    "filter_main E argc get ppd fp r =
     (if argc < 6 \<or> 7 < argc then Some (fail_if True ((start_state fp)\<lparr>fs_log := []\<rparr>), r)
      else if \<not> opened then Some (fail_if True ((start_state fp)\<lparr>fs_log := []\<rparr>), r1)
      else if \<not> ok2 then Some (fail_if True ((start_state fp)\<lparr>fs_fronts := fronts, fs_backs := backs\<rparr>), r2)
      else if \<not> ok3 then Some (fail_if True ((start_state fp)\<lparr>fs_fronts := fronts, fs_backs := backs\<rparr>), r3)
      else if \<not> ok4 then Some (fail_if True (loop_start fp fronts backs fp1), r3)
      else case page_loop E (options_read get ppd) (loop_start fp fronts backs fp1) r3 of None \<Rightarrow> None
        | Some (s, r) \<Rightarrow> Some (finish_job E (options_read get ppd) s r))"
proof -
  obtain opened r1 where 1: "(if argc = 7 then io_ok E r else (True, r)) = (opened, r1)" by (metis surj_pair)
  obtain ok2 fronts backs r2 where 2: "open_spools E (options_read get ppd) r1 = (ok2, fronts, backs, r2)" by (metis surj_pair)
  obtain ok3 r3 where 3: "io_ok E r2 = (ok3, r3)" by (metis surj_pair)
  obtain ok4 fp1 where 4: "write_prologue fp = (ok4, fp1)" by (metis surj_pair)
  show thesis
    by (rule that [OF 1 2 3 4]) (use 1 2 3 4 in \<open>simp add: filter_main_def Let_def loop_start_def start_state_def\<close>)
qed

lemma filter_main_cases:
  assumes "filter_main E argc get ppd fp r = Some (s, r')"
  obtains (early) "fs_status s = 1" "fs_stdout s = fp"
  | (no_prologue) fp1 where "write_prologue fp = (False, fp1)" "fs_status s = 1" "fs_stdout s = fp1"
  | (started) fronts backs ra rb fp1 s1 r1 r2 where
      "open_spools E (options_read get ppd) ra = (True, fronts, backs, rb)" "write_prologue fp = (True, fp1)"
      "page_loop E (options_read get ppd) (loop_start fp fronts backs fp1) r1 = Some (s1, r2)"
      "finish_job E (options_read get ppd) s1 r2 = (s, r')"
proof -
  obtain opened r1 ok2 fronts backs r2 ok3 r3 ok4 fp1 where 2: "open_spools E (options_read get ppd) r1 = (ok2, fronts, backs, r2)"
    and 4: "write_prologue fp = (ok4, fp1)" and run: "filter_main E argc get ppd fp r =
     (if argc < 6 \<or> 7 < argc then Some (fail_if True ((start_state fp)\<lparr>fs_log := []\<rparr>), r)
      else if \<not> opened then Some (fail_if True ((start_state fp)\<lparr>fs_log := []\<rparr>), r1)
      else if \<not> ok2 then Some (fail_if True ((start_state fp)\<lparr>fs_fronts := fronts, fs_backs := backs\<rparr>), r2)
      else if \<not> ok3 then Some (fail_if True ((start_state fp)\<lparr>fs_fronts := fronts, fs_backs := backs\<rparr>), r3)
      else if \<not> ok4 then Some (fail_if True (loop_start fp fronts backs fp1), r3)
      else case page_loop E (options_read get ppd) (loop_start fp fronts backs fp1) r3 of None \<Rightarrow> None
        | Some (s, r) \<Rightarrow> Some (finish_job E (options_read get ppd) s r))"
    by (rule filter_main_run)
  define ls where "ls = loop_start fp fronts backs fp1"
  note run = run [folded ls_def]
  consider "argc < 6 \<or> 7 < argc \<or> \<not> opened \<or> \<not> ok2 \<or> \<not> ok3"
    | "\<not> (argc < 6 \<or> 7 < argc \<or> \<not> opened \<or> \<not> ok2 \<or> \<not> ok3)" "\<not> ok4"
    | "\<not> (argc < 6 \<or> 7 < argc \<or> \<not> opened \<or> \<not> ok2 \<or> \<not> ok3)" ok4 by blast
  then show thesis
  proof cases
    case 1
    with run assms show thesis by (intro early) (auto simp: start_state_def split: if_splits)
  next
    case no: 2
    with run assms 4 show thesis by (intro no_prologue) (auto simp: ls_def loop_start_def)
  next
    case yes: 3
    with run assms obtain s1 r4 where "page_loop E (options_read get ppd) ls r3 = Some (s1, r4)"
      "finish_job E (options_read get ppd) s1 r4 = (s, r')"
      by (auto split: option.splits)
    with yes 2 4 show thesis by (intro started) (auto simp: ls_def)
  qed
qed

lemma loop_start_holds:
  assumes "if j_manual_duplex opt then spool_holds fronts [] [] \<and> spool_holds backs [] [] else True"
  shows "job_holds E opt fp1 [] [] (loop_start fp fronts backs fp1)" "fs_status (loop_start fp fronts backs fp1) = 0"
  using assms by (auto simp: job_holds_def loop_start_def start_state_def spool_whole_def)

text \<open>\<^verbatim>\<open>tmpfile\<close> hands out empty files.\<close>

definition tmp_empty :: "'r print_env \<Rightarrow> bool" where
  "tmp_empty E \<longleftrightarrow> (\<forall>r fp r'. tmp_file E r = (Some fp, r') \<longrightarrow> file_data fp = [])"

lemma spool_open_empty: "tmp_empty E \<Longrightarrow> spool_open E r = (True, sp, r') \<Longrightarrow> spool_holds sp [] []"
  by (force simp: spool_open_def tmp_empty_def spool_holds_def no_spool_def split: prod.splits option.splits)

lemma open_spools_empty:
  assumes "tmp_empty E" "open_spools E opt r = (True, fronts, backs, r')" "j_manual_duplex opt"
  shows "spool_holds fronts [] [] \<and> spool_holds backs [] []"
  using assms(2,3) by (auto simp: open_spools_def split: prod.splits if_splits dest: spool_open_empty [OF assms(1)])

text \<open>The last part of \<^verbatim>\<open>main\<close>: perhaps the replay, then the trailer.\<close>

lemma finish_job_cases:
  assumes "finish_job E opt s r = (s', r')"
  obtains (closed) ok fp where "write_trailer (fs_stdout s) = (ok, fp)" "fs_stdout s' = fp" "fs_log s' = fs_log s"
      "fs_status s' = 0 \<Longrightarrow> ok \<and> fs_status s = 0 \<and> ((\<forall>r. \<not> fst (job_cancelled E r)) \<longrightarrow> fs_page s \<noteq> 0 \<and> \<not> j_manual_duplex opt)"
      "fs_status s' = 0 \<or> fs_status s' = 1 \<or> fs_status s' = fs_status s"
  | (replayed) s1 r1 r2 ok fp where "j_manual_duplex opt" "fs_status s = 0"
      "replay E opt s r1 = (s1, r2)" "write_trailer (fs_stdout s1) = (ok, fp)" "fs_stdout s' = fp" "fs_log s' = fs_log s1"
      "fs_status s' = 0 \<Longrightarrow> ok \<and> fs_status s1 = 0" "(\<forall>r. \<not> fst (job_cancelled E r)) \<longrightarrow> fs_page s \<noteq> 0"
proof -
  obtain c r1 where 1: "(if fs_status s = 0 then job_cancelled E r else (True, r)) = (c, r1)" by (metis surj_pair)
  define sa where "sa = fail_if (\<not> c \<and> fs_page s = 0) s"
  obtain d r2 where 2: "(if fs_status sa = 0 then job_cancelled E r1 else (True, r1)) = (d, r2)" by (metis surj_pair)
  obtain sb r3 where 3: "(if \<not> d \<and> j_manual_duplex opt then replay E opt sa r2 else (sa, r2)) = (sb, r3)" by (metis surj_pair)
  obtain ok fp where 4: "write_trailer (fs_stdout sb) = (ok, fp)" by (metis surj_pair)
  obtain fl r4 where 5: "io_ok E r3 = (fl, r4)" by (metis surj_pair)
  have s': "s' = fail_if (\<not> fl) (fail_if (\<not> ok) (sb\<lparr>fs_stdout := fp\<rparr>))"
    using assms unfolding finish_job_def Let_def 1 prod.case sa_def [symmetric] 2 3 4 5 by simp
  show thesis
  proof (cases "\<not> d \<and> j_manual_duplex opt")
    case True
    then have "fs_status sa = 0" using 2 by (auto split: if_splits)
    then have sa: "sa = s" "fs_status s = 0" "\<not> c \<longrightarrow> fs_page s \<noteq> 0" by (auto simp: sa_def fail_if_def split: if_splits)
    have "(\<forall>r. \<not> fst (job_cancelled E r)) \<longrightarrow> \<not> c" using 1 sa(2) by (metis fst_conv)
    with sa True 3 4 s' show thesis by (intro replayed [of r2 sb r3 ok fp]) (auto split: if_splits)
  next
    case False
    then have sb: "sb = sa" using 3 by auto
    have live: "fs_status s = 0 \<Longrightarrow> (\<forall>r. \<not> fst (job_cancelled E r)) \<Longrightarrow> \<not> c"
      "fs_status sa = 0 \<Longrightarrow> (\<forall>r. \<not> fst (job_cancelled E r)) \<Longrightarrow> \<not> d"
      using 1 2 by (metis fst_conv)+
    show thesis
    proof (rule closed [of ok fp])
      show "write_trailer (fs_stdout s) = (ok, fp)" using 4 sb by (simp add: sa_def)
      show "fs_stdout s' = fp" "fs_log s' = fs_log s" by (simp_all add: s' sb sa_def)
      show "fs_status s' = 0 \<Longrightarrow> ok \<and> fs_status s = 0 \<and> ((\<forall>r. \<not> fst (job_cancelled E r)) \<longrightarrow> fs_page s \<noteq> 0 \<and> \<not> j_manual_duplex opt)"
        using False live by (auto simp: s' sb sa_def split: if_splits)
      show "fs_status s' = 0 \<or> fs_status s' = 1 \<or> fs_status s' = fs_status s" by (simp add: s' sb sa_def)
    qed
  qed
qed

definition never_cancelled :: "'r print_env \<Rightarrow> bool" where
  "never_cancelled E \<longleftrightarrow> (\<forall>r. \<not> fst (job_cancelled E r))"

text \<open>The end of a job whose pages go straight to the output.\<close>

lemma straight_end:
  assumes inv: "job_holds E opt base ps extra s1" and base: "file_data base = prologue_bytes"
    and run: "finish_job E opt s1 r1 = (s, r')" and single: "\<not> j_manual_duplex opt"
    and sink: "reliable base \<or> fs_status s = 0 \<and> never_cancelled E"
  shows "fs_log s = Log_MDuplex_Off # accounting (map fst ps @ extra)"
    "parse_document (file_data (fs_stdout s)) = Some (doc_chunks (concat (map (chunks_of opt) ps)))"
    "fs_status s = 0 \<Longrightarrow> never_cancelled E \<Longrightarrow> extra = [] \<and> ps \<noteq> []"
proof -
  have "fs_log s = Log_MDuplex_Off # accounting (map fst ps @ extra)
    \<and> parse_document (file_data (fs_stdout s)) = Some (doc_chunks (concat (map (chunks_of opt) ps)))
    \<and> (fs_status s = 0 \<and> never_cancelled E \<longrightarrow> extra = [] \<and> ps \<noteq> [])"
    using run
  proof (cases rule: finish_job_cases)
    case (replayed)
    with single show ?thesis by simp
  next
    case (closed ok fp2)
    have clean: "extra = [] \<and> ps \<noteq> []" if "fs_status s = 0" "never_cancelled E"
    proof -
      have e: "extra = []" and n: "fs_page s1 \<noteq> 0"
        using closed(4) [OF that(1)] that(2) inv by (auto simp: job_holds_def never_cancelled_def)
      moreover have "fs_page s1 = of_nat (length ps)" using inv e by (simp add: job_holds_def)
      ultimately show ?thesis by auto
    qed
    have ok
    proof (cases "reliable base")
      case True
      then have "reliable (fs_stdout s1)" using inv by (simp add: job_holds_def)
      then show ?thesis using appends_sound [OF write_trailer_emits closed(1)] by blast
    next
      case False
      with sink closed(4) show ?thesis by blast
    qed
    then have out: "file_data (fs_stdout s) = file_data (fs_stdout s1) @ bytes_of (ZJT_END_DOC, [], []) @ UEL"
      using appends_whole [OF write_trailer_emits] closed(1,2) by auto
    have "extra = [] \<or> reliable base" using sink clean by blast
    then have "file_data (fs_stdout s1) = prologue_bytes @ concat (map (page_bytes opt) ps)"
      using inv single base by (simp add: job_holds_def)
    then have "parse_document (file_data (fs_stdout s)) = Some (doc_chunks (concat (map (chunks_of opt) ps)))"
      using parse_document_whole [OF pages_wf, of opt ps] by (simp add: out stream_pages)
    then show ?thesis using clean inv closed(3) by (simp add: job_holds_def)
  qed
  then show "fs_log s = Log_MDuplex_Off # accounting (map fst ps @ extra)"
    "parse_document (file_data (fs_stdout s)) = Some (doc_chunks (concat (map (chunks_of opt) ps)))"
    "fs_status s = 0 \<Longrightarrow> never_cancelled E \<Longrightarrow> extra = [] \<and> ps \<noteq> []" by blast+
qed

lemma duplex_wf: "\<forall>c \<in> set (duplex_chunks E opt ps). chunk_wf c"
proof -
  have "chunk_wf (ZJT_2600N_PAUSE, [], [])" by simp
  with pages_wf [of opt "fronts_of ps"] pages_wf [of opt "rev (backs_of ps)"]
    pages_wf [of opt "[blank_page E opt (fst (last ps))]"]
  show ?thesis by (auto simp: duplex_chunks_def simp del: chunk_wf.simps)
qed

lemma accounting_no_prompt: "Log_MDuplex_On \<notin> set (accounting hdrs)"
  by (auto simp: accounting_def)

text \<open>The end of a job that is printed in two passes.\<close>

lemma duplex_end:
  assumes inv: "job_holds E opt base0 ps extra s1" and base0: "file_data base0 = prologue_bytes"
    and run: "finish_job E opt s1 r1 = (s, r')" and dup: "j_manual_duplex opt" and good: "fs_status s = 0"
  shows "(never_cancelled E \<longrightarrow> extra = [] \<and> ps \<noteq> [] \<and> Log_MDuplex_On \<in> set (fs_log s))
     \<and> (if Log_MDuplex_On \<in> set (fs_log s)
        then fs_log s = Log_MDuplex_Off # accounting (map fst ps @ extra) @ [Log_MDuplex_On]
               @ (if odd (length ps) then [Log_Page (of_nat (length ps + length extra) + 1) 1] else [])
          \<and> parse_document (file_data (fs_stdout s)) = Some (doc_chunks (duplex_chunks E opt ps))
        else fs_log s = Log_MDuplex_Off # accounting (map fst ps @ extra)
          \<and> parse_document (file_data (fs_stdout s)) = Some (doc_chunks []))"
proof -
  have base: "file_data (fs_stdout s1) = prologue_bytes" using inv dup base0 by (simp add: job_holds_def)
  have log: "fs_log s1 = Log_MDuplex_Off # accounting (map fst ps @ extra)" using inv by (simp add: job_holds_def)
  from run show ?thesis
  proof (cases rule: finish_job_cases)
    case (closed ok fp2)
    have "ok" "\<not> never_cancelled E" using closed(4) [OF good] dup by (auto simp: never_cancelled_def)
    then have "file_data (fs_stdout s) = prologue_bytes @ stream_bytes [] @ bytes_of (ZJT_END_DOC, [], []) @ UEL"
      using appends_whole [OF write_trailer_emits] closed(1,2) base by auto
    then have "parse_document (file_data (fs_stdout s)) = Some (doc_chunks [])"
      using parse_document_whole [of "[]"] by simp
    with \<open>\<not> never_cancelled E\<close> inv closed(3) log accounting_no_prompt show ?thesis
      by (auto simp: job_holds_def)
  next
    case (replayed s2 r3 r4 ok fp2)
    have st: "fs_status s2 = 0" ok using replayed(7) [OF good] by auto
    obtain t t' where sp: "spool_holds (fs_fronts s1) (map (page_bytes opt) (fronts_of ps)) t"
      "spool_holds (fs_backs s1) (map (page_bytes opt) (backs_of ps)) t'"
      using inv dup by (auto simp: job_holds_def spool_whole_def)
    have last: "ps \<noteq> [] \<Longrightarrow> fs_last s1 = fst (last ps)" using inv by (simp add: job_holds_def)
    note rep = replay_result [OF replayed(3) st(1) sp last]
    have "file_data (fs_stdout s) = prologue_bytes @ stream_bytes (duplex_chunks E opt ps) @ bytes_of (ZJT_END_DOC, [], []) @ UEL"
      using appends_whole [OF write_trailer_emits] replayed(4,5) st(2) base rep(1) by auto
    then have doc: "parse_document (file_data (fs_stdout s)) = Some (doc_chunks (duplex_chunks E opt ps))"
      using parse_document_whole [OF duplex_wf] by simp
    have "never_cancelled E \<longrightarrow> extra = [] \<and> ps \<noteq> []"
      using replayed(2,8) inv by (auto simp: job_holds_def never_cancelled_def)
    moreover have "fs_log s = Log_MDuplex_Off # accounting (map fst ps @ extra) @ [Log_MDuplex_On]
               @ (if odd (length ps) then [Log_Page (of_nat (length ps + length extra) + 1) 1] else [])"
      using rep(2) log replayed(6) inv by (simp add: job_holds_def)
    ultimately show ?thesis using inv doc by (auto simp: job_holds_def)
  qed
qed

end
