(* ===== verification/Filter_Run.thy ===== *)
theory Filter_Run
  imports Filter_Laws
begin

text \<open>
  Runs of the filter: it ends on every finite raster stream, and with a raster stream that gives
  every line, a disk and an output that take everything, and no cancellation, it prints the whole
  stream.
\<close>

section \<open>What rendering does to the rest of the world\<close>

text \<open>A relation between two states of the environment that allocation keeps, reading pixels
  keeps, and that is reflexive and transitive.\<close>

definition kept :: "('r \<Rightarrow> 'r \<Rightarrow> bool) \<Rightarrow> ('r \<Rightarrow> 'a \<times> 'r) \<Rightarrow> bool" where
  "kept R f \<longleftrightarrow> (\<forall>r x r'. f r = (x, r') \<longrightarrow> R r r')"

lemma keptD: "kept R f \<Longrightarrow> f r = (x, r') \<Longrightarrow> R r r'"
  unfolding kept_def by blast

lemma jbig_collect_kept:
  assumes "\<And>n. kept R (heap E n)" "reflp R" "transp R"
  shows "kept R (jbig_collect E ps b)"
proof (induction ps arbitrary: b)
  case Nil
  show ?case using assms(2) by (auto simp: kept_def reflp_def)
next
  case (Cons p ps)
  show ?case
    unfolding kept_def
  proof (intro allI impI)
    fix r x r'
    assume run: "jbig_collect E (p # ps) b r = (x, r')"
    obtain b1 r1 where a: "buf_append E b p r = (b1, r1)" by (metis surj_pair)
    have "R r r1"
      using a keptD [OF assms(1)] reflpD [OF assms(2)]
      by (auto simp: buf_append_def Let_def split: prod.splits option.splits if_splits)
    moreover have "R r1 r'" using run a keptD [OF Cons] by simp
    ultimately show "R r r'" using assms(3) by (meson transpD)
  qed
qed

lemma finish_page_kept:
  assumes "\<And>n. kept R (heap E n)" "reflp R" "transp R" "finish_page E hdr lay opt bitmap w h fp r = (ok, fp', r')"
  shows "R r r'"
proof -
  obtain ok1 bie r1 where c: "jbig_compress E empty_buf bitmap (w * l_depth lay) h r = (ok1, bie, r1)" by (rule prod_cases3)
  then have "R r r1"
    using keptD [OF jbig_collect_kept [OF assms(1-3)]] by (auto simp: jbig_compress_def split: prod.splits)
  with assms(4) c show ?thesis by (auto simp: finish_page_def split: prod.splits if_splits)
qed

section \<open>Ending\<close>

text \<open>\<open>f\<close> counts the pages the raster stream still has: a header that is read is one page less,
  and nothing brings a page back.\<close>

definition finite_raster :: "'r print_env \<Rightarrow> ('r \<Rightarrow> nat) \<Rightarrow> bool" where
  "finite_raster E f \<longleftrightarrow> (\<forall>r hdr r'. ras_header E r = (Some hdr, r') \<longrightarrow> f r' < f r)
     \<and> (let R = (\<lambda>r r'. f r' \<le> f r) in (\<forall>n. kept R (ras_pixels E n)) \<and> (\<forall>n. kept R (heap E n))
         \<and> kept R (job_cancelled E) \<and> kept R (io_ok E))"

lemma finite_rasterD:
  assumes "finite_raster E f"
  shows "ras_header E r = (Some hdr, r') \<Longrightarrow> f r' < f r" "ras_pixels E n r = (px, r') \<Longrightarrow> f r' \<le> f r"
    "heap E n r = (b, r') \<Longrightarrow> f r' \<le> f r" "job_cancelled E r = (c, r') \<Longrightarrow> f r' \<le> f r" "io_ok E r = (c, r') \<Longrightarrow> f r' \<le> f r"
  using assms unfolding finite_raster_def Let_def kept_def by metis+

lemma render_rows_left:
  "finite_raster E f \<Longrightarrow> render_rows E hdr lay opt g ys c r = (ok, c', r') \<Longrightarrow> f r' \<le> f r"
proof (induction ys arbitrary: c r)
  case Nil
  then show ?case by simp
next
  case (Cons y ys)
  obtain px r1 where p: "ras_pixels E (unat (cupsBytesPerLine hdr)) r = (px, r1)" by (metis surj_pair)
  obtain d r2 where d: "job_cancelled E r1 = (d, r2)" by (metis surj_pair)
  have "f r1 \<le> f r" "f r2 \<le> f r1" using finite_rasterD(2,4) [OF Cons.prems(1)] p d by blast+
  with Cons p d show ?case
    by (cases "y < unat (cupsHeight hdr)") (fastforce simp: Let_def split: option.splits)+
qed

lemma drain_rows_left: "finite_raster E f \<Longrightarrow> f (drain_rows E n k r) \<le> f r"
proof (induction k arbitrary: r)
  case 0
  then show ?case by simp
next
  case (Suc k)
  obtain px r1 where p: "ras_pixels E n r = (px, r1)" by (metis surj_pair)
  with finite_rasterD(2) [OF Suc.prems p] Suc.IH [OF Suc.prems, of r1] show ?case
    by (auto split: option.splits)
qed

lemma render_page_left:
  assumes "finite_raster E f" "render_page E hdr opt fp r = (ok, fp', r')"
  shows "f r' \<le> f r"
proof -
  define lay where "lay = page_layout hdr opt"
  define g where "g = page_geometry hdr lay"
  obtain bitmap r0 where 0: "heap E (g_bpl g * unat (l_video_y lay)) r = (bitmap, r0)" by (metis surj_pair)
  obtain row r1 where 1: "heap E (g_rowlen g) r0 = (row, r1)" by (metis surj_pair)
  obtain gray r2 where 2: "(if l_rotate90 lay then heap E (unat (g_src_w g) * unat (g_src_h g)) r1 else (Some [], r1)) = (gray, r2)"
    by (metis surj_pair)
  define c where "c = \<lparr>cv_row = memset_at (the row) 0 0xff (g_rowlen g), cv_gray = the gray, cv_bitmap = the bitmap\<rparr>"
  obtain good c1 r3 where 3: "render_rows E hdr lay opt g [0..<unat (g_src_h g)] c r2 = (good, c1, r3)" by (rule prod_cases3)
  define r4 where "r4 = drain_rows E (unat (cupsBytesPerLine hdr)) (unat (cupsHeight hdr) - unat (g_src_h g)) r3"
  have le: "f r0 \<le> f r" "f r1 \<le> f r0" "f r2 \<le> f r1" "f r3 \<le> f r2" "f r4 \<le> f r3"
    using finite_rasterD(3) [OF assms(1)] 0 1 2 render_rows_left [OF assms(1) 3] drain_rows_left [OF assms(1)]
    by (auto simp: r4_def split: if_splits)
  have "r' = r2 \<or> r' = r3 \<or> finish_page E hdr lay opt (cv_bitmap (turn_page lay opt g c1)) (l_video_x lay) (l_video_y lay) fp r4 = (ok, fp', r')"
    using assms(2) unfolding render_page_def lay_def [symmetric] g_def [symmetric] Let_def
    by (simp add: 0 1 2 3 c_def [symmetric] r4_def split: if_splits)
  moreover have "kept (\<lambda>r r'. f r' \<le> f r) (heap E n)" for n
    using assms(1) by (simp add: finite_raster_def Let_def)
  then have "finish_page E hdr lay opt (cv_bitmap (turn_page lay opt g c1)) (l_video_x lay) (l_video_y lay) fp r4 = (ok, fp', r') \<Longrightarrow> f r' \<le> f r4"
    by (rule finish_page_kept) (auto intro: reflpI transpI)
  ultimately show ?thesis using le by (elim disjE) auto
qed

lemma page_turn_left:
  assumes E: "finite_raster E f" and run: "page_turn E opt hdr s r = (go, s', r')"
  shows "f r' \<le> f r"
proof -
  note le = finite_rasterD(3-5) [OF E] render_page_left [OF E]
  have sp: "f r'' \<le> f r" if "spool_page E hdr opt sp r = (res, sp', r'')" for sp res sp' r''
    using that
    by (auto simp: spool_page_def ftell_def spool_mark_def Let_def split: prod.splits option.splits if_splits
        dest!: le intro: order_trans)
  show ?thesis
    using run
    by (auto simp: page_turn_def Let_def split: prod.splits if_splits dest!: le sp intro: order_trans)
qed

lemma page_loop_ends:
  assumes "finite_raster E f"
  shows "\<exists>s' r'. page_loop E opt s r = Some (s', r')"
proof (induction "f r" arbitrary: s r rule: less_induct)
  case less
  obtain c r1 where c: "job_cancelled E r = (c, r1)" by (metis surj_pair)
  obtain h r2 where h: "ras_header E r1 = (h, r2)" by (metis surj_pair)
  show ?case
  proof (cases "c \<or> h = None")
    case True
    with c h show ?thesis by (subst page_loop.simps) auto
  next
    case False
    then obtain hdr where hdr: "h = Some hdr" by blast
    obtain go s1 r3 where t: "page_turn E opt hdr s r2 = (go, s1, r3)" by (rule prod_cases3)
    have "f r3 < f r"
      using finite_rasterD(4) [OF assms c] finite_rasterD(1) [OF assms h [unfolded hdr]] page_turn_left [OF assms t] by linarith
    with less obtain s' r' where "page_loop E opt s1 r3 = Some (s', r')" by blast
    with c h False hdr t show ?thesis by (subst page_loop.simps) auto
  qed
qed

lemma filter_main_ends:
  assumes "finite_raster E f"
  shows "\<exists>s r'. filter_main E argc get ppd fp r = Some (s, r')"
proof -
  have ends: "\<exists>s' r'. (case page_loop E opt s r of None \<Rightarrow> None | Some (s, r) \<Rightarrow> Some (g s r)) = Some (s', r')"
    for opt s r and g :: "filter_state \<Rightarrow> 'a \<Rightarrow> filter_state \<times> 'a"
    using page_loop_ends [OF assms, of opt s r] by (metis (no_types, lifting) option.case(2) case_prod_conv surj_pair)
  show ?thesis
    by (rule filter_main_run [of argc E r get ppd fp]) (use ends in auto)
qed

section \<open>A raster stream that is all there\<close>

text \<open>\<open>view\<close> shows what is still to come: the lines of the page being read, then the pages. The
  raster library hands them out in order and a header only between pages; blocks are granted,
  the disk and the queue work, and nobody cancels the job.\<close>

type_synonym raster = "(page_header \<times> byte list list) list"

definition cooperates :: "'r print_env \<Rightarrow> ('r \<Rightarrow> byte list list \<times> raster) \<Rightarrow> bool" where
  "cooperates E view \<longleftrightarrow>
     (\<forall>r. view r = ([], []) \<longrightarrow> fst (ras_header E r) = None)
     \<and> (\<forall>r hdr ls ps. view r = ([], (hdr, ls) # ps) \<longrightarrow> (\<exists>r'. ras_header E r = (Some hdr, r') \<and> view r' = (ls, ps)))
     \<and> (\<forall>r l ls ps. view r = (l # ls, ps) \<longrightarrow> (\<exists>r'. ras_pixels E (length l) r = (Some l, r') \<and> view r' = (ls, ps)))
     \<and> (\<forall>n r. \<exists>b r'. heap E n r = (Some b, r') \<and> length b = n \<and> view r' = view r)
     \<and> (\<forall>r. \<exists>r'. job_cancelled E r = (False, r') \<and> view r' = view r)
     \<and> (\<forall>r. \<exists>r'. io_ok E r = (True, r') \<and> view r' = view r)
     \<and> (\<forall>r. \<exists>r'. tmp_file E r = (Some empty_file, r') \<and> view r' = view r)
     \<and> (\<forall>w h b. JBIG_BIH_LEN \<le> length (concat (jbig E w h b)))"

lemma cooperatesD:
  assumes "cooperates E view"
  shows "view r = ([], []) \<Longrightarrow> fst (ras_header E r) = None"
    "view r = ([], (hdr, ls) # ps) \<Longrightarrow> \<exists>r'. ras_header E r = (Some hdr, r') \<and> view r' = (ls, ps)"
    "view r = (l # ls, ps) \<Longrightarrow> \<exists>r'. ras_pixels E (length l) r = (Some l, r') \<and> view r' = (ls, ps)"
    "\<exists>b r'. heap E n r = (Some b, r') \<and> length b = n \<and> view r' = view r"
    "\<exists>r'. job_cancelled E r = (False, r') \<and> view r' = view r"
    "\<exists>r'. io_ok E r = (True, r') \<and> view r' = view r"
    "\<exists>r'. tmp_file E r = (Some empty_file, r') \<and> view r' = view r"
    "no_shortage E" "never_cancelled E" "io_fine E" "kept (\<lambda>r r'. view r' = view r) (heap E n)"
proof -
  note c = assms [unfolded cooperates_def]
  show "view r = ([], []) \<Longrightarrow> fst (ras_header E r) = None"
    "view r = ([], (hdr, ls) # ps) \<Longrightarrow> \<exists>r'. ras_header E r = (Some hdr, r') \<and> view r' = (ls, ps)"
    "view r = (l # ls, ps) \<Longrightarrow> \<exists>r'. ras_pixels E (length l) r = (Some l, r') \<and> view r' = (ls, ps)"
    "\<exists>b r'. heap E n r = (Some b, r') \<and> length b = n \<and> view r' = view r"
    "\<exists>r'. job_cancelled E r = (False, r') \<and> view r' = view r"
    "\<exists>r'. io_ok E r = (True, r') \<and> view r' = view r"
    "\<exists>r'. tmp_file E r = (Some empty_file, r') \<and> view r' = view r"
    using c by blast+
  show "no_shortage E" unfolding no_shortage_def using c by (metis fst_conv option.distinct(1))
  show "never_cancelled E" unfolding never_cancelled_def using c by (metis fst_conv)
  show "io_fine E" unfolding io_fine_def using c by (metis fst_conv)
  show "kept (\<lambda>r r'. view r' = view r) (heap E n)" unfolding kept_def using c by (metis Pair_inject)
qed

text \<open>A page the filter accepts, with all its lines.\<close>

definition page_fed :: "page_header \<Rightarrow> byte list list \<Rightarrow> bool" where
  "page_fed hdr ls \<longleftrightarrow> header_supported hdr \<and> colour_supported hdr \<and> length ls = unat (cupsHeight hdr)
     \<and> (\<forall>l \<in> set ls. length l = unat (cupsBytesPerLine hdr))"

lemma read_lines_fed:
  "cooperates E view \<Longrightarrow> view r = (ls, ps) \<Longrightarrow> \<forall>l \<in> set ls. length l = n \<Longrightarrow> k \<le> length ls \<Longrightarrow>
   \<exists>r'. read_lines E n k r = Some (take k ls, r') \<and> view r' = (drop k ls, ps)"
proof (induction k arbitrary: r ls)
  case 0
  then show ?case by simp
next
  case (Suc k)
  then obtain l ls1 where ls: "ls = l # ls1" by (cases ls) auto
  with cooperatesD(3) [OF Suc.prems(1), of r l ls1 ps] Suc.prems obtain r1 where
    r1: "ras_pixels E n r = (Some l, r1)" "view r1 = (ls1, ps)" by auto
  from Suc.IH [OF Suc.prems(1) r1(2)] Suc.prems ls obtain r2 where
    "read_lines E n k r1 = Some (take k ls1, r2)" "view r2 = (drop k ls1, ps)" by auto
  with r1(1) ls show ?case by auto
qed

lemma drain_rows_fed:
  "cooperates E view \<Longrightarrow> view r = (ls, ps) \<Longrightarrow> \<forall>l \<in> set ls. length l = n \<Longrightarrow> view (drain_rows E n (length ls) r) = ([], ps)"
proof (induction ls arbitrary: r)
  case Nil
  then show ?case by simp
next
  case (Cons l ls)
  from cooperatesD(3) [OF Cons.prems(1,2)] Cons.prems(3) obtain r1 where
    "ras_pixels E n r = (Some l, r1)" "view r1 = (ls, ps)" by auto
  with Cons show ?case by simp
qed

definition printed_of :: "'r print_env \<Rightarrow> job_options \<Rightarrow> page_header \<times> byte list list \<Rightarrow> printed" where
  "printed_of E opt = (\<lambda>(hdr, ls). (hdr, image_of E opt hdr (take (sheet_lines opt hdr) ls)))"

lemma render_page_fed:
  assumes E: "cooperates E view" and v: "view r = (ls, ps)" and page: "page_fed hdr ls" and fp: "reliable fp"
  shows "\<exists>fp' r'. render_page E hdr opt fp r = (True, fp', r') \<and> view r' = ([], ps) \<and> reliable fp'
     \<and> file_data fp' = file_data fp @ page_bytes opt (printed_of E opt (hdr, ls))"
proof -
  define lay where "lay = page_layout hdr opt"
  define g where "g = page_geometry hdr lay"
  let ?b = "unat (cupsBytesPerLine hdr)"
  have hdr: "header_supported hdr" "length ls = unat (cupsHeight hdr)" "\<forall>l \<in> set ls. length l = ?b"
    using page by (simp_all add: page_fed_def)
  have g: "geometry_ok hdr lay g" using page_geometry_ok [OF hdr(1)] by (simp add: lay_def g_def)
  have n: "sheet_lines opt hdr = min (unat (cupsHeight hdr)) (unat (g_src_h g))"
    by (simp add: sheet_lines_def lay_def g_def)
  obtain bitmap r0 where 0: "heap E (g_bpl g * unat (l_video_y lay)) r = (Some bitmap, r0)"
    "length bitmap = g_bpl g * unat (l_video_y lay)" "view r0 = (ls, ps)" using cooperatesD(4) [OF E] v by metis
  obtain row r1 where 1: "heap E (g_rowlen g) r0 = (Some row, r1)" "length row = g_rowlen g" "view r1 = (ls, ps)"
    using cooperatesD(4) [OF E] 0(3) by metis
  obtain gray r2 where 2:
    "(if l_rotate90 lay then heap E (unat (g_src_w g) * unat (g_src_h g)) r1 else (Some [], r1)) = (Some gray, r2)"
    "l_rotate90 lay \<longrightarrow> length gray = unat (g_src_w g) * unat (g_src_h g)" "view r2 = (ls, ps)"
  proof (cases "l_rotate90 lay")
    case True
    obtain b r' where "heap E (unat (g_src_w g) * unat (g_src_h g)) r1 = (Some b, r')" "length b = unat (g_src_w g) * unat (g_src_h g)"
      "view r' = view r1" using cooperatesD(4) [OF E] by metis
    with True 1(3) show thesis by (intro that [of b r']) auto
  next
    case False
    with 1(3) show thesis by (intro that [of "[]" r1]) auto
  qed
  define c where "c = \<lparr>cv_row = memset_at row 0 0xff (g_rowlen g), cv_gray = gray, cv_bitmap = bitmap\<rparr>"
  have ok: "canvas_ok lay g c" using 0(2) 1(2) 2(2) by (auto simp: canvas_ok_def c_def memset_at_def mult.commute)
  define lines where "lines = take (sheet_lines opt hdr) ls"
  have lines: "\<forall>l \<in> set lines. length l = ?b" "length lines = min (unat (cupsHeight hdr)) (unat (g_src_h g))"
    using hdr(2,3) n by (auto simp: lines_def dest: in_set_takeD)
  obtain r3 where 3: "read_lines E ?b (length lines) r2 = Some (lines, r3)" "view r3 = (drop (length lines) ls, ps)"
    using read_lines_fed [OF E 2(3) hdr(3), of "length lines"] lines(2) hdr(2) n by (auto simp: lines_def)
  have "\<exists>c'. render_rows E hdr lay opt g [0..<unat (g_src_h g)] c r2 = (True, c', r3) \<and> canvas_ok lay g c'
      \<and> (\<forall>y < unat (g_src_h g). row_done lay opt g lines c' (target opt g y))"
    by (rule render_rows_done [OF g lines]) (use ok 3(1) in auto)
  then obtain c1 where c1: "render_rows E hdr lay opt g [0..<unat (g_src_h g)] c r2 = (True, c1, r3)" "canvas_ok lay g c1"
    "\<forall>y < unat (g_src_h g). row_done lay opt g lines c1 (target opt g y)" by blast
  have "row_done lay opt g lines c1 d" if "d < unat (g_src_h g)" for d
  proof -
    have "target opt g (target opt g d) = d" "target opt g d < unat (g_src_h g)" using that by (auto simp: target_def)
    with c1(3) show ?thesis by metis
  qed
  then have bm: "cv_bitmap (turn_page lay opt g c1) = page_bitmap lay opt g lines"
    using turn_page_bitmap [OF g c1(2)] by blast
  define r4 where "r4 = drain_rows E ?b (unat (cupsHeight hdr) - unat (g_src_h g)) r3"
  have "length (drop (length lines) ls) = unat (cupsHeight hdr) - unat (g_src_h g)" using lines(2) hdr(2) by simp
  then have r4: "view r4 = ([], ps)"
    using drain_rows_fed [OF E 3(2)] hdr(3) by (metis in_set_dropD r4_def)
  obtain ok' fp' r5 where f: "finish_page E hdr lay opt (page_bitmap lay opt g lines) (l_video_x lay) (l_video_y lay) fp r4 = (ok', fp', r5)"
    by (rule prod_cases3)
  have ok' using finish_page_works [OF cooperatesD(8) [OF E] fp] f by (metis fst_conv)
  have run: "render_page E hdr opt fp r = (True, fp', r5)"
    unfolding render_page_def lay_def [symmetric] g_def [symmetric] Let_def
    using 0(1) 1(1) 2(1) c1(1) f \<open>ok'\<close> by (simp add: c_def bm r4_def)
  have "view r5 = view r4"
    by (rule finish_page_kept [OF cooperatesD(11) [OF E] _ _ f]) (auto intro: reflpI transpI)
  moreover have "reliable fp'" "file_data fp' = file_data fp @ page_bytes opt (printed_of E opt (hdr, ls))"
    using finish_page_result [OF f] \<open>ok'\<close> fp
    by (auto simp: page_bytes_def printed_of_def image_of_def lines_def [symmetric] lay_def g_def Let_def)
  ultimately show ?thesis using run r4 by auto
qed

lemma rendered_fed:
  assumes "cooperates E view" "view r = (ls, ps)" "page_fed hdr ls"
  shows "rendered E opt (printed_of E opt (hdr, ls))"
proof -
  have "sheet_lines opt hdr \<le> length ls" using assms(3) by (simp add: page_fed_def sheet_lines_def)
  with read_lines_fed [OF assms(1,2), of "unat (cupsBytesPerLine hdr)" "sheet_lines opt hdr"] assms(3)
  show ?thesis by (auto simp: printed_of_def page_fed_def)
qed

lemma spool_mark_fed:
  assumes "cooperates E view"
  shows "\<exists>sp' r'. spool_mark E start sp r = (True, sp', r') \<and> view r' = view r"
proof -
  obtain r1 where 1: "io_ok E r = (True, r1)" "view r1 = view r" using cooperatesD(6) [OF assms] by metis
  obtain b r2 where 2: "heap E ((if sp_cap sp \<noteq> 0 then sp_cap sp * 2 else 16) * 16) r1 = (Some b, r2)" "view r2 = view r1"
    using cooperatesD(4) [OF assms] by metis
  show ?thesis using 1 2 by (simp add: spool_mark_def ftell_def Let_def split: if_splits)
qed

lemma spool_page_fed:
  assumes E: "cooperates E view" and v: "view r = (ls, ps)" and page: "page_fed hdr ls"
    and sp: "reliable (sp_file sp)" "spool_holds sp qs []"
  shows "\<exists>sp' r'. spool_page E hdr opt sp r = ((True, False), sp', r') \<and> view r' = ([], ps) \<and> reliable (sp_file sp')
     \<and> spool_holds sp' (qs @ [page_bytes opt (printed_of E opt (hdr, ls))]) []"
proof -
  obtain r1 where 1: "io_ok E r = (True, r1)" "view r1 = (ls, ps)" using cooperatesD(6) [OF E] v by metis
  from render_page_fed [OF E 1(2) page sp(1)] obtain fp' r2 where 2: "render_page E hdr opt (sp_file sp) r1 = (True, fp', r2)"
    "view r2 = ([], ps)" "reliable fp'" "file_data fp' = file_data (sp_file sp) @ page_bytes opt (printed_of E opt (hdr, ls))" by blast
  obtain sp' r3 where 3: "spool_mark E (length (concat qs)) (sp\<lparr>sp_file := fp'\<rparr>) r2 = (True, sp', r3)" "view r3 = view r2"
    using spool_mark_fed [OF E] by metis
  have start: "length (file_data (sp_file sp)) = length (concat qs)" using sp(2) by (simp add: spool_holds_def)
  have h: "spool_holds (sp\<lparr>sp_file := fp'\<rparr>) qs (page_bytes opt (printed_of E opt (hdr, ls)))"
    using sp(2) 2(4) by (simp add: spool_holds_def)
  show ?thesis
    using 1 2 3 start spool_mark_holds [OF 3(1) h] by (simp add: spool_page_def ftell_def Let_def)
qed

text \<open>Output and spools take everything.\<close>

definition sinks_ok :: "job_options \<Rightarrow> filter_state \<Rightarrow> bool" where
  "sinks_ok opt s \<longleftrightarrow> fs_status s = 0 \<and> reliable (fs_stdout s)
     \<and> (j_manual_duplex opt \<longrightarrow> reliable (sp_file (fs_fronts s)) \<and> reliable (sp_file (fs_backs s)))"

lemma page_turn_fed:
  assumes E: "cooperates E view" and v: "view r = (ls, ps)" and page: "page_fed hdr ls"
    and inv: "job_holds E opt base qs [] s" and s: "sinks_ok opt s"
  shows "\<exists>s' r'. page_turn E opt hdr s r = (True, s', r') \<and> view r' = ([], ps) \<and> sinks_ok opt s'
     \<and> job_holds E opt base (qs @ [printed_of E opt (hdr, ls)]) [] s'"
proof -
  let ?p = "printed_of E opt (hdr, ls)"
  have hdr: "header_supported hdr" "colour_supported hdr" "fst ?p = hdr" using page by (simp_all add: page_fed_def printed_of_def)
  have ren: "rendered E opt ?p" by (rule rendered_fed [OF E v page])
  have a: "fs_page (announce hdr s) = of_nat (Suc (length qs))"
    "fs_log (announce hdr s) = Log_MDuplex_Off # accounting (map fst qs @ [hdr])"
    "fs_stdout (announce hdr s) = fs_stdout s" "fs_status (announce hdr s) = fs_status s"
    using inv by (simp_all add: job_holds_def announce_def add.commute)
  show ?thesis
  proof (cases "j_manual_duplex opt")
    case False
    from render_page_fed [OF E v page] s obtain fp' r' where r: "render_page E hdr opt (fs_stdout s) r = (True, fp', r')"
      "view r' = ([], ps)" "reliable fp'" "file_data fp' = file_data (fs_stdout s) @ page_bytes opt ?p"
      unfolding sinks_ok_def by blast
    define s' where "s' = (announce hdr s)\<lparr>fs_stdout := fp', fs_last := hdr\<rparr>"
    have "page_turn E opt hdr s r = (True, s', r')"
      using hdr False r(1) by (simp add: page_turn_def announce_def Let_def s'_def)
    moreover have "job_holds E opt base (qs @ [?p]) [] s'"
      using False inv a r ren hdr unfolding job_holds_def by (simp add: s'_def)
    ultimately show ?thesis using r s False a by (auto simp: sinks_ok_def s'_def)
  next
    case True
    define front where "front = bit (fs_page s + 1) 0"
    have "fs_page s + 1 = of_nat (Suc (length qs))" using inv by (simp add: job_holds_def add.commute)
    then have front: "front \<longleftrightarrow> even (length qs)"
      using page_parity [of "Suc (length qs)"] by (simp only: even_Suc not_not front_def)
    have w: "spool_holds (fs_fronts s) (map (page_bytes opt) (fronts_of qs)) []"
      "spool_holds (fs_backs s) (map (page_bytes opt) (backs_of qs)) []"
      using inv True by (auto simp: job_holds_def spool_whole_def)
    define xs where "xs = map (page_bytes opt) (if front then fronts_of qs else backs_of qs)"
    have h: "reliable (sp_file (if front then fs_fronts s else fs_backs s))" "spool_holds (if front then fs_fronts s else fs_backs s) xs []"
      using w s True by (simp_all add: xs_def sinks_ok_def)
    from spool_page_fed [OF E v page h, of opt] obtain sp r' where
      r: "spool_page E hdr opt (if front then fs_fronts s else fs_backs s) r = ((True, False), sp, r')"
      "view r' = ([], ps)" "reliable (sp_file sp)" "spool_holds sp (xs @ [page_bytes opt ?p]) []" by blast
    define s' where "s' = (announce hdr s)\<lparr>fs_fronts := if front then sp else fs_fronts s,
       fs_backs := if front then fs_backs s else sp, fs_last := hdr\<rparr>"
    have "page_turn E opt hdr s r = (True, s', r')"
      using hdr True r(1)
      by (cases front) (simp_all add: page_turn_def announce_def Let_def s'_def front_def [symmetric])
    moreover have "job_holds E opt base (qs @ [?p]) [] s'"
      using True inv a w r(4) front ren hdr unfolding job_holds_def spool_whole_def
      by (cases front) (simp_all add: s'_def xs_def sides_append)
    ultimately show ?thesis using r s True a by (auto simp: sinks_ok_def s'_def)
  qed
qed

lemma page_loop_fed:
  assumes "cooperates E view" "\<forall>(hdr, ls) \<in> set pages. page_fed hdr ls"
  shows "view r = ([], pages) \<Longrightarrow> job_holds E opt base qs [] s \<Longrightarrow> sinks_ok opt s \<Longrightarrow>
    \<exists>s' r'. page_loop E opt s r = Some (s', r') \<and> sinks_ok opt s'
      \<and> job_holds E opt base (qs @ map (printed_of E opt) pages) [] s'"
  using assms(2)
proof (induction pages arbitrary: qs s r)
  case Nil
  obtain r1 where 1: "job_cancelled E r = (False, r1)" "view r1 = ([], [])"
    using cooperatesD(5) [OF assms(1)] Nil.prems(1) by metis
  obtain r2 where "ras_header E r1 = (None, r2)" using cooperatesD(1) [OF assms(1) 1(2)] by (metis prod.collapse)
  with 1(1) Nil show ?case by (subst page_loop.simps) simp
next
  case (Cons page pages)
  obtain hdr ls where p: "page = (hdr, ls)" by (cases page)
  obtain r1 where 1: "job_cancelled E r = (False, r1)" "view r1 = ([], (hdr, ls) # pages)"
    using cooperatesD(5) [OF assms(1)] Cons.prems(1) p by metis
  obtain r2 where 2: "ras_header E r1 = (Some hdr, r2)" "view r2 = (ls, pages)" using cooperatesD(2) [OF assms(1) 1(2)] by blast
  have fed: "page_fed hdr ls" using Cons.prems(4) p by simp
  from page_turn_fed [OF assms(1) 2(2) fed Cons.prems(2,3)] obtain s1 r3 where
    3: "page_turn E opt hdr s r2 = (True, s1, r3)" "view r3 = ([], pages)" "sinks_ok opt s1"
    "job_holds E opt base (qs @ [printed_of E opt page]) [] s1" unfolding p by blast
  have "page_loop E opt s r = page_loop E opt s1 r3" using 1(1) 2(1) 3(1) by (subst page_loop.simps) simp
  with Cons.IH [OF 3(2,4,3)] Cons.prems(4) show ?case by simp
qed

text \<open>The end of such a job.\<close>

lemma render_blank_page_fed:
  assumes "no_shortage E" "reliable fp"
  shows "fst (render_blank_page E hdr opt fp r)"
proof -
  have "\<exists>b r'. heap E n r = (Some b, r')" for n using no_shortageD [OF assms(1)] by metis
  then show ?thesis
    unfolding render_blank_page_def Let_def
    using finish_page_works [OF assms] by (auto split: prod.splits option.splits) (metis option.distinct(1) Pair_inject)+
qed

lemma replay_fed:
  assumes E: "no_shortage E" "io_fine E" and s: "fs_status s = 0" "reliable (fs_stdout s)"
    and f: "spool_holds (fs_fronts s) ps t" and b: "spool_holds (fs_backs s) qs t'"
    and run: "replay E opt s r = (s', r')"
  shows "fs_status s' = 0 \<and> reliable (fs_stdout s')"
proof -
  have cnt: "length (sp_slots (fs_fronts s)) = length ps" "length (sp_slots (fs_backs s)) = length qs"
    using spool_holds_count [OF f] spool_holds_count [OF b] by auto
  obtain ok1 fp1 r1 where 1: "copy_pages E (fs_fronts s) [0..<length ps] (fs_stdout s) r = (ok1, fp1, r1)" by (rule prod_cases3)
  have c1: ok1 "reliable fp1"
    using copy_pages_works [OF E(2) s(2) f, of "[0..<length ps]" r] copy_pages_result [OF 1 f] s(2) 1 by (auto simp: atLeast0LessThan)
  obtain ok2 fp2 where 2: "write_chunk ZJT_2600N_PAUSE [] [] fp1 = (ok2, fp2)" by (metis surj_pair)
  have c2: ok2 "reliable fp2" using appends_sound [OF write_chunk_emits 2 c1(2)] by auto
  define s2 where "s2 = s\<lparr>fs_log := fs_log s @ [Log_MDuplex_On], fs_stdout := fp2\<rparr>"
  obtain s3 r3 where 3: "blank_back E opt s2 r1 = (s3, r3)" by (metis surj_pair)
  obtain ok' fp3 r3' where 33: "render_blank_page E (fs_last s) opt fp2 r1 = (ok', fp3, r3')" by (rule prod_cases3)
  have ok' "reliable fp3"
    using render_blank_page_fed [OF E(1) c2(2), of "fs_last s" opt r1] 33 render_blank_page_result(2) [OF 33 c2(2)] by auto
  with 3 33 c2(2) s have c3: "fs_status s3 = 0" "fs_backs s3 = fs_backs s" "reliable (fs_stdout s3)"
    by (auto simp: blank_back_def s2_def Let_def split: if_splits prod.splits)
  obtain ok4 fp4 r4 where 4: "copy_pages E (fs_backs s) (rev [0..<length qs]) (fs_stdout s3) r3 = (ok4, fp4, r4)"
    by (rule prod_cases3)
  have c4: ok4 "reliable fp4"
    using copy_pages_works [OF E(2) c3(3) b, of "rev [0..<length qs]" r3] copy_pages_result [OF 4 b] c3(3) 4 by (auto simp: atLeast0LessThan)
  show ?thesis
    using run s 1 2 3 4 c1 c2 c3 c4 by (auto simp: replay_def cnt Let_def fail_if_def s2_def [symmetric])
qed

lemma fail_if_False: "fail_if False s = s"
  by (simp add: fail_if_def)

lemma finish_job_fed:
  assumes E: "cooperates E view" and inv: "job_holds E opt base ps [] s" and s: "sinks_ok opt s" "fs_page s \<noteq> 0"
    and run: "finish_job E opt s r = (s', r')"
  shows "fs_status s' = 0"
proof -
  obtain r1 where 1: "job_cancelled E r = (False, r1)" using cooperatesD(5) [OF E] by blast
  obtain r2 where 2: "job_cancelled E r1 = (False, r2)" using cooperatesD(5) [OF E] by blast
  obtain s3 r3 where 3: "(if j_manual_duplex opt then replay E opt s r2 else (s, r2)) = (s3, r3)" by (metis surj_pair)
  have s3: "fs_status s3 = 0 \<and> reliable (fs_stdout s3)"
  proof (cases "j_manual_duplex opt")
    case False
    with 3 s show ?thesis by (auto simp: sinks_ok_def)
  next
    case True
    then obtain t t' where "spool_holds (fs_fronts s) (map (page_bytes opt) (fronts_of ps)) t"
      "spool_holds (fs_backs s) (map (page_bytes opt) (backs_of ps)) t'"
      using inv by (auto simp: job_holds_def spool_whole_def)
    from replay_fed [OF cooperatesD(8,10) [OF E] _ _ this] True 3 s show ?thesis by (simp add: sinks_ok_def)
  qed
  obtain ok fp where 4: "write_trailer (fs_stdout s3) = (ok, fp)" by (metis surj_pair)
  have ok using appends_sound [OF write_trailer_emits 4] s3 by blast
  obtain r5 where 5: "io_ok E r3 = (True, r5)" using cooperatesD(6) [OF E] by blast
  have st: "fs_status s = 0" using s(1) by (simp add: sinks_ok_def)
  show ?thesis
    using run by (auto simp: finish_job_def Let_def fail_if_False st 1 2 3 4 5 \<open>ok\<close> s3 s(2))
qed

lemma filter_fed:
  assumes E: "cooperates E view" and v: "view r = ([], pages)" and fed: "\<forall>(hdr, ls) \<in> set pages. page_fed hdr ls"
    and n: "pages \<noteq> []" "length pages < 2 ^ 32" and fp: "reliable fp" and argc: "argc = 6 \<or> argc = 7"
  shows "\<exists>s1 r1 s r' fp1. filter_main E argc get ppd fp r = Some (s, r') \<and> fs_status s = 0
    \<and> write_prologue fp = (True, fp1) \<and> finish_job E (options_read get ppd) s1 r1 = (s, r')
    \<and> job_holds E (options_read get ppd) fp1 (map (printed_of E (options_read get ppd)) pages) [] s1"
proof -
  let ?opt = "options_read get ppd"
  obtain opened r1 ok2 fronts backs r2 ok3 r3 ok4 fp1 where
    1: "(if argc = 7 then io_ok E r else (True, r)) = (opened, r1)" and
    2: "open_spools E ?opt r1 = (ok2, fronts, backs, r2)" and
    3: "io_ok E r2 = (ok3, r3)" and 4: "write_prologue fp = (ok4, fp1)" and
    run: "filter_main E argc get ppd fp r =
     (if argc < 6 \<or> 7 < argc then Some (fail_if True ((start_state fp)\<lparr>fs_log := []\<rparr>), r)
      else if \<not> opened then Some (fail_if True ((start_state fp)\<lparr>fs_log := []\<rparr>), r1)
      else if \<not> ok2 then Some (fail_if True ((start_state fp)\<lparr>fs_fronts := fronts, fs_backs := backs\<rparr>), r2)
      else if \<not> ok3 then Some (fail_if True ((start_state fp)\<lparr>fs_fronts := fronts, fs_backs := backs\<rparr>), r3)
      else if \<not> ok4 then Some (fail_if True (loop_start fp fronts backs fp1), r3)
      else case page_loop E ?opt (loop_start fp fronts backs fp1) r3 of None \<Rightarrow> None
        | Some (s, r) \<Rightarrow> Some (finish_job E ?opt s r))"
    by (rule filter_main_run)
  have o1: opened "view r1 = ([], pages)" using 1 v cooperatesD(6) [OF E, of r] by (auto split: if_splits)
  obtain ra rb where "tmp_file E r1 = (Some empty_file, ra)" "view ra = view r1" "tmp_file E ra = (Some empty_file, rb)" "view rb = view ra"
    using cooperatesD(7) [OF E] by metis
  with 2 o1 have o2: ok2 "view r2 = ([], pages)"
    "j_manual_duplex ?opt \<longrightarrow> fronts = no_spool \<and> backs = no_spool"
    by (auto simp: open_spools_def spool_open_def no_spool_def split: if_splits)
  have o3: ok3 "view r3 = ([], pages)" using 3 o2(2) cooperatesD(6) [OF E, of r2] by auto
  have o4: ok4 "reliable fp1" using appends_sound [OF write_prologue_emits 4 fp] by auto
  define ls where "ls = loop_start fp fronts backs fp1"
  have hold: "job_holds E ?opt fp1 [] [] ls" "fs_status ls = 0"
    unfolding ls_def by (rule loop_start_holds; use o2(3) no_spool_holds in auto)+
  have sinks: "sinks_ok ?opt ls"
    using o2(3) o4(2) hold(2) by (auto simp: sinks_ok_def ls_def loop_start_def no_spool_def reliable_def empty_file_def)
  from page_loop_fed [OF E fed o3(2) hold(1) sinks] obtain s1 r4 where
    5: "page_loop E ?opt ls r3 = Some (s1, r4)" "sinks_ok ?opt s1" "job_holds E ?opt fp1 (map (printed_of E ?opt) pages) [] s1" by auto
  obtain s r5 where 6: "finish_job E ?opt s1 r4 = (s, r5)" by (metis surj_pair)
  have "fs_page s1 = of_nat (length pages)" using 5(3) by (simp add: job_holds_def)
  moreover have "(of_nat (length pages) :: u32) \<noteq> 0"
    using n unat_small(1) [of "length pages"] by (metis length_0_conv unat_0)
  ultimately have "fs_status s = 0" using finish_job_fed [OF E 5(3,2) _ 6] by simp
  moreover have "filter_main E argc get ppd fp r = Some (s, r5)"
    using run argc o1(1) o2(1) o3(1) o4(1) 5(1) 6 by (auto simp: ls_def)
  ultimately show ?thesis using 4 o4(1) 5(3) 6
    by (intro exI [of _ s1] exI [of _ r4] exI [of _ s] exI [of _ r5] exI [of _ fp1]) simp
qed

end
