(* ===== verification/Print_Props.thy ===== *)
theory Print_Props
  imports Filter_Run
begin

text \<open>
  What the print filter promises, job by job: complete runs on a raster stream that is all there,
  and what reaches the printer when anything goes wrong.
\<close>

section \<open>Complete jobs\<close>

text \<open>A raster stream held as a list, for the concrete runs.\<close>

definition feed_env :: "(byte list list \<times> raster) print_env" where
  "feed_env = \<lparr>
     ras_header = (\<lambda>(ls, ps). case ps of [] \<Rightarrow> (None, (ls, ps))
       | (hdr, l) # q \<Rightarrow> if ls = [] then (Some hdr, (l, q)) else (None, (ls, ps))),
     ras_pixels = (\<lambda>n (ls, ps). case ls of [] \<Rightarrow> (None, (ls, ps))
       | l # q \<Rightarrow> if length l = n then (Some l, (q, ps)) else (None, (ls, ps))),
     job_cancelled = (\<lambda>r. (False, r)), heap = (\<lambda>n r. (Some (replicate n 7), r)),
     jbig = (\<lambda>w h b. [replicate 20 1, b]), io_ok = (\<lambda>r. (True, r)), tmp_file = (\<lambda>r. (Some empty_file, r))\<rparr>"

lemma feed_env_fine: "cooperates feed_env (\<lambda>r. r)" "raster_ok feed_env" "tmp_empty feed_env" "never_cancelled feed_env"
  "finite_raster feed_env (\<lambda>(ls, ps). length ps)"
  by (auto simp: cooperates_def raster_ok_def tmp_empty_def never_cancelled_def finite_raster_def kept_def feed_env_def
      JBIG_BIH_LEN_def empty_file_def split: list.splits if_splits prod.splits)

definition small_header :: page_header where
  "small_header = zero_header\<lparr>cupsWidth := 100, cupsHeight := 2, cupsBitsPerPixel := 8, cupsBytesPerLine := 100,
     NumCopies := 2, PageSize0 := 72, PageSize1 := 36, cupsColorSpace := CUPS_CSPACE_SW\<rparr>"

definition small_pages :: raster where
  "small_pages = replicate 3 (small_header, replicate 2 (replicate 100 0))"

lemma small_pages_fed: "\<forall>(hdr, ls) \<in> set small_pages. page_fed hdr ls" "small_pages \<noteq> []" "length small_pages < 2 ^ 32"
  by (simp_all add: small_pages_def page_fed_def small_header_def zero_header_def header_supported_def colour_supported_def
      PT_MAX_DOTS_def CUPS_CSPACE_W_def CUPS_CSPACE_SW_def)

definition duplex_on :: "string \<Rightarrow> string option" where
  "duplex_on k = (if k = ''ManualDuplex'' then Some ''true'' else None)"

lemma options_plain: "\<not> j_manual_duplex (options_read (\<lambda>_. None) None)"
  by (simp add: options_read_def opt_bool_def opt_get_def Let_def)

lemma options_duplex: "j_manual_duplex (options_read duplex_on None)"
  by (simp add: options_read_def opt_bool_def opt_get_def Let_def duplex_on_def same_nocase_def lower_def)

lemma empty_file_fine: "reliable empty_file" "file_data empty_file = []"
  by (simp_all add: reliable_def empty_file_def)

lemma fst_printed [simp]: "fst (printed_of E opt x) = fst x"
  by (simp add: printed_of_def split: prod.splits)

text \<open>
  C3. A job is printed page for page. Given a raster stream of supported pages with all
  their lines, an output that takes everything and no cancellation, the filter ends with status
  0, and what the printer reads is the document prologue, then for each page of the raster, in
  order, one page whose image is the compressed halftone of that page's lines (those that fit the
  sheet), then the end of the document; lines that do not fit are skipped, so that the next page
  begins where it should. One accounting line per page tells its number and its copies.
\<close>

theorem job_prints_every_page:
  assumes "cooperates E view" "view r = ([], pages)" "\<forall>(hdr, ls) \<in> set pages. page_fed hdr ls"
    "pages \<noteq> []" "length pages < 2 ^ 32" "reliable fp" "file_data fp = []" "argc = 6 \<or> argc = 7"
    "\<not> j_manual_duplex (options_read get ppd)"
  defines "opt \<equiv> options_read get ppd"
  shows "\<exists>s r'. filter_main E argc get ppd fp r = Some (s, r') \<and> fs_status s = 0
    \<and> fs_log s = Log_MDuplex_Off # accounting (map fst pages)
    \<and> parse_document (file_data (fs_stdout s)) = Some (doc_chunks (concat (map (\<lambda>(hdr, ls).
         page_chunks hdr (page_layout hdr opt) opt (image_of E opt hdr (take (sheet_lines opt hdr) ls))) pages)))"
proof -
  from filter_fed [OF assms(1-6,8), of get ppd] obtain s1 r1 s r' fp1 where run:
    "filter_main E argc get ppd fp r = Some (s, r')" "fs_status s = 0" "write_prologue fp = (True, fp1)"
    "finish_job E opt s1 r1 = (s, r')" "job_holds E opt fp1 (map (printed_of E opt) pages) [] s1"
    unfolding opt_def by blast
  have base: "file_data fp1 = prologue_bytes"
    using appends_whole [OF write_prologue_emits run(3)] assms(7) by simp
  note fin = straight_end [OF run(5) base run(4) assms(9) [folded opt_def]]
  have sink: "reliable fp1 \<or> fs_status s = 0 \<and> never_cancelled E"
    using run(2) cooperatesD(9) [OF assms(1)] by blast
  have "map fst (map (printed_of E opt) pages) = map fst pages" by simp
  moreover have "chunks_of opt (printed_of E opt page)
      = (\<lambda>(hdr, ls). page_chunks hdr (page_layout hdr opt) opt (image_of E opt hdr (take (sheet_lines opt hdr) ls))) page" for page
    by (auto simp: printed_of_def split: prod.splits)
  ultimately show ?thesis using fin(1,2) [OF sink] run(1,2) unfolding append_Nil2 by (simp add: comp_def)
qed

theorem job_prints_every_page_witness:
  "\<exists>s r' a b c. filter_main feed_env 6 (\<lambda>_. None) None empty_file ([], small_pages) = Some (s, r') \<and> fs_status s = 0
    \<and> fs_log s = [Log_MDuplex_Off, Log_Page 1 2, Log_Page 2 2, Log_Page 3 2]
    \<and> parse_document (file_data (fs_stdout s)) = Some (doc_chunks (a @ b @ c)) \<and> a \<noteq> [] \<and> a = b \<and> b = c"
proof -
  note page = job_prints_every_page [OF feed_env_fine(1) refl small_pages_fed empty_file_fine _ options_plain, of 6]
  have acc: "accounting (map fst small_pages) = [Log_Page 1 2, Log_Page 2 2, Log_Page 3 2]"
    by (simp add: accounting_def small_pages_def copies_of_def small_header_def upt_rec numeral_3_eq_3)
  have ne: "page_chunks h lay opt bie \<noteq> []" for h lay opt bie by (simp add: page_chunks_def)
  have three: "small_pages = [(small_header, replicate 2 (replicate 100 0)), (small_header, replicate 2 (replicate 100 0)),
      (small_header, replicate 2 (replicate 100 0))]"
    by (simp add: small_pages_def numeral_3_eq_3)
  from page acc ne show ?thesis unfolding three by (auto simp: three) blast
qed

section \<open>Manual duplex\<close>

lemma duplex_fed:
  assumes "cooperates E view" "view r = ([], pages)" "\<forall>(hdr, ls) \<in> set pages. page_fed hdr ls"
    "pages \<noteq> []" "length pages < 2 ^ 32" "reliable fp" "file_data fp = []" "argc = 6 \<or> argc = 7"
    "j_manual_duplex (options_read get ppd)"
  defines "opt \<equiv> options_read get ppd"
  shows "\<exists>s r'. filter_main E argc get ppd fp r = Some (s, r') \<and> fs_status s = 0
    \<and> fs_log s = Log_MDuplex_Off # accounting (map fst pages) @ [Log_MDuplex_On]
        @ (if odd (length pages) then [Log_Page (of_nat (length pages) + 1) 1] else [])
    \<and> parse_document (file_data (fs_stdout s)) = Some (doc_chunks (duplex_chunks E opt (map (printed_of E opt) pages)))"
proof -
  from filter_fed [OF assms(1-6,8), of get ppd] obtain s1 r1 s r' fp1 where run:
    "filter_main E argc get ppd fp r = Some (s, r')" "fs_status s = 0" "write_prologue fp = (True, fp1)"
    "finish_job E opt s1 r1 = (s, r')" "job_holds E opt fp1 (map (printed_of E opt) pages) [] s1"
    unfolding opt_def by blast
  have base: "file_data fp1 = prologue_bytes"
    using appends_whole [OF write_prologue_emits run(3)] assms(7) by simp
  have hdrs: "map fst (map (printed_of E opt) pages) = map fst pages" by simp
  from duplex_end [OF run(5) base run(4) assms(9) [folded opt_def] run(2)] cooperatesD(9) [OF assms(1)]
  have "fs_log s = Log_MDuplex_Off # accounting (map fst pages) @ [Log_MDuplex_On]
        @ (if odd (length pages) then [Log_Page (of_nat (length pages) + 1) 1] else [])"
    "parse_document (file_data (fs_stdout s)) = Some (doc_chunks (duplex_chunks E opt (map (printed_of E opt) pages)))"
    unfolding append_Nil2 hdrs by (simp_all only: length_map list.size add_0_right if_True simp_thms)
  with run(1,2) show ?thesis by blast
qed

lemma sides_map: "fronts_of (map f xs) = map f (fronts_of xs)" "backs_of (map f xs) = map f (backs_of xs)"
  by (simp_all add: fronts_of_def backs_of_def nths_map)

text \<open>
  C10. Manual duplex prints the sheets so that turning the stack works. On a raster stream
  that is all there, the printer gets the odd pages in order, then the pause, then the even pages
  from the last to the first, with one blank side in front of them when the number of pages is
  odd; page k of the job and page k+1 for odd k are thus the two sides of one sheet. The log asks
  the operator to turn the stack after all pages have been accounted for.
\<close>

theorem duplex_turns_the_stack:
  assumes "cooperates E view" "view r = ([], pages)" "\<forall>(hdr, ls) \<in> set pages. page_fed hdr ls"
    "pages \<noteq> []" "length pages < 2 ^ 32" "reliable fp" "file_data fp = []" "argc = 6 \<or> argc = 7"
    "j_manual_duplex (options_read get ppd)"
  defines "opt \<equiv> options_read get ppd"
  defines "page \<equiv> \<lambda>i. chunks_of opt (printed_of E opt (pages ! i))"
  shows "\<exists>s r' fronts backs blank. filter_main E argc get ppd fp r = Some (s, r') \<and> fs_status s = 0
    \<and> fronts = map (\<lambda>k. page (2 * k)) [0..<(length pages + 1) div 2]
    \<and> backs = map (\<lambda>k. page (2 * k + 1)) [0..<length pages div 2]
    \<and> blank = (if odd (length pages) then chunks_of opt (blank_page E opt (fst (last pages))) else [])
    \<and> parse_document (file_data (fs_stdout s)) =
        Some (doc_chunks (concat fronts @ [(ZJT_2600N_PAUSE, [], [])] @ blank @ concat (rev backs)))
    \<and> fs_log s = Log_MDuplex_Off # accounting (map fst pages) @ [Log_MDuplex_On]
        @ (if odd (length pages) then [Log_Page (of_nat (length pages) + 1) 1] else [])"
proof -
  have sides: "fronts_of xs = map (\<lambda>k. xs ! (2 * k)) [0..<(length xs + 1) div 2]"
    "backs_of xs = map (\<lambda>k. xs ! (2 * k + 1)) [0..<length xs div 2]" for xs :: "(page_header \<times> byte list list) list"
  proof (induction xs rule: rev_induct)
    case Nil
    { case 1 then show ?case by simp next case 2 then show ?case by simp }
  next
    case (snoc x xs)
    { case 1 show ?case using snoc by (cases "even (length xs)") (auto simp: sides_append nth_append elim!: evenE oddE)
    next case 2 show ?case using snoc by (cases "even (length xs)") (auto simp: sides_append nth_append elim!: evenE oddE) }
  qed
  let ?f = "printed_of E opt"
  have fr: "map (chunks_of opt) (fronts_of (map ?f pages)) = map (\<lambda>k. page (2 * k)) [0..<(length pages + 1) div 2]"
    "map (chunks_of opt) (backs_of (map ?f pages)) = map (\<lambda>k. page (2 * k + 1)) [0..<length pages div 2]"
    by (simp_all add: sides_map sides page_def)
  have "fst (last (map ?f pages)) = fst (last pages)" using assms(4) by (simp add: last_map)
  then have "duplex_chunks E opt (map ?f pages) = concat (map (\<lambda>k. page (2 * k)) [0..<(length pages + 1) div 2])
      @ [(ZJT_2600N_PAUSE, [], [])]
      @ (if odd (length pages) then chunks_of opt (blank_page E opt (fst (last pages))) else [])
      @ concat (rev (map (\<lambda>k. page (2 * k + 1)) [0..<length pages div 2]))"
    unfolding duplex_chunks_def fr rev_map [symmetric] by simp
  with duplex_fed [OF assms(1-9), folded opt_def] show ?thesis by auto
qed

theorem duplex_turns_the_stack_witness:
  "\<exists>s r' a b blank. filter_main feed_env 6 duplex_on None empty_file ([], small_pages) = Some (s, r') \<and> fs_status s = 0
    \<and> fs_log s = [Log_MDuplex_Off, Log_Page 1 2, Log_Page 2 2, Log_Page 3 2, Log_MDuplex_On, Log_Page 4 1]
    \<and> parse_document (file_data (fs_stdout s)) = Some (doc_chunks (a @ b @ [(ZJT_2600N_PAUSE, [], [])] @ blank @ b))
    \<and> a = b"
proof -
  note page = duplex_turns_the_stack [OF feed_env_fine(1) refl small_pages_fed empty_file_fine _ options_duplex, of 6]
  have acc: "accounting (map fst small_pages) = [Log_Page 1 2, Log_Page 2 2, Log_Page 3 2]"
    by (simp add: accounting_def small_pages_def copies_of_def small_header_def upt_rec numeral_3_eq_3)
  have three: "length small_pages = 3" "small_pages ! 0 = small_pages ! 2" "small_pages ! Suc 0 = small_pages ! 2"
    by (simp_all add: small_pages_def)
  have up: "[0..<(3 + 1) div 2] = [0, 1]" "[0..<3 div 2] = [0 :: nat]" by (simp_all add: upt_rec)
  from page show ?thesis unfolding acc three(1) up by (auto simp: three)
qed

section \<open>When things go wrong\<close>



text \<open>
  C11. A manual duplex job that ends with status 0 has printed both passes or nothing. When
  the operator was asked to turn the stack, the output is the whole document in two passes; when
  not (the job was cancelled), no page was sent and nothing is waiting for the operator. An
  uncancelled job with status 0 was printed.
\<close>

theorem duplex_success_is_whole:
  assumes run: "filter_main E argc get ppd fp r = Some (s, r')" and E: "raster_ok E" "tmp_empty E" and fp: "file_data fp = []"
    and dup: "j_manual_duplex (options_read get ppd)" and good: "fs_status s = 0"
  shows "\<exists>ps extra. (\<forall>p \<in> set ps. rendered E (options_read get ppd) p) \<and> length extra \<le> 1
     \<and> (never_cancelled E \<longrightarrow> extra = [] \<and> ps \<noteq> [] \<and> Log_MDuplex_On \<in> set (fs_log s))
     \<and> (if Log_MDuplex_On \<in> set (fs_log s)
        then fs_log s = Log_MDuplex_Off # accounting (map fst ps @ extra) @ [Log_MDuplex_On]
               @ (if odd (length ps) then [Log_Page (of_nat (length ps + length extra) + 1) 1] else [])
          \<and> parse_document (file_data (fs_stdout s)) = Some (doc_chunks (duplex_chunks E (options_read get ppd) ps))
        else fs_log s = Log_MDuplex_Off # accounting (map fst ps @ extra)
          \<and> parse_document (file_data (fs_stdout s)) = Some (doc_chunks []))"
  using run
proof (cases rule: filter_main_cases)
  case early
  with good show ?thesis by simp
next
  case (no_prologue fp1)
  with good show ?thesis by simp
next
  case (started fronts backs ra rb fp1 s1 r1 r2)
  let ?opt = "options_read get ppd"
  from page_loop_holds [OF started(3) E(1) loop_start_holds [where opt = "options_read get ppd"]] open_spools_empty [OF E(2) started(1) dup] dup
  obtain ps extra where inv: "job_holds E ?opt fp1 ps extra s1" by auto
  have base: "file_data fp1 = prologue_bytes"
    using appends_whole [OF write_prologue_emits started(2)] fp by simp
  have "\<forall>p \<in> set ps. rendered E ?opt p" "length extra \<le> 1" using inv by (simp_all add: job_holds_def)
  with duplex_end [OF inv base started(4) dup good] show ?thesis by blast
qed

theorem duplex_success_is_whole_witness:
  "\<exists>s r' ps. filter_main feed_env 6 duplex_on None empty_file ([], small_pages) = Some (s, r') \<and> ps \<noteq> []
    \<and> parse_document (file_data (fs_stdout s)) = Some (doc_chunks (duplex_chunks feed_env (options_read duplex_on None) ps))"
proof -
  from filter_fed [OF feed_env_fine(1) refl small_pages_fed empty_file_fine(1), of 6 duplex_on None] obtain s r' where
    run: "filter_main feed_env 6 duplex_on None empty_file ([], small_pages) = Some (s, r')" "fs_status s = 0" by auto
  from duplex_success_is_whole [OF run(1) feed_env_fine(2,3) empty_file_fine(2) options_duplex run(2)] feed_env_fine(4) run(1)
  show ?thesis by metis
qed

text \<open>
  C14. The filter ends. On a raster stream with finitely many pages, whatever fails on the
  way, the filter returns.
\<close>

theorem filter_ends:
  assumes "finite_raster E f"
  shows "\<exists>s r'. filter_main E argc get ppd fp r = Some (s, r')"
  by (rule filter_main_ends [OF assms])

theorem filter_ends_witness: "\<exists>s r'. filter_main feed_env 6 duplex_on None empty_file ([], small_pages) = Some (s, r')"
  by (rule filter_ends [OF feed_env_fine(5)])

text \<open>
  C31. The blank side of manual duplex asks for copies nobody accounts for. When an odd number
  of pages is printed, the blank back is announced to the scheduler as one copy, but its
  START_PAGE repeats the number of copies of the last page, so the engine makes that many.
\<close>

theorem blank_back_undercounted:
  assumes "cooperates E view" "view r = ([], pages)" "\<forall>(hdr, ls) \<in> set pages. page_fed hdr ls"
    "odd (length pages)" "length pages < 2 ^ 32" "reliable fp" "file_data fp = []" "argc = 6 \<or> argc = 7"
    "j_manual_duplex (options_read get ppd)"
  shows "\<exists>s r' pre items post. filter_main E argc get ppd fp r = Some (s, r')
    \<and> last (fs_log s) = Log_Page (of_nat (length pages) + 1) 1
    \<and> parse_document (file_data (fs_stdout s)) =
        Some (pre @ [(ZJT_2600N_PAUSE, [], []), (ZJT_START_PAGE, items, [])] @ post)
    \<and> item ZJI_DMCOPIES (copies_of (fst (last pages))) \<in> set items"
proof -
  let ?opt = "options_read get ppd"
  let ?hdr = "fst (last pages)"
  have ne: "pages \<noteq> []" using assms(4) by auto
  obtain s r' where run: "filter_main E argc get ppd fp r = Some (s, r')"
    "last (fs_log s) = Log_Page (of_nat (length pages) + 1) 1"
    "parse_document (file_data (fs_stdout s)) = Some (doc_chunks (duplex_chunks E ?opt (map (printed_of E ?opt) pages)))"
    using duplex_fed [OF assms(1-3) ne assms(5-9)] assms(4) by auto
  obtain image where b: "blank_page E ?opt ?hdr = (?hdr, image)" by (simp add: blank_page_def Let_def)
  have "fst (last (map (printed_of E ?opt) pages)) = ?hdr" using ne by (simp add: last_map)
  then have "\<exists>pre post. doc_chunks (duplex_chunks E ?opt (map (printed_of E ?opt) pages))
      = pre @ [(ZJT_2600N_PAUSE, [], []), (ZJT_START_PAGE, page_items ?hdr (page_layout ?hdr ?opt) ?opt, [])] @ post"
    using assms(4) by (simp add: doc_chunks_def duplex_chunks_def b page_chunks_def)
      (metis append_Cons append_assoc)
  moreover have "item ZJI_DMCOPIES (copies_of ?hdr) \<in> set (page_items ?hdr (page_layout ?hdr ?opt) ?opt)"
    by (simp add: page_items_def Let_def copies_of_def)
  ultimately show ?thesis using run by metis
qed

text \<open>One page, two copies asked for: the blank side is accounted once and printed twice.\<close>

theorem blank_back_undercounted_witness:
  "\<exists>s r' pre items post. filter_main feed_env 6 duplex_on None empty_file ([], take 1 small_pages) = Some (s, r')
    \<and> last (fs_log s) = Log_Page 2 1
    \<and> parse_document (file_data (fs_stdout s)) =
        Some (pre @ [(ZJT_2600N_PAUSE, [], []), (ZJT_START_PAGE, items, [])] @ post)
    \<and> item ZJI_DMCOPIES 2 \<in> set items"
proof -
  have one: "take 1 small_pages = [(small_header, replicate 2 (replicate 100 0))]"
    "copies_of small_header = 2" by (simp_all add: small_pages_def small_header_def copies_of_def)
  have fed: "\<forall>(hdr, ls) \<in> set (take 1 small_pages). page_fed hdr ls" using small_pages_fed(1) by (auto dest: in_set_takeD)
  from blank_back_undercounted [OF feed_env_fine(1) refl fed _ _ empty_file_fine _ options_duplex, of 6]
  show ?thesis unfolding one by (simp add: one)
qed

section \<open>Options\<close>

text \<open>
  C30. Job options stay in the range the firmware knows. Whatever strings the job and the PPD
  hold, the density is between 0 and 4 and the tray is 0, 1 or 2. Toner saving forces density 0;
  otherwise a density that starts with digits is their value, cut at 4, and anything else is the
  default 2. A keyword the job sets is read from the job, and from the PPD only when the job does
  not have it.
\<close>

theorem options_in_range:
  "0 \<le> j_density (options_read get ppd) \<and> j_density (options_read get ppd) \<le> 4
   \<and> j_tray (options_read get ppd) \<in> {0, 1, 2}
   \<and> (opt_bool get ppd ''TonerMode'' \<longrightarrow> j_density (options_read get ppd) = 0)
   \<and> (\<not> opt_bool get ppd ''TonerMode'' \<longrightarrow> j_density (options_read get ppd) =
        (case opt_get get ppd ''Density'' of
           Some (c # cs) \<Rightarrow> if isdigit c then min 4 (strtol_digits (c # cs)) else 2 | _ \<Rightarrow> 2))
   \<and> (get key = Some v \<longrightarrow> opt_get get ppd key = Some v)"
proof -
  have "48 \<le> (of_char c :: int)" if "isdigit c" for c
    using that of_nat_of_char [of c, where ?'a = int] by (auto simp: isdigit_def)
  then have "0 \<le> fold (\<lambda>c n. n * 10 + (of_char c - 48)) cs (n :: int)" if "\<forall>c \<in> set cs. isdigit c" "0 \<le> n" for cs n
    using that by (induction cs arbitrary: n) auto
  then have pos: "0 \<le> strtol_digits s" for s
    by (auto simp: strtol_digits_def dest: set_takeWhileD)
  have d: "j_density (options_read get ppd) = (if opt_bool get ppd ''TonerMode'' then 0 else
      (case opt_get get ppd ''Density'' of
           Some (c # cs) \<Rightarrow> if isdigit c then min 4 (strtol_digits (c # cs)) else 2 | _ \<Rightarrow> 2))"
    by (auto simp: options_read_def Let_def split: option.splits list.splits)
  have "j_tray (options_read get ppd) \<in> {0, 1, 2}"
    by (auto simp: options_read_def Let_def split: option.splits)
  moreover have "0 \<le> j_density (options_read get ppd) \<and> j_density (options_read get ppd) \<le> 4"
    using pos by (auto simp: d split: option.splits list.splits)
  ultimately show ?thesis using d by (simp add: opt_get_def)
qed

theorem options_in_range_witness:
  "j_density (options_read (\<lambda>k. if k = ''Density'' then Some ''7'' else None) None) = 4"
proof -
  let ?get = "\<lambda>k. if k = ''Density'' then Some ''7'' else None"
  have "\<not> opt_bool ?get None ''TonerMode''" "opt_get ?get None ''Density'' = Some ''7''" "isdigit (CHR ''7'')"
    "strtol_digits ''7'' = 7"
    by (simp_all add: opt_bool_def opt_get_def isdigit_def strtol_digits_def)
  with options_in_range [of ?get None "''x''" "''y''"] show ?thesis by simp
qed

end
