(* ===== verification/Shim.thy ===== *)
theory Shim
  imports Hex
begin

text \<open>
  The USB tracer (\<^verbatim>\<open>proto/usbshim.c\<close>): a library that is loaded in front of libusb,
  passes every call on and logs what went over the wire. The calls of the real library
  (\<^verbatim>\<open>dlsym (RTLD_NEXT, ...)\<close>) and what \<^verbatim>\<open>getenv\<close> and \<^verbatim>\<open>fopen\<close> say are parameters.
\<close>

section \<open>The log\<close>

text \<open>\<^verbatim>\<open>logf\<close>: not chosen yet, the file named in the environment, or \<^verbatim>\<open>stderr\<close>; with the
  text written to each, and \<^verbatim>\<open>lock\<close>.\<close>

datatype sink = Sink_File | Sink_Stderr

record shim =
  sh_logf :: "sink option"
  sh_file :: string
  sh_stderr :: string
  sh_held :: bool

record shim_env =
  log_path :: "string option"
  log_opens :: "string \<Rightarrow> bool"

definition MAX_DUMP :: int where "MAX_DUMP = 512"

text \<open>Opening with \<^verbatim>\<open>"w"\<close> empties the file.\<close>

definition shim_init :: "shim_env \<Rightarrow> shim \<Rightarrow> shim" where
  "shim_init V s =
     (if sh_logf s \<noteq> None then s
      else case log_path V of
        None \<Rightarrow> s\<lparr>sh_logf := Some Sink_Stderr\<rparr>
      | Some path \<Rightarrow>
          if log_opens V path then s\<lparr>sh_logf := Some Sink_File, sh_file := []\<rparr>
          else s\<lparr>sh_logf := Some Sink_Stderr\<rparr>)"

text \<open>Writing through a null \<^verbatim>\<open>FILE *\<close> is \<open>None\<close>, and so is locking a default mutex that
  the thread holds: it never returns.\<close>

definition put_log :: "string \<Rightarrow> shim \<Rightarrow> shim option" where
  "put_log t s =
     (case sh_logf s of
        None \<Rightarrow> None
      | Some Sink_File \<Rightarrow> Some (s\<lparr>sh_file := sh_file s @ t\<rparr>)
      | Some Sink_Stderr \<Rightarrow> Some (s\<lparr>sh_stderr := sh_stderr s @ t\<rparr>))"

definition mutex_lock :: "shim \<Rightarrow> shim option" where
  "mutex_lock s = (if sh_held s then None else Some (s\<lparr>sh_held := True\<rparr>))"

definition mutex_unlock :: "shim \<Rightarrow> shim" where
  "mutex_unlock s = s\<lparr>sh_held := False\<rparr>"

text \<open>Every write to the log stands between the two, behind \<^verbatim>\<open>shim_init\<close>.\<close>

definition log_text :: "shim_env \<Rightarrow> string \<Rightarrow> shim \<Rightarrow> shim option" where
  "log_text V t s =
     (case mutex_lock s of
        None \<Rightarrow> None
      | Some s \<Rightarrow>
          (case put_log t (shim_init V s) of
             None \<Rightarrow> None
           | Some s \<Rightarrow> Some (mutex_unlock s)))"

section \<open>Dumping a transfer\<close>

text \<open>Sixteen cells a line, the missing ones of the last line blank, and the same bytes as
  characters where they are printable.\<close>

definition dump_cell :: "byte list \<Rightarrow> nat \<Rightarrow> nat \<Rightarrow> string" where
  "dump_cell buf n k = (if k < n then pad_hex 2 (unat (buf ! k)) @ '' '' else ''   '')"

definition dump_char :: "byte \<Rightarrow> char" where
  "dump_char c = (if 32 \<le> c \<and> c < 127 then char_of (unat c) else CHR ''.'')"

definition dump_row :: "byte list \<Rightarrow> nat \<Rightarrow> nat \<Rightarrow> string" where
  "dump_row buf n i =
     ''  '' @ pad_hex 4 i @ ''  '' @ concat (map (\<lambda>j. dump_cell buf n (i + j)) [0..<16]) @ '' |''
     @ map (\<lambda>j. dump_char (buf ! (i + j))) [0..<min 16 (n - i)] @ ''|''"

function dump_rows :: "byte list \<Rightarrow> nat \<Rightarrow> nat \<Rightarrow> string list" where
  "dump_rows buf n i = (if i < n then dump_row buf n i # dump_rows buf n (i + 16) else [])"
  by pat_completeness auto
termination
  by (relation "measure (\<lambda>(buf, n, i). n - i)") auto

declare dump_rows.simps [simp del]

definition line_end :: "string \<Rightarrow> string" where
  "line_end l = l @ [CHR 0x0A]"

definition dump_text :: "string \<Rightarrow> nat \<Rightarrow> byte list \<Rightarrow> int \<Rightarrow> int \<Rightarrow> string" where
  "dump_text tag ep buf len req =
     (let n = (if MAX_DUMP < len then MAX_DUMP else len) in
      line_end (tag @ '' ep=0x'' @ pad_hex 2 ep @ '' req='' @ show_int req @ '' len='' @ show_int len)
      @ concat (map line_end (dump_rows buf (nat n) 0))
      @ (if n < len then line_end (''  ... '' @ show_int (len - n) @ '' more bytes'') else []))"

definition dump :: "shim_env \<Rightarrow> string \<Rightarrow> nat \<Rightarrow> byte list \<Rightarrow> int \<Rightarrow> int \<Rightarrow> shim \<Rightarrow> shim option" where
  "dump V tag ep buf len req s = log_text V (dump_text tag ep buf len req) s"

section \<open>The calls\<close>

text \<open>The library behind the tracer. A transfer returns its code, the buffer as it left it and
  what it stored in \<^verbatim>\<open>*transferred\<close> (\<open>None\<close>: the caller passed no pointer).\<close>

record ('d, 'w) real_usb =
  real_bulk :: "'d \<Rightarrow> byte \<Rightarrow> byte list \<Rightarrow> int \<Rightarrow> int option \<Rightarrow> u32 \<Rightarrow> 'w \<Rightarrow> (int \<times> byte list \<times> int option) \<times> 'w"
  real_control :: "'d \<Rightarrow> byte \<Rightarrow> byte \<Rightarrow> u16 \<Rightarrow> u16 \<Rightarrow> byte list option \<Rightarrow> u16 \<Rightarrow> u32 \<Rightarrow> 'w \<Rightarrow> (int \<times> byte list option) \<times> 'w"
  real_claim :: "'d \<Rightarrow> int \<Rightarrow> 'w \<Rightarrow> int \<times> 'w"
  real_altset :: "'d \<Rightarrow> int \<Rightarrow> int \<Rightarrow> 'w \<Rightarrow> int \<times> 'w"

definition libusb_bulk_transfer ::
  "shim_env \<Rightarrow> ('d, 'w) real_usb \<Rightarrow> 'd \<Rightarrow> byte \<Rightarrow> byte list \<Rightarrow> int \<Rightarrow> int option \<Rightarrow> u32 \<Rightarrow> shim \<Rightarrow> 'w
   \<Rightarrow> ((int \<times> byte list \<times> int option) \<times> shim \<times> 'w) option" where
  "libusb_bulk_transfer V R dev endpoint data len transferred timeout s w =
     (let is_in = (endpoint AND 0x80 \<noteq> 0) in
      case (if is_in then Some s else dump V ''OUT'' (unat endpoint) data len len s) of
        None \<Rightarrow> None
      | Some s \<Rightarrow>
          (case real_bulk R dev endpoint data len transferred timeout w of ((rc, data, transferred), w) \<Rightarrow>
             let got = (if rc = 0 then (case transferred of None \<Rightarrow> 0 | Some n \<Rightarrow> n) else 0) in
             case (if is_in then dump V ''IN '' (unat endpoint) data got len s else Some s) of
               None \<Rightarrow> None
             | Some s \<Rightarrow>
                 (case (if rc \<noteq> 0 then log_text V (line_end (''  !! rc='' @ show_int rc)) s else Some s) of
                    None \<Rightarrow> None
                  | Some s \<Rightarrow> Some ((rc, data, transferred), s, w))))"

definition libusb_control_transfer ::
  "shim_env \<Rightarrow> ('d, 'w) real_usb \<Rightarrow> 'd \<Rightarrow> byte \<Rightarrow> byte \<Rightarrow> u16 \<Rightarrow> u16 \<Rightarrow> byte list option \<Rightarrow> u16 \<Rightarrow> u32 \<Rightarrow> shim \<Rightarrow> 'w
   \<Rightarrow> ((int \<times> byte list option) \<times> shim \<times> 'w) option" where
  "libusb_control_transfer V R dev bmRequestType bRequest wValue wIndex data wLength timeout s w =
     (case real_control R dev bmRequestType bRequest wValue wIndex data wLength timeout w of ((rc, data), w) \<Rightarrow>
        case log_text V (line_end
            (''CTRL type=0x'' @ pad_hex 2 (unat bmRequestType) @ '' req=0x'' @ pad_hex 2 (unat bRequest)
             @ '' val=0x'' @ pad_hex 4 (unat wValue) @ '' idx=0x'' @ pad_hex 4 (unat wIndex)
             @ '' len='' @ show_int (uint wLength) @ '' rc='' @ show_int rc)) s of
          None \<Rightarrow> None
        | Some s \<Rightarrow>
            (case (case data of
                     Some buf \<Rightarrow> (if 0 < rc then dump V ''CTRLDATA'' 0 buf rc (uint wLength) s else Some s)
                   | None \<Rightarrow> Some s) of
               None \<Rightarrow> None
             | Some s \<Rightarrow> Some ((rc, data), s, w)))"

definition libusb_claim_interface ::
  "shim_env \<Rightarrow> ('d, 'w) real_usb \<Rightarrow> 'd \<Rightarrow> int \<Rightarrow> shim \<Rightarrow> 'w \<Rightarrow> (int \<times> shim \<times> 'w) option" where
  "libusb_claim_interface V R dev interface_number s w =
     (case real_claim R dev interface_number w of (rc, w) \<Rightarrow>
        case log_text V (line_end (''CLAIM iface='' @ show_int interface_number @ '' rc='' @ show_int rc)) s of
          None \<Rightarrow> None
        | Some s \<Rightarrow> Some (rc, s, w))"

definition libusb_set_interface_alt_setting ::
  "shim_env \<Rightarrow> ('d, 'w) real_usb \<Rightarrow> 'd \<Rightarrow> int \<Rightarrow> int \<Rightarrow> shim \<Rightarrow> 'w \<Rightarrow> (int \<times> shim \<times> 'w) option" where
  "libusb_set_interface_alt_setting V R dev interface_number alternate_setting s w =
     (case real_altset R dev interface_number alternate_setting w of (rc, w) \<Rightarrow>
        case log_text V (line_end (''ALTSET iface='' @ show_int interface_number @ '' alt='' @ show_int alternate_setting
            @ '' rc='' @ show_int rc)) s of
          None \<Rightarrow> None
        | Some s \<Rightarrow> Some (rc, s, w))"

end
