(* ===== verification/Shim_Laws.thy ===== *)
theory Shim_Laws
  imports Shim
begin

text \<open>
  The tracer does not change what a program sees of libusb, and its log says what went over
  the wire: calls in a row, with the tracer and without it, and a reader of the log.
\<close>

section \<open>Calls in a row\<close>

datatype 'd usb_call =
  Call_Bulk 'd byte "byte list" int "int option" u32
| Call_Control 'd byte byte u16 u16 "byte list option" u16 u32
| Call_Claim 'd int
| Call_Altset 'd int int

datatype usb_answer =
  Ans_Bulk int "byte list" "int option"
| Ans_Control int "byte list option"
| Ans_Code int

text \<open>The program linked with libusb alone.\<close>

fun plain_call :: "('d, 'w) real_usb \<Rightarrow> 'd usb_call \<Rightarrow> 'w \<Rightarrow> usb_answer \<times> 'w" where
  "plain_call R (Call_Bulk d ep buf len tr t) w = (case real_bulk R d ep buf len tr t w of ((rc, b, n), w') \<Rightarrow> (Ans_Bulk rc b n, w'))"
| "plain_call R (Call_Control d ty rq v i b l t) w = (case real_control R d ty rq v i b l t w of ((rc, b'), w') \<Rightarrow> (Ans_Control rc b', w'))"
| "plain_call R (Call_Claim d i) w = (case real_claim R d i w of (rc, w') \<Rightarrow> (Ans_Code rc, w'))"
| "plain_call R (Call_Altset d i a) w = (case real_altset R d i a w of (rc, w') \<Rightarrow> (Ans_Code rc, w'))"

text \<open>The program with the tracer loaded.\<close>

fun shim_call :: "shim_env \<Rightarrow> ('d, 'w) real_usb \<Rightarrow> 'd usb_call \<Rightarrow> shim \<Rightarrow> 'w \<Rightarrow> (usb_answer \<times> shim \<times> 'w) option" where
  "shim_call V R (Call_Bulk d ep buf len tr t) s w =
     map_option (\<lambda>((rc, b, n), s, w). (Ans_Bulk rc b n, s, w)) (libusb_bulk_transfer V R d ep buf len tr t s w)"
| "shim_call V R (Call_Control d ty rq v i b l t) s w =
     map_option (\<lambda>((rc, b), s, w). (Ans_Control rc b, s, w)) (libusb_control_transfer V R d ty rq v i b l t s w)"
| "shim_call V R (Call_Claim d i) s w =
     map_option (\<lambda>(rc, s, w). (Ans_Code rc, s, w)) (libusb_claim_interface V R d i s w)"
| "shim_call V R (Call_Altset d i a) s w =
     map_option (\<lambda>(rc, s, w). (Ans_Code rc, s, w)) (libusb_set_interface_alt_setting V R d i a s w)"

fun plain_run :: "('d, 'w) real_usb \<Rightarrow> 'd usb_call list \<Rightarrow> 'w \<Rightarrow> usb_answer list \<times> 'w" where
  "plain_run R [] w = ([], w)"
| "plain_run R (c # cs) w =
     (case plain_call R c w of (a, w1) \<Rightarrow> case plain_run R cs w1 of (as, w2) \<Rightarrow> (a # as, w2))"

fun shim_run :: "shim_env \<Rightarrow> ('d, 'w) real_usb \<Rightarrow> 'd usb_call list \<Rightarrow> shim \<Rightarrow> 'w \<Rightarrow> (usb_answer list \<times> shim \<times> 'w) option" where
  "shim_run V R [] s w = Some ([], s, w)"
| "shim_run V R (c # cs) s w =
     (case shim_call V R c s w of
        None \<Rightarrow> None
      | Some (a, s1, w1) \<Rightarrow>
          (case shim_run V R cs s1 w1 of None \<Rightarrow> None | Some (as, s2, w2) \<Rightarrow> Some (a # as, s2, w2)))"

text \<open>What a call adds to the log.\<close>

fun call_text :: "'d usb_call \<Rightarrow> usb_answer \<Rightarrow> string" where
  "call_text (Call_Bulk d ep buf len tr t) (Ans_Bulk rc b n) =
     (if ep AND 0x80 \<noteq> 0
      then dump_text ''IN '' (unat ep) b (if rc = 0 then (case n of None \<Rightarrow> 0 | Some n \<Rightarrow> n) else 0) len
      else dump_text ''OUT'' (unat ep) buf len len)
     @ (if rc \<noteq> 0 then line_end (''  !! rc='' @ show_int rc) else [])"
| "call_text (Call_Control d ty rq v i b l t) (Ans_Control rc b') =
     line_end (''CTRL type=0x'' @ pad_hex 2 (unat ty) @ '' req=0x'' @ pad_hex 2 (unat rq)
       @ '' val=0x'' @ pad_hex 4 (unat v) @ '' idx=0x'' @ pad_hex 4 (unat i)
       @ '' len='' @ show_int (uint l) @ '' rc='' @ show_int rc)
     @ (case b' of Some buf \<Rightarrow> (if 0 < rc then dump_text ''CTRLDATA'' 0 buf rc (uint l) else []) | None \<Rightarrow> [])"
| "call_text (Call_Claim d i) (Ans_Code rc) = line_end (''CLAIM iface='' @ show_int i @ '' rc='' @ show_int rc)"
| "call_text (Call_Altset d i a) (Ans_Code rc) =
     line_end (''ALTSET iface='' @ show_int i @ '' alt='' @ show_int a @ '' rc='' @ show_int rc)"
| "call_text _ _ = []"

text \<open>The log a tracer has written: its file, or \<^verbatim>\<open>stderr\<close>.\<close>

definition shim_start :: shim where
  "shim_start = \<lparr>sh_logf = None, sh_file = [], sh_stderr = [], sh_held = False\<rparr>"

definition shim_log :: "shim \<Rightarrow> string" where
  "shim_log s = (case sh_logf s of None \<Rightarrow> [] | Some Sink_File \<Rightarrow> sh_file s | Some Sink_Stderr \<Rightarrow> sh_stderr s)"

definition idle_shim :: "shim \<Rightarrow> bool" where
  "idle_shim s \<longleftrightarrow> \<not> sh_held s \<and> (sh_logf s = None \<longrightarrow> sh_file s = [] \<and> sh_stderr s = [])"

text \<open>Behind an idle tracer every write succeeds and leaves it idle.\<close>

definition logged :: "shim_env \<Rightarrow> string \<Rightarrow> shim \<Rightarrow> shim" where
  "logged V t s = the (log_text V t s)"

lemma log_text_idle:
  assumes "idle_shim s"
  shows "log_text V t s = Some (logged V t s)" "idle_shim (logged V t s)" "shim_log (logged V t s) = shim_log s @ t"
proof -
  have "\<exists>s'. log_text V t s = Some s' \<and> idle_shim s' \<and> shim_log s' = shim_log s @ t"
    using assms
    by (auto simp: log_text_def mutex_lock_def mutex_unlock_def put_log_def shim_init_def idle_shim_def shim_log_def
        split: option.splits sink.splits)
  then show "log_text V t s = Some (logged V t s)" "idle_shim (logged V t s)" "shim_log (logged V t s) = shim_log s @ t"
    by (auto simp: logged_def)
qed

lemma shim_call_plain:
  assumes "idle_shim s" "plain_call R c w = (a, w')"
  shows "\<exists>s'. shim_call V R c s w = Some (a, s', w') \<and> idle_shim s' \<and> shim_log s' = shim_log s @ call_text c a"
proof (cases c)
  case (Call_Bulk d ep buf len tr t)
  obtain rc b n where r: "real_bulk R d ep buf len tr t w = ((rc, b, n), w')" "a = Ans_Bulk rc b n"
    using assms(2) by (auto simp: Call_Bulk split: prod.splits)
  show ?thesis
    unfolding Call_Bulk r(2) shim_call.simps call_text.simps libusb_bulk_transfer_def Let_def dump_def r(1)
    by (cases "ep AND 0x80 \<noteq> 0"; cases "rc = 0") (simp_all add: log_text_idle assms(1))
next
  case (Call_Control d ty rq v i b l t)
  obtain rc b' where r: "real_control R d ty rq v i b l t w = ((rc, b'), w')" "a = Ans_Control rc b'"
    using assms(2) by (auto simp: Call_Control split: prod.splits)
  show ?thesis
    unfolding Call_Control r(2) shim_call.simps call_text.simps libusb_control_transfer_def dump_def r(1)
    by (cases b') (simp_all add: log_text_idle assms(1))
next
  case (Call_Claim d i)
  with assms(2) show ?thesis
    by (auto simp: libusb_claim_interface_def log_text_idle assms(1) split: prod.splits)
next
  case (Call_Altset d i a')
  with assms(2) show ?thesis
    by (auto simp: libusb_set_interface_alt_setting_def log_text_idle assms(1) split: prod.splits)
qed

lemma shim_run_plain:
  "idle_shim s \<Longrightarrow> plain_run R cs w = (as, w') \<Longrightarrow>
   \<exists>s'. shim_run V R cs s w = Some (as, s', w') \<and> idle_shim s' \<and> shim_log s' = shim_log s @ concat (map2 call_text cs as)"
proof (induction cs arbitrary: s w as)
  case Nil
  then show ?case by simp
next
  case (Cons c cs)
  obtain a w1 where a: "plain_call R c w = (a, w1)" by (metis surj_pair)
  obtain as' where as: "plain_run R cs w1 = (as', w')" "as = a # as'"
    using Cons.prems(2) a by (auto split: prod.splits)
  obtain s1 where 1: "shim_call V R c s w = Some (a, s1, w1)" "idle_shim s1" "shim_log s1 = shim_log s @ call_text c a"
    using shim_call_plain [OF Cons.prems(1) a] by blast
  from Cons.IH [OF 1(2) as(1)] 1 as(2) show ?case by auto
qed

section \<open>Reading the log\<close>

text \<open>A line of bytes starts with two blanks and a digit; its cells are the columns 8 to 55.\<close>

function text_lines :: "string \<Rightarrow> string list" where
  "text_lines s = (if s = [] then [] else
     takeWhile (\<lambda>c. c \<noteq> CHR 0x0A) s # text_lines (drop 1 (dropWhile (\<lambda>c. c \<noteq> CHR 0x0A) s)))"
  by pat_completeness auto
termination
proof (relation "measure length")
  fix s :: string
  assume "s \<noteq> []"
  moreover have "length (dropWhile (\<lambda>c. c \<noteq> CHR 0x0A) s) \<le> length s" by (rule length_dropWhile_le)
  ultimately show "(drop 1 (dropWhile (\<lambda>c. c \<noteq> CHR 0x0A) s), s) \<in> measure length" by (cases s) auto
qed simp

declare text_lines.simps [simp del]

definition row_line :: "string \<Rightarrow> bool" where
  "row_line l \<longleftrightarrow> take 2 l = ''  '' \<and> 2 < length l \<and> digit_value (l ! 2) \<noteq> None"

definition cell_bytes :: "string \<Rightarrow> byte list" where
  "cell_bytes c = (case (digit_value (c ! 0), digit_value (c ! 1)) of
     (Some a, Some b) \<Rightarrow> [word_of_nat (16 * a + b)] | _ \<Rightarrow> [])"

definition row_bytes :: "string \<Rightarrow> byte list" where
  "row_bytes l = concat (map cell_bytes (pieces 3 (take 48 (drop 8 l))))"

definition logged_bytes :: "string \<Rightarrow> byte list" where
  "logged_bytes t = concat (map row_bytes (filter row_line (text_lines t)))"

text \<open>What it should say of a call.\<close>

fun shown_bytes :: "'d usb_call \<Rightarrow> usb_answer \<Rightarrow> byte list" where
  "shown_bytes (Call_Bulk d ep buf len tr t) (Ans_Bulk rc b n) =
     take 512 (if ep AND 0x80 = 0 then take (nat len) buf
       else if rc = 0 then (case n of None \<Rightarrow> [] | Some n \<Rightarrow> take (nat n) b) else [])"
| "shown_bytes (Call_Control d ty rq v i b l t) (Ans_Control rc b') =
     (case b' of Some buf \<Rightarrow> take 512 (take (nat rc) buf) | None \<Rightarrow> [])"
| "shown_bytes _ _ = []"

text \<open>The lengths given and reported lie within the buffers.\<close>

fun call_fits :: "'d usb_call \<Rightarrow> usb_answer \<Rightarrow> bool" where
  "call_fits (Call_Bulk d ep buf len tr t) (Ans_Bulk rc b n) \<longleftrightarrow> len \<le> int (length buf)
     \<and> (case n of None \<Rightarrow> True | Some n \<Rightarrow> n \<le> int (length b))"
| "call_fits (Call_Control d ty rq v i b l t) (Ans_Control rc b') \<longleftrightarrow>
     (case b' of Some buf \<Rightarrow> rc \<le> int (length buf) | None \<Rightarrow> True)"
| "call_fits _ _ \<longleftrightarrow> True"

lemma text_lines_Nil [simp]: "text_lines [] = []"
  by (simp add: text_lines.simps)

lemma text_lines_end [simp]:
  assumes "CHR 0x0A \<notin> set l"
  shows "text_lines (line_end l @ t) = l # text_lines t"
proof -
  have "takeWhile (\<lambda>c. c \<noteq> CHR 0x0A) (l @ CHR 0x0A # t) = l" "dropWhile (\<lambda>c. c \<noteq> CHR 0x0A) (l @ CHR 0x0A # t) = CHR 0x0A # t"
    using assms by (induction l) auto
  then show ?thesis by (subst text_lines.simps) (simp add: line_end_def)
qed

text \<open>Texts made of whole lines are read line by line.\<close>

definition lines_ok :: "string list \<Rightarrow> bool" where
  "lines_ok ls \<longleftrightarrow> (\<forall>l \<in> set ls. CHR 0x0A \<notin> set l)"

lemma text_lines_concat: "lines_ok ls \<Longrightarrow> text_lines (concat (map line_end ls) @ t) = ls @ text_lines t"
  by (induction ls) (simp_all add: lines_ok_def)

lemma logged_lines:
  "lines_ok ls \<Longrightarrow> logged_bytes (concat (map line_end ls) @ t) = concat (map row_bytes (filter row_line ls)) @ logged_bytes t"
  by (simp add: logged_bytes_def text_lines_concat)

section \<open>Rows\<close>

lemma byte_digits: "pad_hex 2 (unat (b :: byte)) = [hex_char (unat b div 16), hex_char (unat b mod 16)]"
  "unat b div 16 < 16" "16 * (unat b div 16) + unat b mod 16 = unat b"
  using unsigned_less [of b, where ?'a = nat] by (simp_all add: pad_hex_2)

lemma dump_cell_facts:
  "length (dump_cell buf n k) = 3" "cell_bytes (dump_cell buf n k) = (if k < n then [buf ! k] else [])"
  "CHR 0x0A \<notin> set (dump_cell buf n k)"
proof -
  note byte = byte_digits [of "buf ! k"]
  have "cell_bytes (pad_hex 2 (unat (buf ! k)) @ '' '') = [buf ! k]"
    using byte(2) unfolding byte(1) by (simp add: cell_bytes_def byte(3))
  moreover have "cell_bytes ''   '' = []" by (simp add: cell_bytes_def digit_value_def)
  ultimately show "cell_bytes (dump_cell buf n k) = (if k < n then [buf ! k] else [])" by (simp add: dump_cell_def)
  show "length (dump_cell buf n k) = 3" "CHR 0x0A \<notin> set (dump_cell buf n k)"
    using byte(2) by (simp_all add: dump_cell_def byte(1))
qed

lemma pieces_cells: "\<forall>c \<in> set cs. length c = 3 \<Longrightarrow> pieces 3 (concat cs) = cs"
proof (induction cs)
  case Nil
  then show ?case by (simp add: pieces.simps)
next
  case (Cons c cs)
  then have "c \<noteq> []" by auto
  with Cons show ?case by (subst pieces.simps) simp
qed

lemma sixteen: "concat (map (\<lambda>j. if i + j < n then [buf ! (i + j)] else []) [0..<16]) = take 16 (drop i (take n buf))"
  if "n \<le> length buf"
proof -
  have "concat (map (\<lambda>j. if i + j < n then [buf ! (i + j)] else []) [0..<m]) = take m (drop i (take n buf))" for m
    using that by (induction m) (auto simp: take_Suc_conv_app_nth)
  then show ?thesis .
qed

lemma dump_char_line: "dump_char c \<noteq> CHR 0x0A"
proof -
  have "(of_char (dump_char c) :: nat) \<ge> 32"
    by (auto simp: dump_char_def word_le_nat_alt word_less_nat_alt)
  then show ?thesis by auto
qed

lemma dump_row_facts:
  assumes "n \<le> length buf" "i < 512"
  shows "row_line (dump_row buf n i)" "row_bytes (dump_row buf n i) = take 16 (drop i (take n buf))"
    "CHR 0x0A \<notin> set (dump_row buf n i)"
proof -
  have len: "length (pad_hex 4 i) = 4" using assms(2) by (simp add: pad_hex_length)
  then obtain a b c d where p: "pad_hex 4 i = [a, b, c, d]" by (auto simp: length_Suc_conv numeral_eq_Suc)
  have "is_hex a" using pad_hex_hex [of a 4 i] by (simp add: p)
  then have "digit_value a \<noteq> None" by (simp add: is_hex_not_newline)
  then show "row_line (dump_row buf n i)" by (simp add: row_line_def dump_row_def p)
  define cs where "cs = map (\<lambda>j. dump_cell buf n (i + j)) [0..<16]"
  have cs: "\<forall>c \<in> set cs. length c = 3" "length cs = 16" by (auto simp: cs_def dump_cell_facts)
  have l: "length (concat cs) = 48" using length_concat_rows [OF cs(1)] cs(2) by simp
  have "take 48 (drop 8 (dump_row buf n i)) = concat cs"
    using l by (simp add: dump_row_def p cs_def)
  then have "row_bytes (dump_row buf n i) = concat (map cell_bytes cs)"
    by (simp add: row_bytes_def pieces_cells [OF cs(1)])
  also have "\<dots> = concat (map (\<lambda>j. if i + j < n then [buf ! (i + j)] else []) [0..<16])"
    by (simp add: cs_def dump_cell_facts comp_def)
  finally show "row_bytes (dump_row buf n i) = take 16 (drop i (take n buf))" by (simp only: sixteen [OF assms(1)])
  show "CHR 0x0A \<notin> set (dump_row buf n i)"
    by (auto simp: dump_row_def dump_cell_facts dump_char_line [symmetric])
qed

lemma dump_rows_facts:
  "n \<le> length buf \<Longrightarrow> n \<le> 512 \<Longrightarrow> lines_ok (dump_rows buf n i) \<and> filter row_line (dump_rows buf n i) = dump_rows buf n i
   \<and> concat (map row_bytes (dump_rows buf n i)) = drop i (take n buf)"
proof (induction buf n i rule: dump_rows.induct)
  case (1 buf n i)
  show ?case
  proof (cases "i < n")
    case False
    then show ?thesis by (simp add: dump_rows.simps [of buf n i] lines_ok_def)
  next
    case True
    then have i: "i < 512" using "1.prems" by simp
    have "take 16 (drop i (take n buf)) @ drop (i + 16) (take n buf) = drop i (take n buf)"
      by (metis append_take_drop_id drop_drop add.commute)
    with True "1.IH" [OF True "1.prems"] dump_row_facts [OF "1.prems"(1) i] show ?thesis
      by (simp add: dump_rows.simps [of buf n i] lines_ok_def)
  qed
qed

section \<open>A dump and a call\<close>

text \<open>A heading or a remark is no row: it does not start with two blanks and a digit.\<close>

definition remark :: "string \<Rightarrow> bool" where
  "remark l \<longleftrightarrow> \<not> row_line l \<and> CHR 0x0A \<notin> set l"

lemma logged_remark: "remark l \<Longrightarrow> logged_bytes (line_end l @ t) = logged_bytes t"
  by (simp add: remark_def logged_bytes_def)

lemma remark_end: "remark l \<Longrightarrow> logged_bytes (line_end l) = []"
  using logged_remark [of l "[]"] by (simp add: logged_bytes_def)

lemma logged_dump:
  assumes "tag \<in> {''OUT'', ''IN '', ''CTRLDATA''}" "len \<le> int (length buf)"
  shows "logged_bytes (dump_text tag ep buf len req @ t) = take 512 (take (nat len) buf) @ logged_bytes t"
proof -
  define n where "n = (if MAX_DUMP < len then MAX_DUMP else len)"
  have n: "nat n \<le> length buf" "nat n \<le> 512" "take (nat n) buf = take 512 (take (nat len) buf)"
    using assms(2) by (auto simp: n_def MAX_DUMP_def min_absorb2)
  define top where "top = tag @ '' ep=0x'' @ pad_hex 2 ep @ '' req='' @ show_int req @ '' len='' @ show_int len"
  define rest where "rest = ''  ... '' @ show_int (len - n) @ '' more bytes''"
  have remarks: "remark top" "remark rest"
    using assms(1) by (auto simp: top_def rest_def remark_def row_line_def digit_value_def)
  have whole: "dump_text tag ep buf len req = line_end top @ concat (map line_end (dump_rows buf (nat n) 0))
      @ (if n < len then line_end rest else [])"
    unfolding dump_text_def Let_def top_def rest_def n_def by simp
  note rows = dump_rows_facts [OF n(1,2), of 0]
  have "logged_bytes (concat (map line_end (dump_rows buf (nat n) 0)) @ t') = take (nat n) buf @ logged_bytes t'" for t'
    using logged_lines [of "dump_rows buf (nat n) 0" t'] rows by simp
  then show ?thesis
    by (simp add: whole logged_remark [OF remarks(1)] logged_remark [OF remarks(2)] n(3))
qed

lemma logged_call:
  assumes "call_fits c a"
  shows "logged_bytes (call_text c a @ t) = shown_bytes c a @ logged_bytes t"
proof -
  show ?thesis
    using assms
    by (cases "(c, a)" rule: call_text.cases)
       (auto simp: logged_dump logged_remark remark_def row_line_def digit_value_def split: option.splits)
qed

lemma logged_run:
  "\<forall>(c, a) \<in> set (zip cs as). call_fits c a \<Longrightarrow>
   logged_bytes (concat (map2 call_text cs as)) = concat (map2 shown_bytes cs as)"
proof (induction cs as rule: list_induct2')
  case (4 c cs a as)
  then show ?case by (simp add: logged_call)
qed (simp_all add: logged_bytes_def)

section \<open>The tracer\<close>

text \<open>
  C37. A program that runs with the tracer sees exactly what it would see without it. For any
  calls in a row, whatever libusb answers and wherever the log goes: every call returns, with the
  answer of the real library, which is called once for it with the caller's arguments; the mutex
  is free behind each; and the log is the text of the calls and their answers, in order.
\<close>

theorem tracer_is_transparent:
  "\<exists>s'. shim_run V R cs shim_start w = Some (fst (plain_run R cs w), s', snd (plain_run R cs w))
    \<and> \<not> sh_held s' \<and> shim_log s' = concat (map2 call_text cs (fst (plain_run R cs w)))"
proof -
  have "idle_shim shim_start" "shim_log shim_start = []" by (simp_all add: idle_shim_def shim_start_def shim_log_def)
  with shim_run_plain [of shim_start R cs w] show ?thesis
    by (cases "plain_run R cs w") (fastforce simp: idle_shim_def)
qed


text \<open>A device that answers every read with two bytes.\<close>

definition demo_lib :: "(unit, unit) real_usb" where
  "demo_lib = \<lparr>real_bulk = \<lambda>d ep buf len tr t w. if ep AND 0x80 = 0 then ((0, buf, Some len), w) else ((0, [9, 8, 0, 0], Some 2), w),
     real_control = \<lambda>d ty rq v i b l t w. ((0, b), w), real_claim = \<lambda>d i w. (0, w), real_altset = \<lambda>d i a w. (0, w)\<rparr>"


end
